(* ===== verification/Prelude.thy ===== *)
theory Prelude
  imports Main "HOL-Library.AList" "HOL-Library.Char_ord" "HOL-Library.List_Lexorder"
begin

text \<open>
  Shared ground of the development: Go strings as byte lists with the functions of package
  \<open>strings\<close> the sources call, Go maps as association lists, Go errors as values, decimal
  printing, and the contract of the ``insert unless the key is present'' lists that the pod
  mutator keeps (env vars, volumes, volume mounts, scheduling gates).

  A Go map has no order of iteration. Here it is an association list with distinct keys whose
  order \<^emph>\<open>is\<close> the order in which one \<open>range\<close> loop visits it: a property proved for every
  list is a property for every order the runtime may choose. A nil map is the empty list.
\<close>

named_theorems go_defs "definitions of Go primitives, unfolded for evaluation"
named_theorems emits_intros "rules that walk a program for the events it emits"

subsection \<open>Strings\<close>

definition HasPrefix :: "string \<Rightarrow> string \<Rightarrow> bool" where
  "HasPrefix s p \<longleftrightarrow> take (length p) s = p"

definition HasSuffix :: "string \<Rightarrow> string \<Rightarrow> bool" where
  "HasSuffix s p \<longleftrightarrow> HasPrefix (rev s) (rev p)"

definition TrimPrefix :: "string \<Rightarrow> string \<Rightarrow> string" where
  "TrimPrefix s p = (if HasPrefix s p then drop (length p) s else s)"

text \<open>\<open>strings.Index\<close> and \<open>strings.LastIndex\<close> for a one-byte separator; \<open>None\<close> is Go's -1.\<close>

fun IndexByte :: "string \<Rightarrow> char \<Rightarrow> nat option" where
  "IndexByte [] c = None"
| "IndexByte (x # xs) c = (if x = c then Some 0 else map_option Suc (IndexByte xs c))"

fun LastIndexByte :: "string \<Rightarrow> char \<Rightarrow> nat option" where
  "LastIndexByte [] c = None"
| "LastIndexByte (x # xs) c =
     (case LastIndexByte xs c of
        Some i \<Rightarrow> Some (Suc i)
      | None \<Rightarrow> if x = c then Some 0 else None)"

fun Join :: "string list \<Rightarrow> string \<Rightarrow> string" where
  "Join [] sep = []"
| "Join [x] sep = x"
| "Join (x # y # zs) sep = x @ sep @ Join (y # zs) sep"

lemma HasPrefix_append [simp]: "HasPrefix (p @ s) p"
  by (simp add: HasPrefix_def)

lemma HasPrefix_Nil [simp]: "HasPrefix s []"
  by (simp add: HasPrefix_def)

lemma HasPrefix_iff: "HasPrefix s p \<longleftrightarrow> (\<exists>r. s = p @ r)"
  unfolding HasPrefix_def by (metis append_eq_conv_conj append_take_drop_id)

lemma HasSuffix_iff: "HasSuffix s p \<longleftrightarrow> (\<exists>r. s = r @ p)"
proof
  assume "HasSuffix s p"
  then obtain r where "rev s = rev p @ r"
    by (auto simp: HasSuffix_def HasPrefix_iff)
  then have "s = rev r @ p"
    by (metis rev_append rev_rev_ident)
  then show "\<exists>r. s = r @ p" ..
qed (auto simp: HasSuffix_def)

lemma TrimPrefix_append [simp]: "TrimPrefix (p @ s) p = s"
  by (simp add: TrimPrefix_def)

lemma TrimPrefix_inverse: "HasPrefix s p \<Longrightarrow> p @ TrimPrefix s p = s"
  by (auto simp: HasPrefix_iff)

lemma IndexByte_None [simp]: "IndexByte s c = None \<longleftrightarrow> c \<notin> set s"
  by (induction s) auto

lemma IndexByte_absent [simp]: "c \<notin> set s \<Longrightarrow> IndexByte s c = None"
  by simp

lemma IndexByte_Some:
  "IndexByte s c = Some i \<Longrightarrow> s = take i s @ c # drop (Suc i) s \<and> c \<notin> set (take i s)"
  by (induction s arbitrary: i) (auto split: if_splits)

lemma IndexByte_append: "c \<notin> set p \<Longrightarrow> IndexByte (p @ c # s) c = Some (length p)"
  by (induction p) auto

lemma LastIndexByte_None [simp]: "LastIndexByte s c = None \<longleftrightarrow> c \<notin> set s"
  by (induction s) (auto split: option.splits)

lemma LastIndexByte_absent [simp]: "c \<notin> set s \<Longrightarrow> LastIndexByte s c = None"
  by simp

lemma LastIndexByte_Some:
  "LastIndexByte s c = Some i \<Longrightarrow> s = take i s @ c # drop (Suc i) s \<and> c \<notin> set (drop (Suc i) s)"
  by (induction s arbitrary: i) (auto split: option.splits if_splits)

lemma LastIndexByte_append: "c \<notin> set s \<Longrightarrow> LastIndexByte (p @ c # s) c = Some (length p)"
  by (induction p) (auto split: option.splits)

subsection \<open>Decimal printing\<close>

function show_nat :: "nat \<Rightarrow> string" where
  "show_nat n = (if n < 10 then [char_of (48 + n)] else show_nat (n div 10) @ [char_of (48 + n mod 10)])"
  by pat_completeness auto
termination
  by (relation "measure id") auto

declare show_nat.simps [simp del]

lemma show_nat_digits: "c \<in> set (show_nat n) \<Longrightarrow> c \<in> set ''0123456789''"
proof (induction n rule: show_nat.induct)
  case (1 n)
  have digit: "m < 10 \<Longrightarrow> char_of (48 + m) \<in> set ''0123456789''" for m :: nat
  proof -
    assume "m < 10"
    then have "m \<in> set [0..<10]" by simp
    moreover have "\<forall>m \<in> set [0..<10]. char_of (48 + m) \<in> set ''0123456789''" by code_simp
    ultimately show ?thesis by blast
  qed
  show ?case
  proof (cases "n < 10")
    case True
    then have "c = char_of (48 + n)"
      using "1.prems" by (simp add: show_nat.simps [of n])
    then show ?thesis using digit [OF True] by simp
  next
    case False
    then have "c \<in> set (show_nat (n div 10)) \<or> c = char_of (48 + n mod 10)"
      using "1.prems" by (auto simp: show_nat.simps [of n])
    then show ?thesis using "1.IH" [OF False] digit [of "n mod 10"] by auto
  qed
qed

subsection \<open>Maps\<close>

type_synonym strmap = "(string \<times> string) list"

text \<open>\<open>m[k]\<close> of a string map reads the zero value where the key is absent.\<close>

definition map_get :: "strmap \<Rightarrow> string \<Rightarrow> string" where
  "map_get m k = (case map_of m k of None \<Rightarrow> [] | Some v \<Rightarrow> v)"

lemma map_get_update [simp]: "map_get (AList.update k v m) k' = (if k' = k then v else map_get m k')"
  by (simp add: map_get_def AList.update_conv')

lemma map_of_perm_eq:
  "distinct (map fst m) \<Longrightarrow> set m' = set m \<Longrightarrow> distinct (map fst m') \<Longrightarrow> map_of m' = map_of m"
  by (metis map_of_inject_set)

subsection \<open>Errors\<close>

text \<open>
  Go errors, by what the code does with them: the API server's NotFound and AlreadyExists
  (classified by \<open>apierrors.IsNotFound\<close> and \<open>apierrors.IsAlreadyExists\<close>, which look through
  wrapping), any other error, \<open>fmt.Errorf("... %w", err)\<close> and \<open>errors.Join\<close>.
\<close>

datatype go_error =
    NotFoundErr string
  | AlreadyExistsErr string
  | OtherErr string
  | WrapErr string go_error
  | JoinErr "go_error list"

fun error_string :: "go_error \<Rightarrow> string" where
  "error_string (NotFoundErr m) = m"
| "error_string (AlreadyExistsErr m) = m"
| "error_string (OtherErr m) = m"
| "error_string (WrapErr p e) = p @ '': '' @ error_string e"
| "error_string (JoinErr es) = Join (map error_string es) [CHR 0x0A]"

fun IsNotFound :: "go_error \<Rightarrow> bool" where
  "IsNotFound (NotFoundErr m) = True"
| "IsNotFound (AlreadyExistsErr m) = False"
| "IsNotFound (OtherErr m) = False"
| "IsNotFound (WrapErr p e) = IsNotFound e"
| "IsNotFound (JoinErr es) = list_ex IsNotFound es"

fun IsAlreadyExists :: "go_error \<Rightarrow> bool" where
  "IsAlreadyExists (NotFoundErr m) = False"
| "IsAlreadyExists (AlreadyExistsErr m) = True"
| "IsAlreadyExists (OtherErr m) = False"
| "IsAlreadyExists (WrapErr p e) = IsAlreadyExists e"
| "IsAlreadyExists (JoinErr es) = list_ex IsAlreadyExists es"

text \<open>\<open>client.IgnoreNotFound\<close>, and \<open>errors.Join\<close> over results of which \<open>None\<close> is nil.\<close>

definition IgnoreNotFound :: "go_error \<Rightarrow> go_error option" where
  "IgnoreNotFound e = (if IsNotFound e then None else Some e)"

definition errors_Join :: "go_error option list \<Rightarrow> go_error option" where
  "errors_Join rs = (let es = List.map_filter id rs in if es = [] then None else Some (JoinErr es))"

lemma errors_Join_None [simp]: "errors_Join rs = None \<longleftrightarrow> (\<forall>r \<in> set rs. r = None)"
proof -
  have "List.map_filter id rs = [] \<longleftrightarrow> (\<forall>r \<in> set rs. r = None)"
    by (induction rs) (auto simp: List.map_filter_simps split: option.splits)
  then show ?thesis by (simp add: errors_Join_def Let_def)
qed

end
