(* ===== verification/Keyed_Lists.thy ===== *)
theory Keyed_Lists
  imports Prelude
begin

text \<open>
  Lists used as maps from a key field to an element. Two contracts, each stated as a locale and
  interpreted by the components that provide it: \<open>keyed_insert\<close> appends an element unless its key
  is taken (env vars, volumes, mounts and scheduling gates of the pod mutator: what the pod author
  wrote wins), \<open>keyed_upsert\<close> replaces the element with that key or appends it
  (\<open>status.realized\<close> of a FloxEnv, annotation maps).
\<close>

definition lookup_by :: "('a \<Rightarrow> 'k) \<Rightarrow> 'k \<Rightarrow> 'a list \<Rightarrow> 'a option" where
  "lookup_by key k xs = List.find (\<lambda>x. key x = k) xs"

lemma lookup_by_simps [simp]:
  "lookup_by key k [] = None"
  "lookup_by key k (x # xs) = (if key x = k then Some x else lookup_by key k xs)"
  by (simp_all add: lookup_by_def)

lemma lookup_by_append:
  "lookup_by key k (xs @ ys) =
     (case lookup_by key k xs of None \<Rightarrow> lookup_by key k ys | Some x \<Rightarrow> Some x)"
  by (induction xs) auto

lemma lookup_by_None: "lookup_by key k xs = None \<longleftrightarrow> k \<notin> key ` set xs"
  by (induction xs) auto

lemma lookup_by_Some: "lookup_by key k xs = Some x \<Longrightarrow> x \<in> set xs \<and> key x = k"
  by (induction xs) (auto split: if_splits)

lemma lookup_by_distinct:
  "distinct (map key xs) \<Longrightarrow> x \<in> set xs \<Longrightarrow> lookup_by key (key x) xs = Some x"
  by (induction xs) (auto simp: image_iff)

locale keyed_insert =
  fixes key :: "'a \<Rightarrow> 'k"
    and ins :: "'a \<Rightarrow> 'a list \<Rightarrow> 'a list"
  assumes ins_absent: "key x \<notin> key ` set xs \<Longrightarrow> ins x xs = xs @ [x]"
    and ins_present: "key x \<in> key ` set xs \<Longrightarrow> ins x xs = xs"
begin

lemma keys_ins: "key ` set (ins x xs) = insert (key x) (key ` set xs)"
  by (cases "key x \<in> key ` set xs") (auto simp: ins_absent ins_present)

lemma ins_extends: "\<exists>ys. ins x xs = xs @ ys \<and> set ys \<subseteq> {x}"
  by (cases "key x \<in> key ` set xs") (auto simp: ins_absent ins_present)

lemma distinct_ins: "distinct (map key xs) \<Longrightarrow> distinct (map key (ins x xs))"
  by (cases "key x \<in> key ` set xs") (auto simp: ins_absent ins_present)

lemma ins_idem: "ins x (ins x xs) = ins x xs"
  by (rule ins_present) (simp add: keys_ins)

lemma lookup_ins:
  "lookup_by key k (ins x xs) =
     (case lookup_by key k xs of Some y \<Rightarrow> Some y | None \<Rightarrow> if key x = k then Some x else None)"
proof (cases "key x \<in> key ` set xs")
  case True
  then show ?thesis
    by (auto simp: ins_present lookup_by_None split: option.splits)
next
  case False
  then show ?thesis
    by (auto simp: ins_absent lookup_by_append split: option.splits)
qed

lemma lookup_fold: "lookup_by key k (fold ins ys xs) = lookup_by key k (xs @ ys)"
  by (induction ys arbitrary: xs) (simp_all add: lookup_ins lookup_by_append split: option.split)

lemma keys_fold: "key ` set (fold ins ys xs) = key ` set ys \<union> key ` set xs"
  by (induction ys arbitrary: xs) (auto simp: keys_ins)

lemma fold_extends: "\<exists>zs. fold ins ys xs = xs @ zs \<and> set zs \<subseteq> set ys"
proof (induction ys arbitrary: xs)
  case Nil
  then show ?case by simp
next
  case (Cons y ys)
  obtain zs where zs: "fold ins ys (ins y xs) = ins y xs @ zs" "set zs \<subseteq> set ys"
    using Cons.IH by blast
  obtain us where "ins y xs = xs @ us" "set us \<subseteq> {y}"
    using ins_extends by blast
  with zs show ?case by auto
qed

lemma fold_fresh: "\<exists>zs. fold ins ys xs = xs @ zs \<and> key ` set zs \<inter> key ` set xs = {} \<and> distinct (map key zs)"
proof (induction ys arbitrary: xs)
  case Nil
  then show ?case by simp
next
  case (Cons y ys)
  obtain zs where zs: "fold ins ys (ins y xs) = ins y xs @ zs" "key ` set zs \<inter> key ` set (ins y xs) = {}"
      "distinct (map key zs)"
    using Cons.IH by blast
  show ?case
  proof (cases "key y \<in> key ` set xs")
    case True
    then show ?thesis using zs by (auto simp: ins_present)
  next
    case False
    then show ?thesis using zs by (intro exI [of _ "y # zs"]) (auto simp: ins_absent)
  qed
qed

lemma lookup_fold_present: "lookup_by key k xs = Some x \<Longrightarrow> lookup_by key k (fold ins ys xs) = Some x"
  by (induction ys arbitrary: xs) (auto simp: lookup_ins)

lemma distinct_fold: "distinct (map key xs) \<Longrightarrow> distinct (map key (fold ins ys xs))"
  by (induction ys arbitrary: xs) (auto simp: distinct_ins)

lemma fold_present: "key ` set ys \<subseteq> key ` set xs \<Longrightarrow> fold ins ys xs = xs"
  by (induction ys) (auto simp: ins_present)

lemma fold_idem: "fold ins ys (fold ins ys xs) = fold ins ys xs"
  by (rule fold_present) (auto simp: keys_fold)

end

locale keyed_upsert =
  fixes key :: "'a \<Rightarrow> 'k"
    and ups :: "'a \<Rightarrow> 'a list \<Rightarrow> 'a list"
  assumes lookup_ups:
      "lookup_by key k (ups x xs) = (if k = key x then Some x else lookup_by key k xs)"
    and keys_ups:
      "map key (ups x xs) = (if key x \<in> key ` set xs then map key xs else map key xs @ [key x])"
begin

lemma distinct_ups: "distinct (map key xs) \<Longrightarrow> distinct (map key (ups x xs))"
  by (auto simp: keys_ups)

lemma ups_same: "lookup_by key (key x) (ups x xs) = Some x"
  by (simp add: lookup_ups)

lemma ups_other: "k \<noteq> key x \<Longrightarrow> lookup_by key k (ups x xs) = lookup_by key k xs"
  by (simp add: lookup_ups)

lemma ups_member: "x \<in> set (ups x xs)"
  using ups_same lookup_by_Some by fast

lemma length_ups: "length (ups x xs) = (if key x \<in> key ` set xs then length xs else Suc (length xs))"
  using arg_cong [OF keys_ups, of length] by (auto split: if_splits)

end

lemma lookup_by_update:
  "lookup_by fst k (AList.update a b xs) = (if k = a then Some (a, b) else lookup_by fst k xs)"
  by (induction xs) auto

interpretation map_assign: keyed_upsert fst "\<lambda>(k, v). AList.update k v"
  by unfold_locales (force simp: lookup_by_update AList.update_keys)+

end
