(* ===== verification/Api.thy ===== *)
theory Api
  imports Keyed_Lists
begin

text \<open>
  The API objects: \<open>api/v1alpha1/floxenv_types.go\<close> and \<open>floxcatalog_types.go\<close>, the fields of the
  core Kubernetes objects (pod, workload, claim) the controller reads or writes, and the
  condition list of package \<open>meta\<close>, whose three functions are parameters (record \<open>meta_api\<close>)
  with their documented behaviour as \<open>meta_laws\<close>. A pointer field is an option, a Go struct a
  record, \<open>int64\<close> generations (compared for equality only) are \<open>int\<close>. \<open>LastTransitionTime\<close> of a
  condition is left out: only the library writes it, and no code here reads it.
\<close>

subsection \<open>Object metadata and conditions\<close>

datatype objkey = ObjKey (key_namespace: string) (key_name: string)

record object_meta =
  om_name :: string
  om_namespace :: string
  om_generation :: int
  om_annotations :: strmap
  om_labels :: strmap

datatype condition_status = ConditionTrue | ConditionFalse | ConditionUnknown

record condition =
  c_type :: string
  c_status :: condition_status
  c_reason :: string
  c_message :: string
  c_observed :: int

fun show_status :: "condition_status \<Rightarrow> string" where
  "show_status ConditionTrue = ''True''"
| "show_status ConditionFalse = ''False''"
| "show_status ConditionUnknown = ''Unknown''"

record meta_api =
  FindStatusCondition :: "condition list \<Rightarrow> string \<Rightarrow> condition option"
  SetStatusCondition :: "condition list \<Rightarrow> condition \<Rightarrow> condition list"
  IsStatusConditionTrue :: "condition list \<Rightarrow> string \<Rightarrow> bool"

definition meta_laws :: "meta_api \<Rightarrow> bool" where
  "meta_laws M \<longleftrightarrow>
     (\<forall>cs c. FindStatusCondition M (SetStatusCondition M cs c) (c_type c) = Some c) \<and>
     (\<forall>cs c t. t \<noteq> c_type c \<longrightarrow>
        FindStatusCondition M (SetStatusCondition M cs c) t = FindStatusCondition M cs t) \<and>
     (\<forall>cs t. IsStatusConditionTrue M cs t \<longleftrightarrow>
        (\<exists>c. FindStatusCondition M cs t = Some c \<and> c_status c = ConditionTrue))"

text \<open>A concrete instance of the parameter, for witnesses: first match by type, replace or append.\<close>

fun list_set_condition :: "condition list \<Rightarrow> condition \<Rightarrow> condition list" where
  "list_set_condition [] c = [c]"
| "list_set_condition (d # ds) c = (if c_type d = c_type c then c # ds else d # list_set_condition ds c)"

definition list_meta :: meta_api where
  "list_meta = \<lparr> FindStatusCondition = (\<lambda>cs t. lookup_by c_type t cs),
     SetStatusCondition = list_set_condition,
     IsStatusConditionTrue = (\<lambda>cs t. case lookup_by c_type t cs of
        None \<Rightarrow> False | Some c \<Rightarrow> c_status c = ConditionTrue) \<rparr>"

lemma lookup_list_set_condition:
  "lookup_by c_type t (list_set_condition cs c) = (if t = c_type c then Some c else lookup_by c_type t cs)"
  by (induction cs) auto

lemma meta_laws_list: "meta_laws list_meta"
  by (auto simp: meta_laws_def list_meta_def lookup_list_set_condition split: option.splits)

subsection \<open>FloxEnv\<close>

record update_policy =
  up_mode :: string

record secret_key_ref =
  sk_name :: string
  sk_key :: string
  sk_optional :: "bool option"

record injected_env =
  ie_name :: string
  ie_value :: string
  ie_secret :: "secret_key_ref option"

record floxenv_spec =
  sp_consumption :: string
  sp_manifest :: "string option"
  sp_update :: "update_policy option"
  sp_folder :: string
  sp_depends_on :: "string list"
  sp_inject :: "injected_env list"

record node_realization =
  nr_node :: string
  nr_ready :: bool
  nr_store_path :: string
  nr_env_path :: string
  nr_gcroot_path :: string
  nr_observed :: int

record floxenv_status =
  st_lock :: string
  st_relock_token :: string
  st_resolved :: strmap
  st_realized :: "node_realization list"
  st_conditions :: "condition list"

record floxenv =
  fe_meta :: object_meta
  fe_spec :: floxenv_spec
  fe_status :: floxenv_status

abbreviation fe_name :: "floxenv \<Rightarrow> string" where "fe_name e \<equiv> om_name (fe_meta e)"
abbreviation fe_namespace :: "floxenv \<Rightarrow> string" where "fe_namespace e \<equiv> om_namespace (fe_meta e)"
abbreviation fe_generation :: "floxenv \<Rightarrow> int" where "fe_generation e \<equiv> om_generation (fe_meta e)"
abbreviation fe_annotations :: "floxenv \<Rightarrow> strmap" where
  "fe_annotations e \<equiv> om_annotations (fe_meta e)"
abbreviation fe_conditions :: "floxenv \<Rightarrow> condition list" where
  "fe_conditions e \<equiv> st_conditions (fe_status e)"

definition env_key :: "floxenv \<Rightarrow> objkey" where
  "env_key e = ObjKey (fe_namespace e) (fe_name e)"

subsection \<open>FloxCatalog\<close>

record source_reference =
  sr_kind :: string
  sr_name :: string
  sr_namespace :: string

record floxcatalog_spec =
  cs_source_ref :: source_reference
  cs_dir :: string

record floxenv_phase =
  ph_name :: string
  ph_phase :: string

record floxcatalog_status =
  ct_revision :: string
  ct_artifact_url :: string
  ct_flake_ref :: string
  ct_envs_summary :: string
  ct_envs :: "floxenv_phase list"
  ct_conditions :: "condition list"

record floxcatalog =
  fc_meta :: object_meta
  fc_spec :: floxcatalog_spec
  fc_status :: floxcatalog_status

subsection \<open>Pods, workloads and claims\<close>

datatype env_source = SecretKeyRef secret_key_ref | OtherSource string

record env_var =
  ev_name :: string
  ev_value :: string
  ev_from :: "env_source option"

record volume_mount =
  vm_name :: string
  vm_path :: string

record container =
  ct_name :: string
  ct_env :: "env_var list"
  ct_mounts :: "volume_mount list"

datatype volume_source = PersistentVolumeClaim string | OtherVolume string

record volume =
  vol_name :: string
  vol_source :: volume_source

datatype selector_operator = OpIn | OpNotIn | OpExists | OpDoesNotExist | OpGt | OpLt

record requirement =
  rq_key :: string
  rq_operator :: selector_operator
  rq_values :: "string list"

record selector_term =
  tm_expressions :: "requirement list"
  tm_fields :: "requirement list"

record node_affinity =
  na_required :: "selector_term list option"
  na_preferred :: "string list"

record affinity =
  af_node :: "node_affinity option"
  af_pod :: "string option"
  af_pod_anti :: "string option"

record pod =
  pd_meta :: object_meta
  pd_node_name :: string
  pd_gates :: "string list"
  pd_init :: "container list"
  pd_containers :: "container list"
  pd_volumes :: "volume list"
  pd_affinity :: "affinity option"

abbreviation pd_annotations :: "pod \<Rightarrow> strmap" where
  "pd_annotations p \<equiv> om_annotations (pd_meta p)"

datatype workload_kind = Deployment | DaemonSet | StatefulSet

record workload =
  wl_kind :: workload_kind
  wl_key :: objkey
  wl_template_annotations :: strmap

record volume_claim =
  vc_key :: objkey
  vc_class :: "string option"
  vc_size :: string

end
