(* ===== verification/Floxenv.thy ===== *)
theory Floxenv
  imports Keyed_Lists "HOL-Library.Sublist"
begin

text \<open>
  Package \<open>internal/floxenv\<close>: the annotation coordinates of a flox env (\<open>EnvRef\<close> and
  \<open>RefsFromAnnotations\<close>) and the canonical flox settings. \<open>RefsFromAnnotations\<close> ranges over a Go
  map twice; both orders are inputs here (the annotation list, and the list \<open>keys\<close> in which the
  set of seen refs is visited), and the sorted result is shown not to depend on either.
\<close>

definition AnnotationPrefix :: string where
  "AnnotationPrefix = ''flox.seedmatic.io/environment.''"

definition DefaultCategory :: string where
  "DefaultCategory = ''networking''"

definition SchedulingGateName :: string where
  "SchedulingGateName = ''flox.seedmatic.io/env-ready''"

datatype env_ref = EnvRef (ref_folder: string) (ref_name: string)

instantiation env_ref :: linorder
begin

definition less_env_ref :: "env_ref \<Rightarrow> env_ref \<Rightarrow> bool" where
  "a < b \<longleftrightarrow> (if ref_folder a \<noteq> ref_folder b then ref_folder a < ref_folder b
     else ref_name a < ref_name b)"

definition less_eq_env_ref :: "env_ref \<Rightarrow> env_ref \<Rightarrow> bool" where
  "(a :: env_ref) \<le> b \<longleftrightarrow> a < b \<or> a = b"

instance
  by standard
    (auto simp: less_env_ref_def less_eq_env_ref_def env_ref.expand split: if_splits
      intro: env_ref.expand)

end

text \<open>The folder and name of one annotation value: split at the last slash, or the default folder.\<close>

definition ref_of_value :: "string \<Rightarrow> env_ref" where
  "ref_of_value v =
     (case LastIndexByte v (CHR ''/'') of
        Some i \<Rightarrow> EnvRef (take i v) (drop (i + 1) v)
      | None \<Rightarrow> EnvRef DefaultCategory v)"

text \<open>The first loop: the set \<open>seen\<close>, kept as a list without duplicates.\<close>

fun seen_refs :: "strmap \<Rightarrow> env_ref list \<Rightarrow> env_ref list" where
  "seen_refs [] seen = seen"
| "seen_refs ((k, v) # m) seen =
     (if \<not> HasPrefix k AnnotationPrefix \<or> v = [] then seen_refs m seen
      else seen_refs m (List.insert (ref_of_value v) seen))"

definition RefsFromAnnotations :: "strmap \<Rightarrow> env_ref list" where
  "RefsFromAnnotations annotations = sort (seen_refs annotations [])"

record setting =
  se_name :: string
  se_value :: string

definition Settings :: "setting list" where
  "Settings =
    [ \<lparr> se_name = ''_FLOX_TESTING_DISABLE_BG_SIDE_EFFECTS'', se_value = ''true'' \<rparr>,
      \<lparr> se_name = ''FLOX_DISABLE_METRICS'', se_value = ''true'' \<rparr>,
      \<lparr> se_name = ''FLOX_NO_TELEMETRY'', se_value = ''1'' \<rparr>,
      \<lparr> se_name = ''FLOX_NONINTERACTIVE'', se_value = ''1'' \<rparr> ]"

definition Environ :: "string list" where
  "Environ = map (\<lambda>s. se_name s @ ''='' @ se_value s) Settings"

definition NixConfig :: string where
  "NixConfig = Join
    [ ''experimental-features = nix-command flakes'',
      ''accept-flake-config = true'',
      ''build-users-group ='',
      ''sandbox = false'',
      ''min-free = 5368709120'',
      ''max-free = 10737418240'' ] [CHR 0x0A]"

subsection \<open>The refs of an annotation map\<close>

definition env_annotations :: "strmap \<Rightarrow> (string \<times> string) set" where
  "env_annotations m = {(k, v). (k, v) \<in> set m \<and> HasPrefix k AnnotationPrefix \<and> v \<noteq> []}"

lemma env_annotations_simps [simp]:
  "env_annotations [] = {}"
  "env_annotations ((k, v) # m) =
     (if HasPrefix k AnnotationPrefix \<and> v \<noteq> [] then insert (k, v) (env_annotations m)
      else env_annotations m)"
  by (auto simp: env_annotations_def)

lemma set_seen_refs: "set (seen_refs m seen) = set seen \<union> (ref_of_value \<circ> snd) ` env_annotations m"
  by (induction m seen rule: seen_refs.induct) auto

lemma distinct_seen_refs: "distinct seen \<Longrightarrow> distinct (seen_refs m seen)"
  by (induction m seen rule: seen_refs.induct) auto

lemma set_RefsFromAnnotations [simp]:
  "set (RefsFromAnnotations m) = (ref_of_value \<circ> snd) ` env_annotations m"
  by (simp add: RefsFromAnnotations_def set_seen_refs)

lemma RefsFromAnnotations_Nil_iff: "RefsFromAnnotations m = [] \<longleftrightarrow> env_annotations m = {}"
  by (metis set_RefsFromAnnotations image_is_empty set_empty)

lemma RefsFromAnnotations_cong: "set m = set m' \<Longrightarrow> RefsFromAnnotations m = RefsFromAnnotations m'"
  unfolding RefsFromAnnotations_def
  by (rule sorted_distinct_set_unique)
    (simp_all add: distinct_seen_refs set_seen_refs env_annotations_def)

lemma ref_of_value_slash:
  "CHR ''/'' \<notin> set n \<Longrightarrow> ref_of_value (f @ CHR ''/'' # n) = EnvRef f n"
  by (simp add: ref_of_value_def LastIndexByte_append)

lemma ref_of_value_bare: "CHR ''/'' \<notin> set n \<Longrightarrow> ref_of_value n = EnvRef DefaultCategory n"
  by (simp add: ref_of_value_def)

lemma ref_name_no_slash: "CHR ''/'' \<notin> set (ref_name (ref_of_value v))"
  by (auto simp: ref_of_value_def split: option.splits dest: LastIndexByte_Some)

text \<open>
  The refs of an annotation map are the sorted list, without duplicates, of the refs its
  environment annotations with a non-empty value name; neither the order in which the map is
  ranged over nor repeated values nor unrelated annotations matter.
\<close>

theorem refs_of_annotations:
  "RefsFromAnnotations m = sorted_list_of_set (ref_of_value ` {v. v \<noteq> [] \<and> (\<exists>c. (AnnotationPrefix @ c, v) \<in> set m)})"
proof -
  have "set (RefsFromAnnotations m) = ref_of_value ` {v. v \<noteq> [] \<and> (\<exists>c. (AnnotationPrefix @ c, v) \<in> set m)}"
    unfolding set_RefsFromAnnotations env_annotations_def by (force simp: HasPrefix_iff)
  moreover have "sorted (RefsFromAnnotations m)" "distinct (RefsFromAnnotations m)"
    by (simp_all add: RefsFromAnnotations_def distinct_seen_refs)
  ultimately show ?thesis using sorted_list_of_set.idem_if_sorted_distinct by metis
qed

definition show_ref :: "env_ref \<Rightarrow> string" where
  "show_ref r = ref_folder r @ ''/'' @ ref_name r"

text \<open>
  C40: A value spells a ref and back. \<open><folder>/<name>\<close> reads as that folder and that name whatever
  slashes the folder has, since a name has none; a value without a slash is a name in the default
  folder; and every value is read as some ref whose name has no slash and which spells it back.
\<close>

theorem ref_roundtrip:
  "ref_of_value v = EnvRef f n \<longleftrightarrow>
     CHR ''/'' \<notin> set n \<and> (v = show_ref (EnvRef f n) \<or> (f = ''networking'' \<and> v = n))"
proof (cases "LastIndexByte v (CHR ''/'')")
  case None
  then show ?thesis by (auto simp: ref_of_value_def show_ref_def DefaultCategory_def)
next
  case (Some i)
  then have v: "v = take i v @ CHR ''/'' # drop (Suc i) v" "CHR ''/'' \<notin> set (drop (Suc i) v)"
    by (auto dest: LastIndexByte_Some)
  have in_v: "CHR ''/'' \<in> set v" by (subst v(1)) simp
  have r: "ref_of_value v = EnvRef (take i v) (drop (Suc i) v)" by (simp add: ref_of_value_def Some)
  show ?thesis
  proof
    assume "ref_of_value v = EnvRef f n"
    then have "f = take i v" "n = drop (Suc i) v" using r by simp_all
    then show "CHR ''/'' \<notin> set n \<and> (v = show_ref (EnvRef f n) \<or> (f = ''networking'' \<and> v = n))"
      using v(2) v(1) [symmetric] by (simp add: show_ref_def)
  next
    assume "CHR ''/'' \<notin> set n \<and> (v = show_ref (EnvRef f n) \<or> (f = ''networking'' \<and> v = n))"
    then show "ref_of_value v = EnvRef f n"
      using in_v ref_of_value_slash [of n f] by (auto simp: show_ref_def)
  qed
qed

end
