(* ===== verification/Provisioner.thy ===== *)
theory Provisioner
  imports Floxenv
begin

text \<open>
  \<open>internal/provisioner/provisioner.go\<close>: what the reconciler asks of the node and what it gets
  back. \<open>provisioner.EnvRef\<close> has the two fields of \<open>floxenv.EnvRef\<close> and shares its type here.
\<close>

record realize_request =
  rr_ref :: env_ref
  rr_manifest_toml :: string
  rr_lock :: string
  rr_consumption :: string

record realize_result =
  rs_store_path :: string
  rs_env_path :: string
  rs_gcroot_path :: string
  rs_lock :: string

end
