(* ===== verification/Kube.thy ===== *)
theory Kube
  imports Api Provisioner "HOL-Library.State_Monad" "HOL-Library.Word"
begin

text \<open>
  The world around the controllers. The API server, the node and the resolver are not code of
  this repository: a record \<open>'w client\<close> holds one function per request the controllers send, over
  an arbitrary state \<open>'w\<close> of everything outside the process (other controllers included, which
  may act during any call). Each call is recorded with its answer as an \<open>event\<close> of the trace, so
  that a theorem over traces holds for every behaviour of the outside.

  \<open>emits m Q\<close> says that a program \<open>m\<close>, whatever the world answers, returns a result and appends
  events that satisfy \<open>Q\<close>; its rules walk through a program statement by statement.
\<close>

subsection \<open>Decoded JSON\<close>

text \<open>What \<open>encoding/json\<close> decodes into \<open>any\<close>; a number is a float64, kept as its 64 bits.\<close>

datatype json =
    JNull
  | JBool bool
  | JNumber "64 word"
  | JString string
  | JArray "json list"
  | JObject "(string \<times> json) list"

type_synonym jobject = "(string \<times> json) list"

subsection \<open>Requests and events\<close>

datatype event =
    GetFloxEnv objkey "go_error + floxenv"
  | GetFloxCatalog objkey "go_error + floxcatalog"
  | GetSource objkey "go_error + jobject"
  | GetPod objkey "go_error + pod"
  | ListFloxEnvs "string option" "go_error + floxenv list"
  | ListFloxCatalogs "string option" "go_error + floxcatalog list"
  | ListPods "go_error + pod list"
  | ListWorkloads workload_kind "go_error + workload list"
  | PatchFloxEnvStatus floxenv floxenv "go_error + floxenv"
  | PatchFloxEnv floxenv floxenv "go_error option"
  | UpdateFloxEnv floxenv "go_error option"
  | CreateFloxEnv floxenv "go_error option"
  | PatchFloxCatalogStatus floxcatalog floxcatalog "go_error + floxcatalog"
  | PatchWorkload workload workload "go_error option"
  | UpdatePod pod "go_error option"
  | CreateClaim volume_claim "go_error option"
  | LookupHost string "go_error + string list"
  | AcquireSlot "go_error option"
  | ReleaseSlot
  | Realize int realize_request "go_error + realize_result"

record 'w client =
  cl_get_env :: "objkey \<Rightarrow> 'w \<Rightarrow> (go_error + floxenv) \<times> 'w"
  cl_get_catalog :: "objkey \<Rightarrow> 'w \<Rightarrow> (go_error + floxcatalog) \<times> 'w"
  cl_get_source :: "objkey \<Rightarrow> 'w \<Rightarrow> (go_error + jobject) \<times> 'w"
  cl_get_pod :: "objkey \<Rightarrow> 'w \<Rightarrow> (go_error + pod) \<times> 'w"
  cl_list_envs :: "string option \<Rightarrow> 'w \<Rightarrow> (go_error + floxenv list) \<times> 'w"
  cl_list_catalogs :: "string option \<Rightarrow> 'w \<Rightarrow> (go_error + floxcatalog list) \<times> 'w"
  cl_list_pods :: "'w \<Rightarrow> (go_error + pod list) \<times> 'w"
  cl_list_workloads :: "workload_kind \<Rightarrow> 'w \<Rightarrow> (go_error + workload list) \<times> 'w"
  cl_patch_env_status :: "floxenv \<Rightarrow> floxenv \<Rightarrow> 'w \<Rightarrow> (go_error + floxenv) \<times> 'w"
  cl_patch_env :: "floxenv \<Rightarrow> floxenv \<Rightarrow> 'w \<Rightarrow> go_error option \<times> 'w"
  cl_update_env :: "floxenv \<Rightarrow> 'w \<Rightarrow> go_error option \<times> 'w"
  cl_create_env :: "floxenv \<Rightarrow> 'w \<Rightarrow> go_error option \<times> 'w"
  cl_patch_catalog_status :: "floxcatalog \<Rightarrow> floxcatalog \<Rightarrow> 'w \<Rightarrow> (go_error + floxcatalog) \<times> 'w"
  cl_patch_workload :: "workload \<Rightarrow> workload \<Rightarrow> 'w \<Rightarrow> go_error option \<times> 'w"
  cl_update_pod :: "pod \<Rightarrow> 'w \<Rightarrow> go_error option \<times> 'w"
  cl_create_claim :: "volume_claim \<Rightarrow> 'w \<Rightarrow> go_error option \<times> 'w"
  cl_lookup_host :: "string \<Rightarrow> 'w \<Rightarrow> (go_error + string list) \<times> 'w"

record 'w st =
  world :: 'w
  trace :: "event list"

definition start :: "'w \<Rightarrow> 'w st" where
  "start w = \<lparr> world = w, trace = [] \<rparr>"

definition perform :: "('w \<Rightarrow> 'a \<times> 'w) \<Rightarrow> ('a \<Rightarrow> event) \<Rightarrow> ('w st, 'a) state" where
  "perform f ev = State (\<lambda>s. case f (world s) of
     (r, w) \<Rightarrow> (r, s\<lparr> world := w, trace := trace s @ [ev r] \<rparr>))"

lemma run_perform [simp]:
  "run_state (perform f ev) s =
     (case f (world s) of (r, w) \<Rightarrow> (r, s\<lparr> world := w, trace := trace s @ [ev r] \<rparr>))"
  by (simp add: perform_def)

definition skip :: "('w st, unit) state" where
  "skip = State_Monad.return ()"

definition get_env where "get_env C k = perform (cl_get_env C k) (GetFloxEnv k)"
definition get_catalog where "get_catalog C k = perform (cl_get_catalog C k) (GetFloxCatalog k)"
definition get_source where "get_source C k = perform (cl_get_source C k) (GetSource k)"
definition get_pod where "get_pod C k = perform (cl_get_pod C k) (GetPod k)"
definition list_envs where "list_envs C ns = perform (cl_list_envs C ns) (ListFloxEnvs ns)"
definition list_catalogs where
  "list_catalogs C ns = perform (cl_list_catalogs C ns) (ListFloxCatalogs ns)"
definition list_pods where "list_pods C = perform (cl_list_pods C) ListPods"
definition list_workloads where
  "list_workloads C kd = perform (cl_list_workloads C kd) (ListWorkloads kd)"
definition patch_env_status where
  "patch_env_status C base env = perform (cl_patch_env_status C base env) (PatchFloxEnvStatus base env)"
definition patch_env where "patch_env C base env = perform (cl_patch_env C base env) (PatchFloxEnv base env)"
definition update_env where "update_env C env = perform (cl_update_env C env) (UpdateFloxEnv env)"
definition create_env where "create_env C env = perform (cl_create_env C env) (CreateFloxEnv env)"
definition patch_catalog_status where
  "patch_catalog_status C base fc =
     perform (cl_patch_catalog_status C base fc) (PatchFloxCatalogStatus base fc)"
definition patch_workload where
  "patch_workload C base wl = perform (cl_patch_workload C base wl) (PatchWorkload base wl)"
definition update_pod where "update_pod C p = perform (cl_update_pod C p) (UpdatePod p)"
definition create_claim where "create_claim C v = perform (cl_create_claim C v) (CreateClaim v)"
definition lookup_host where "lookup_host C h = perform (cl_lookup_host C h) (LookupHost h)"

lemmas request_defs [go_defs] =
  get_env_def get_catalog_def get_source_def get_pod_def list_envs_def list_catalogs_def
  list_pods_def list_workloads_def patch_env_status_def patch_env_def update_env_def
  create_env_def patch_catalog_status_def patch_workload_def update_pod_def create_claim_def
  lookup_host_def

text \<open>\<open>ctrl.Result\<close> with the error a reconcile returns; durations in nanoseconds as in Go.\<close>

record ctrl_result =
  requeue :: bool
  requeue_after :: int

type_synonym outcome = "ctrl_result \<times> go_error option"

definition done_result :: ctrl_result where
  "done_result = \<lparr> requeue = False, requeue_after = 0 \<rparr>"

definition second :: int where "second = 1000000000"
definition minute :: int where "minute = 60 * second"

subsection \<open>Merge patches\<close>

text \<open>
  What the server stores on a status patch made with \<open>client.MergeFrom\<close>, a JSON merge patch: the
  fields in which the new object differs from the base replace the server's, a list as a whole.
\<close>

definition merge_field :: "'a \<Rightarrow> 'a \<Rightarrow> 'a \<Rightarrow> 'a" where
  "merge_field base new server = (if base = new then server else new)"

definition merge_status :: "floxenv_status \<Rightarrow> floxenv_status \<Rightarrow> floxenv_status \<Rightarrow> floxenv_status" where
  "merge_status base new server =
    \<lparr> st_lock = merge_field (st_lock base) (st_lock new) (st_lock server),
      st_relock_token = merge_field (st_relock_token base) (st_relock_token new) (st_relock_token server),
      st_resolved = merge_field (st_resolved base) (st_resolved new) (st_resolved server),
      st_realized = merge_field (st_realized base) (st_realized new) (st_realized server),
      st_conditions = merge_field (st_conditions base) (st_conditions new) (st_conditions server) \<rparr>"

definition merge_env :: "floxenv \<Rightarrow> floxenv \<Rightarrow> floxenv \<Rightarrow> floxenv" where
  "merge_env base new server =
     server\<lparr> fe_status := merge_status (fe_status base) (fe_status new) (fe_status server) \<rparr>"

subsection \<open>The events a program emits\<close>

definition emits :: "('w st, 'a) state \<Rightarrow> ('a \<Rightarrow> event list \<Rightarrow> bool) \<Rightarrow> bool" where
  "emits m Q \<longleftrightarrow> (\<forall>s. \<exists>evs. trace (snd (run_state m s)) = trace s @ evs \<and> Q (fst (run_state m s)) evs)"

lemma emits_return [emits_intros]: "Q x [] \<Longrightarrow> emits (State_Monad.return x) Q"
  by (simp add: emits_def)

lemma emits_skip [emits_intros]: "Q () [] \<Longrightarrow> emits skip Q"
  by (simp add: emits_def skip_def)

lemma emits_perform [emits_intros]: "(\<And>r. Q r [ev r]) \<Longrightarrow> emits (perform f ev) Q"
  by (auto simp: emits_def split: prod.split)

lemma emits_bind:
  assumes "emits m P" and "\<And>x es. P x es \<Longrightarrow> emits (f x) (\<lambda>y es'. Q y (es @ es'))"
  shows "emits (State_Monad.bind m f) Q"
  unfolding emits_def
proof
  fix s
  obtain x s' where m: "run_state m s = (x, s')"
    by fastforce
  with assms(1) obtain es where es: "trace s' = trace s @ es" "P x es"
    unfolding emits_def by (metis fst_conv snd_conv)
  from assms(2) [OF es(2)] obtain es' where
    "trace (snd (run_state (f x) s')) = trace s' @ es'" "Q (fst (run_state (f x) s')) (es @ es')"
    unfolding emits_def by blast
  with m es show "\<exists>evs. trace (snd (run_state (State_Monad.bind m f) s)) = trace s @ evs \<and>
      Q (fst (run_state (State_Monad.bind m f) s)) evs"
    by (intro exI [of _ "es @ es'"]) simp
qed

lemma emits_bind_perform [emits_intros]:
  "(\<And>r. emits (f r) (\<lambda>y es. Q y (ev r # es))) \<Longrightarrow> emits (State_Monad.bind (perform g ev) f) Q"
  by (rule emits_bind [of _ "\<lambda>r es. es = [ev r]"]) (auto intro: emits_perform)

lemma emits_bind_assoc [emits_intros]:
  "emits (State_Monad.bind m (\<lambda>x. State_Monad.bind (f x) g)) Q \<Longrightarrow>
    emits (State_Monad.bind (State_Monad.bind m f) g) Q"
  by simp

lemma emits_bind_return [emits_intros]: "emits (f x) Q \<Longrightarrow> emits (State_Monad.bind (State_Monad.return x) f) Q"
  by simp

lemma emits_bind_skip [emits_intros]: "emits (f ()) Q \<Longrightarrow> emits (State_Monad.bind skip f) Q"
  by (simp add: skip_def)

lemma emits_if [emits_intros]:
  "(b \<Longrightarrow> emits m Q) \<Longrightarrow> (\<not> b \<Longrightarrow> emits n Q) \<Longrightarrow> emits (if b then m else n) Q"
  by simp

lemma emits_case_sum [emits_intros]:
  "(\<And>x. v = Inl x \<Longrightarrow> emits (f x) Q) \<Longrightarrow> (\<And>y. v = Inr y \<Longrightarrow> emits (g y) Q) \<Longrightarrow>
    emits (case v of Inl x \<Rightarrow> f x | Inr y \<Rightarrow> g y) Q"
  by (cases v) simp_all

lemma emits_case_option [emits_intros]:
  "(v = None \<Longrightarrow> emits m Q) \<Longrightarrow> (\<And>y. v = Some y \<Longrightarrow> emits (g y) Q) \<Longrightarrow>
    emits (case v of None \<Rightarrow> m | Some y \<Rightarrow> g y) Q"
  by (cases v) simp_all

lemma emits_case_prod [emits_intros]:
  "(\<And>x y. v = (x, y) \<Longrightarrow> emits (f x y) Q) \<Longrightarrow> emits (case v of (x, y) \<Rightarrow> f x y) Q"
  by (cases v) simp

lemma emits_mono: "emits m P \<Longrightarrow> (\<And>x es. P x es \<Longrightarrow> Q x es) \<Longrightarrow> emits m Q"
  unfolding emits_def by blast

lemma emits_conj: "emits m P \<Longrightarrow> emits m Q \<Longrightarrow> emits m (\<lambda>x es. P x es \<and> Q x es)"
  unfolding emits_def by (metis same_append_eq)

lemma emitsE:
  assumes "emits m Q"
  obtains evs where "trace (snd (run_state m s)) = trace s @ evs" "Q (fst (run_state m s)) evs"
  using assms unfolding emits_def by blast

text \<open>One run of a program, from a state of the outside and an empty trace.\<close>

definition outcome_of :: "('w st, 'a) state \<Rightarrow> 'w \<Rightarrow> 'a" where
  "outcome_of m w = fst (run_state m (start w))"

definition trace_of :: "('w st, 'a) state \<Rightarrow> 'w \<Rightarrow> event list" where
  "trace_of m w = trace (snd (run_state m (start w)))"

definition world_after :: "('w st, 'a) state \<Rightarrow> 'w \<Rightarrow> 'w" where
  "world_after m w = world (snd (run_state m (start w)))"

lemmas run_of_defs [go_defs] = outcome_of_def trace_of_def world_after_def start_def

lemma emits_run:
  assumes "emits m Q"
  shows "Q (outcome_of m w) (trace_of m w)"
  unfolding outcome_of_def trace_of_def
  by (rule emitsE [OF assms, of "start w"]) (simp add: start_def)

end
