(* ===== verification/Sha256.thy ===== *)
theory Sha256
  imports Prelude "HOL-Library.Word"
begin

unbundle bit_operations_syntax

text \<open>
  \<open>crypto/sha256\<close> and \<open>encoding/hex\<close> as far as \<open>lockDigest\<close> uses them: the digest of FIPS 180-4 over
  32-bit words that wrap around, and lower-case hexadecimal.
\<close>

text \<open>
  The constants are what the standard says they are: the first 32 bits of the fractional parts of
  the cube roots of the first 64 primes, and of the square roots of the first 8. \<open>floor_root k n\<close> is
  the greatest number below \<open>2 ^ 36\<close> whose \<open>k\<close>th power is at most \<open>n\<close>, found bit by bit.
\<close>

definition floor_root :: "nat \<Rightarrow> int \<Rightarrow> int" where
  "floor_root k n = foldr (\<lambda>b r. if (r + 2 ^ b) ^ k \<le> n then r + 2 ^ b else r) [0..<36] 0"

definition sha_primes :: "int list" where
  "sha_primes = [2, 3, 5, 7, 11, 13, 17, 19, 23, 29, 31, 37, 41, 43, 47, 53, 59, 61, 67, 71, 73, 79, 83, 89, 97,
     101, 103, 107, 109, 113, 127, 131, 137, 139, 149, 151, 157, 163, 167, 173, 179, 181, 191, 193, 197, 199,
     211, 223, 227, 229, 233, 239, 241, 251, 257, 263, 269, 271, 277, 281, 283, 293, 307, 311]"

definition sha_k :: "32 word list" where
  "sha_k = map (\<lambda>p. of_int (floor_root 3 (p * 2 ^ 96))) sha_primes"

datatype sha_state = Sha "32 word" "32 word" "32 word" "32 word" "32 word" "32 word" "32 word" "32 word"

definition sha_h :: "int \<Rightarrow> 32 word" where
  "sha_h p = of_int (floor_root 2 (p * 2 ^ 64))"

definition sha_init :: sha_state where
  "sha_init = Sha (sha_h 2) (sha_h 3) (sha_h 5) (sha_h 7) (sha_h 11) (sha_h 13) (sha_h 17) (sha_h 19)"

definition rotr :: "nat \<Rightarrow> 32 word \<Rightarrow> 32 word" where
  "rotr n x = drop_bit n x OR push_bit (32 - n) x"

fun sha_round :: "sha_state \<Rightarrow> 32 word \<times> 32 word \<Rightarrow> sha_state" where
  "sha_round (Sha a b c d e f g h) (k, w) =
     (let t1 = h + (rotr 6 e XOR rotr 11 e XOR rotr 25 e) + ((e AND f) XOR (NOT e AND g)) + k + w;
          t2 = (rotr 2 a XOR rotr 13 a XOR rotr 22 a) + ((a AND b) XOR (a AND c) XOR (b AND c))
      in Sha (t1 + t2) a b c (d + t1) e f g)"

text \<open>The message schedule: the last sixteen words, newest first, produce the next.\<close>

fun sha_schedule :: "nat \<Rightarrow> 32 word list \<Rightarrow> 32 word list" where
  "sha_schedule 0 ws = ws"
| "sha_schedule (Suc n) ws =
     (let w2 = ws ! 1; w7 = ws ! 6; w15 = ws ! 14; w16 = ws ! 15;
          s0 = rotr 7 w15 XOR rotr 18 w15 XOR drop_bit 3 w15;
          s1 = rotr 17 w2 XOR rotr 19 w2 XOR drop_bit 10 w2
      in sha_schedule n ((w16 + s0 + w7 + s1) # ws))"

fun sha_add :: "sha_state \<Rightarrow> sha_state \<Rightarrow> sha_state" where
  "sha_add (Sha a b c d e f g h) (Sha a' b' c' d' e' f' g' h') =
     Sha (a + a') (b + b') (c + c') (d + d') (e + e') (f + f') (g + g') (h + h')"

definition sha_block :: "sha_state \<Rightarrow> 32 word list \<Rightarrow> sha_state" where
  "sha_block st ws = sha_add st (foldl sha_round st (zip sha_k (rev (sha_schedule 48 (rev ws)))))"

definition be_word :: "char list \<Rightarrow> 32 word" where
  "be_word cs = foldl (\<lambda>w c. push_bit 8 w OR of_char c) 0 cs"

definition word_be :: "32 word \<Rightarrow> char list" where
  "word_be w = map (\<lambda>n. char_of (unat (drop_bit n w AND 255))) [24, 16, 8, 0]"

fun chunks :: "nat \<Rightarrow> nat \<Rightarrow> 'a list \<Rightarrow> 'a list list" where
  "chunks 0 n xs = []"
| "chunks (Suc k) n xs = take n xs # chunks k n (drop n xs)"

definition sha_pad :: "string \<Rightarrow> string" where
  "sha_pad s =
     (let n = length s; z = (119 - n mod 64) mod 64; bits = 8 * word_of_nat n :: 64 word
      in s @ [char_of (128 :: nat)] @ replicate z (char_of (0 :: nat)) @
         map (\<lambda>i. char_of (unat (drop_bit i bits AND 255))) [56, 48, 40, 32, 24, 16, 8, 0])"

fun sha_bytes :: "sha_state \<Rightarrow> string" where
  "sha_bytes (Sha a b c d e f g h) = concat (map word_be [a, b, c, d, e, f, g, h])"

definition Sum256 :: "string \<Rightarrow> string" where
  "Sum256 s =
     (let p = sha_pad s
      in sha_bytes (foldl (\<lambda>st block. sha_block st (map be_word (chunks 16 4 block)))
           sha_init (chunks (length p div 64) 64 p)))"

definition hex_digit :: "nat \<Rightarrow> char" where
  "hex_digit n = ''0123456789abcdef'' ! n"

definition hex_EncodeToString :: "string \<Rightarrow> string" where
  "hex_EncodeToString bs = concat (map (\<lambda>c. [hex_digit (of_char c div 16), hex_digit (of_char c mod 16)]) bs)"

lemma length_sha_bytes [simp]: "length (sha_bytes st) = 32"
  by (cases st) (simp add: word_be_def)

lemma length_Sum256 [simp]: "length (Sum256 s) = 32"
  by (simp add: Sum256_def Let_def)

lemma length_hex [simp]: "length (hex_EncodeToString bs) = 2 * length bs"
  by (induction bs) (simp_all add: hex_EncodeToString_def)

lemma hex_digit_set: "n < 16 \<Longrightarrow> hex_digit n \<in> set ''0123456789abcdef''"
  unfolding hex_digit_def by (rule nth_mem) simp

lemma hex_chars: "set (hex_EncodeToString bs) \<subseteq> set ''0123456789abcdef''"
proof -
  define digits where "digits = set ''0123456789abcdef''"
  have "hex_digit n \<in> digits" if "n < 16" for n
    unfolding digits_def using that by (rule hex_digit_set)
  moreover have "of_char c div 16 < (16 :: nat)" for c :: char
    using nat_of_char_less_256 [of c] by (simp add: div_less_iff_less_mult)
  ultimately show ?thesis
    unfolding digits_def [symmetric] by (induction bs) (simp_all add: hex_EncodeToString_def)
qed

end
