(* ===== verification/Restart.thy ===== *)
theory Restart
  imports Kube Sha256
begin

text \<open>
  \<open>internal/controller/floxenv_restart.go\<close>: after a realise whose lock changed, every workload
  whose pod template consumes the env gets the digest of the lock as a template annotation, which
  makes the cluster roll it.
\<close>

definition restartMarker :: string where
  "restartMarker = ''flox.seedmatic.io/restarted-for-lock''"

definition lockDigest :: "string \<Rightarrow> string" where
  "lockDigest lock = hex_EncodeToString (take 6 (Sum256 lock))"

definition stamped :: "string \<Rightarrow> workload \<Rightarrow> workload" where
  "stamped digest w =
     w\<lparr> wl_template_annotations := AList.update restartMarker digest (wl_template_annotations w) \<rparr>"

definition stampConsumer :: "'w client \<Rightarrow> workload \<Rightarrow> env_ref \<Rightarrow> string \<Rightarrow> ('w st, go_error option) state" where
  "stampConsumer C w target digest =
     (if target \<notin> set (RefsFromAnnotations (wl_template_annotations w)) then State_Monad.return None
      else if map_get (wl_template_annotations w) restartMarker = digest then State_Monad.return None
      else patch_workload C w (stamped digest w))"

fun stamp_each :: "'w client \<Rightarrow> env_ref \<Rightarrow> string \<Rightarrow> workload list \<Rightarrow> ('w st, go_error option list) state" where
  "stamp_each C target digest [] = State_Monad.return []"
| "stamp_each C target digest (w # ws) = do {
     err \<leftarrow> stampConsumer C w target digest;
     errs \<leftarrow> stamp_each C target digest ws;
     State_Monad.return (err # errs)
   }"

text \<open>The env's coordinate: \<open>spec.folder\<close>, defaulting to the namespace, and the name.\<close>

definition effectiveFolder :: "floxenv \<Rightarrow> string" where
  "effectiveFolder env =
     (if sp_folder (fe_spec env) \<noteq> [] then sp_folder (fe_spec env) else fe_namespace env)"

definition env_target :: "floxenv \<Rightarrow> env_ref" where
  "env_target env = EnvRef (effectiveFolder env) (fe_name env)"

definition restartConsumers :: "'w client \<Rightarrow> floxenv \<Rightarrow> string \<Rightarrow> ('w st, go_error option) state" where
  "restartConsumers C env lock = (
     let target = env_target env; digest = lockDigest lock
     in do {
       deployments \<leftarrow> list_workloads C Deployment;
       case deployments of Inl e \<Rightarrow> State_Monad.return (Some e) | Inr ds \<Rightarrow> do {
         daemonSets \<leftarrow> list_workloads C DaemonSet;
         case daemonSets of Inl e \<Rightarrow> State_Monad.return (Some e) | Inr dss \<Rightarrow> do {
           statefulSets \<leftarrow> list_workloads C StatefulSet;
           case statefulSets of Inl e \<Rightarrow> State_Monad.return (Some e) | Inr sss \<Rightarrow> do {
             errs1 \<leftarrow> stamp_each C target digest ds;
             errs2 \<leftarrow> stamp_each C target digest dss;
             errs3 \<leftarrow> stamp_each C target digest sss;
             State_Monad.return (errors_Join (errs1 @ errs2 @ errs3))
           }
         }
       }
     })"

subsection \<open>What a roll patches\<close>

text \<open>A workload the roll has to patch: it consumes the env and does not carry the digest yet.\<close>

definition needs_roll :: "env_ref \<Rightarrow> string \<Rightarrow> workload \<Rightarrow> bool" where
  "needs_roll target digest w \<longleftrightarrow>
     target \<in> set (RefsFromAnnotations (wl_template_annotations w)) \<and>
     map_get (wl_template_annotations w) restartMarker \<noteq> digest"

lemma restartMarker_not_env: "\<not> HasPrefix restartMarker AnnotationPrefix"
  by (simp add: restartMarker_def AnnotationPrefix_def HasPrefix_def)

lemma env_annotations_update:
  "\<not> HasPrefix k AnnotationPrefix \<Longrightarrow> env_annotations (AList.update k v m) = env_annotations m"
proof (induction m)
  case (Cons p m)
  then show ?case by (cases p) simp
qed simp

lemma refs_stamped: "RefsFromAnnotations (wl_template_annotations (stamped digest w)) =
    RefsFromAnnotations (wl_template_annotations w)"
  unfolding RefsFromAnnotations_def stamped_def
  by (rule sorted_distinct_set_unique)
    (simp_all add: distinct_seen_refs set_seen_refs env_annotations_update restartMarker_not_env)

lemma stamped_settled: "\<not> needs_roll target digest (stamped digest w)"
  by (simp add: needs_roll_def stamped_def)

lemma stampConsumer_emits:
  "emits (stampConsumer C w target digest) (\<lambda>r evs.
     if needs_roll target digest w then evs = [PatchWorkload w (stamped digest w) r]
     else r = None \<and> evs = [])"
  unfolding stampConsumer_def needs_roll_def patch_workload_def
  by (intro emits_intros) (simp_all del: set_RefsFromAnnotations)

text \<open>Every workload in turn, failures included: one patch per workload that needs the roll.\<close>

lemma stamp_each_emits:
  "emits (stamp_each C target digest ws) (\<lambda>errs evs.
     length errs = length ws \<and>
     evs = map (\<lambda>(w, r). PatchWorkload w (stamped digest w) r)
       (filter (\<lambda>(w, r). needs_roll target digest w) (zip ws errs)) \<and>
     (\<forall>(w, r) \<in> set (zip ws errs). \<not> needs_roll target digest w \<longrightarrow> r = None))"
proof (induction ws)
  case Nil
  show ?case unfolding stamp_each.simps by (intro emits_intros) simp
next
  case (Cons w ws)
  show ?case
    unfolding stamp_each.simps
    by (rule emits_bind [OF stampConsumer_emits], rule emits_bind [OF Cons.IH])
      (intro emits_intros, auto split: if_splits)
qed

text \<open>The requests a roll may send, and what a roll that answers no error has done.\<close>

definition roll_events :: "env_ref \<Rightarrow> string \<Rightarrow> event list \<Rightarrow> bool" where
  "roll_events target digest evs \<longleftrightarrow> (\<forall>ev \<in> set evs.
     (\<exists>kd r. ev = ListWorkloads kd r) \<or>
     (\<exists>w r. ev = PatchWorkload w (stamped digest w) r \<and> needs_roll target digest w))"

definition rolled_in :: "env_ref \<Rightarrow> string \<Rightarrow> workload list \<Rightarrow> event list \<Rightarrow> bool" where
  "rolled_in target digest ws evs \<longleftrightarrow>
     (\<forall>w \<in> set ws. needs_roll target digest w \<longrightarrow> PatchWorkload w (stamped digest w) None \<in> set evs)"

definition all_rolled :: "env_ref \<Rightarrow> string \<Rightarrow> event list \<Rightarrow> bool" where
  "all_rolled target digest evs \<longleftrightarrow>
     (\<forall>kd. \<exists>ws. ListWorkloads kd (Inr ws) \<in> set evs \<and> rolled_in target digest ws evs)"

lemma roll_events_simps [simp]:
  "roll_events target digest []"
  "roll_events target digest (ListWorkloads kd r # evs) \<longleftrightarrow> roll_events target digest evs"
  "roll_events target digest (es @ es') \<longleftrightarrow> roll_events target digest es \<and> roll_events target digest es'"
  by (auto simp: roll_events_def)

lemma rolled_in_mono: "rolled_in target digest ws evs \<Longrightarrow> set evs \<subseteq> set evs' \<Longrightarrow> rolled_in target digest ws evs'"
  by (auto simp: rolled_in_def)

lemma all_rolled_kinds:
  "all_rolled target digest evs \<longleftrightarrow>
     (\<forall>kd \<in> {Deployment, DaemonSet, StatefulSet}. \<exists>ws. ListWorkloads kd (Inr ws) \<in> set evs \<and>
        rolled_in target digest ws evs)"
  unfolding all_rolled_def by (auto intro: workload_kind.induct)

lemma all_rolledI:
  assumes "rolled_in target digest ds es1" "rolled_in target digest dss es2"
    "rolled_in target digest sss es3"
  shows "all_rolled target digest (ListWorkloads Deployment (Inr ds) #
    ListWorkloads DaemonSet (Inr dss) # ListWorkloads StatefulSet (Inr sss) # es1 @ es2 @ es3)"
    (is "all_rolled _ _ ?evs")
proof -
  have "rolled_in target digest ds ?evs" "rolled_in target digest dss ?evs" "rolled_in target digest sss ?evs"
    using assms by (auto intro: rolled_in_mono)
  then show ?thesis unfolding all_rolled_kinds by auto
qed

lemma stamp_each_rolls:
  "emits (stamp_each C target digest ws) (\<lambda>errs evs. roll_events target digest evs \<and>
     ((\<forall>r \<in> set errs. r = None) \<longrightarrow> rolled_in target digest ws evs))"
proof (rule emits_mono [OF stamp_each_emits], elim conjE)
  fix errs evs
  assume len: "length errs = length ws"
    and evs: "evs = map (\<lambda>(w, r). PatchWorkload w (stamped digest w) r)
       (filter (\<lambda>(w, r). needs_roll target digest w) (zip ws errs))"
  have "PatchWorkload w (stamped digest w) None \<in> set evs"
    if none: "\<forall>r \<in> set errs. r = None" and w: "w \<in> set ws" "needs_roll target digest w" for w
  proof -
    obtain r where "(w, r) \<in> set (zip ws errs)"
      using len w(1) by (metis in_set_impl_in_set_zip1)
    moreover from this have "r = None" using none by (auto dest: set_zip_rightD)
    ultimately show ?thesis using w(2) by (force simp: evs)
  qed
  then show "roll_events target digest evs \<and>
      ((\<forall>r \<in> set errs. r = None) \<longrightarrow> rolled_in target digest ws evs)"
    by (auto simp: roll_events_def rolled_in_def evs)
qed

lemma restartConsumers_emits:
  "emits (restartConsumers C env lock) (\<lambda>rolled evs.
     roll_events (env_target env) (lockDigest lock) evs \<and>
     (rolled = None \<longrightarrow> all_rolled (env_target env) (lockDigest lock) evs))"
  unfolding restartConsumers_def list_workloads_def Let_def
  by (intro emits_intros emits_bind [OF stamp_each_rolls]) (auto intro: all_rolledI)

end
