(* ===== verification/Manifest.thy ===== *)
theory Manifest
  imports Kube
begin

text \<open>
  The manifest half of \<open>internal/controller/floxenv_controller.go\<close>: decoding \<open>spec.manifest\<close>, the
  \<open>floxcatalog:\<close> install references and their resolution through the FloxCatalogs, and the TOML
  the provisioner gets. The decoded manifest is a Go map shared by reference: resolution rewrites
  install entries in place, which the model returns as the new manifest, also on the early
  returns. The list order of the install table is the order of its \<open>range\<close> loop.
\<close>

definition floxSchemaVersion :: string where "floxSchemaVersion = ''1.14.0''"
definition floxCatalogScheme :: string where "floxCatalogScheme = ''floxcatalog:''"

text \<open>Library functions: the condition list, JSON decoding, TOML encoding and \<open>%q\<close>.\<close>

record libs =
  lib_meta :: meta_api
  json_Unmarshal :: "string \<Rightarrow> go_error + jobject"
  toml_Marshal :: "jobject \<Rightarrow> go_error + string"
  strconv_Quote :: "string \<Rightarrow> string"

definition parseManifest :: "libs \<Rightarrow> string option \<Rightarrow> go_error + jobject" where
  "parseManifest L raw =
     (case raw of
        None \<Rightarrow> Inr []
      | Some bytes \<Rightarrow>
          if bytes = [] then Inr []
          else case json_Unmarshal L bytes of
            Inl e \<Rightarrow> Inl (WrapErr ''unmarshal spec.manifest'' e)
          | Inr m \<Rightarrow> Inr m)"

definition manifestToTOML :: "libs \<Rightarrow> jobject \<Rightarrow> go_error + string" where
  "manifestToTOML L m =
     (if m = [] then Inr []
      else
        let m' = (case map_of m ''schema-version'' of
              None \<Rightarrow> AList.update ''schema-version'' (JString floxSchemaVersion) m
            | Some _ \<Rightarrow> m)
        in case toml_Marshal L m' of
             Inl e \<Rightarrow> Inl (WrapErr ''marshal manifest.toml'' e)
           | Inr out \<Rightarrow> Inr out)"

subsection \<open>Catalog references\<close>

record catalog_ref =
  cr_namespace :: string
  cr_name :: string
  cr_output :: string

definition parseFloxCatalogRef :: "libs \<Rightarrow> string \<Rightarrow> go_error + catalog_ref" where
  "parseFloxCatalogRef L s =
     (let body = TrimPrefix s floxCatalogScheme;
          (output, body) = (case IndexByte body (CHR ''#'') of
             Some i \<Rightarrow> (drop (i + 1) body, take i body)
           | None \<Rightarrow> ([], body));
          (ns, name) = (case IndexByte body (CHR ''/'') of
             Some i \<Rightarrow> (take i body, drop (i + 1) body)
           | None \<Rightarrow> ([], body))
      in if name = []
         then Inl (OtherErr (''invalid ref '' @ strconv_Quote L s @
                '' (want floxcatalog:[<ns>/]<name>#<output>)''))
         else Inr \<lparr> cr_namespace = ns, cr_name = name, cr_output = output \<rparr>)"

text \<open>An install entry with a \<open>floxcatalog:\<close> string under \<open>flake\<close>; anything else is skipped.\<close>

definition catalog_entry :: "json \<Rightarrow> (jobject \<times> string) option" where
  "catalog_entry v =
     (case v of
        JObject entry \<Rightarrow>
          (case map_of entry ''flake'' of
             Some (JString raw) \<Rightarrow> if HasPrefix raw floxCatalogScheme then Some (entry, raw) else None
           | _ \<Rightarrow> None)
      | _ \<Rightarrow> None)"

definition concrete_ref :: "string \<Rightarrow> string \<Rightarrow> string" where
  "concrete_ref flakeRef output = (if output \<noteq> [] then flakeRef @ ''#'' @ output else flakeRef)"

fun resolve_installs ::
  "libs \<Rightarrow> 'w client \<Rightarrow> string \<Rightarrow> jobject \<Rightarrow> ('w st, (go_error + bool) \<times> jobject) state" where
  "resolve_installs L C envNS [] = State_Monad.return (Inr False, [])"
| "resolve_installs L C envNS ((iid, v) # rest) =
     (case catalog_entry v of
        None \<Rightarrow> do {
          x \<leftarrow> resolve_installs L C envNS rest;
          State_Monad.return (fst x, (iid, v) # snd x)
        }
      | Some (entry, raw) \<Rightarrow>
          (case parseFloxCatalogRef L raw of
             Inl e \<Rightarrow> State_Monad.return (Inl (WrapErr (''install.'' @ iid @ ''.flake'') e), (iid, v) # rest)
           | Inr ref \<Rightarrow>
               let ns = (if cr_namespace ref = [] then envNS else cr_namespace ref)
               in do {
                 got \<leftarrow> get_catalog C (ObjKey ns (cr_name ref));
                 case got of
                   Inl e \<Rightarrow> State_Monad.return
                     (Inl (if IsNotFound e
                           then OtherErr (''install.'' @ iid @ '': FloxCatalog '' @ ns @ ''/'' @ cr_name ref @ '' not found'')
                           else e), (iid, v) # rest)
                 | Inr flake \<Rightarrow>
                     if ct_flake_ref (fc_status flake) = []
                     then State_Monad.return (Inr True, (iid, v) # rest)
                     else do {
                       x \<leftarrow> resolve_installs L C envNS rest;
                       State_Monad.return (fst x,
                         (iid, JObject (AList.update ''flake''
                            (JString (concrete_ref (ct_flake_ref (fc_status flake)) (cr_output ref))) entry)) # snd x)
                     }
               }))"

definition resolveFlakeInstalls ::
  "libs \<Rightarrow> 'w client \<Rightarrow> string \<Rightarrow> jobject \<Rightarrow> ('w st, (go_error + bool) \<times> jobject) state" where
  "resolveFlakeInstalls L C envNS m =
     (case map_of m ''install'' of
        Some (JObject install) \<Rightarrow> do {
          x \<leftarrow> resolve_installs L C envNS install;
          State_Monad.return (fst x, AList.update ''install'' (JObject (snd x)) m)
        }
      | _ \<Rightarrow> State_Monad.return (Inr False, m))"

end
