(* ===== verification/FloxEnvController.thy ===== *)
theory FloxEnvController
  imports Restart Manifest
begin

text \<open>
  \<open>internal/controller/floxenv_controller.go\<close>: the node agent's reconcile of one FloxEnv. The
  reconciler record is the Go struct: the API client, this node's name, the provisioner (the
  interface of \<open>provisioner.go\<close>, called with a timeout), the realise timeout and the slot count,
  and the two channel operations of a realise slot (\<open>er_wait_slot\<close> is the \<open>select\<close> of a send with
  \<open>ctx.Done()\<close>). Patching an object updates the local copy with the server's answer.
\<close>

subsection \<open>Constants and parameters\<close>

definition maxConcurrentReconciles :: nat where "maxConcurrentReconciles = 100"
definition relockAnnotation :: string where "relockAnnotation = ''flox.seedmatic.io/relock''"
definition defaultRealizeTimeout :: int where "defaultRealizeTimeout = 30 * minute"
definition defaultRealizeSlots :: int where "defaultRealizeSlots = 2"

record 'w env_reconciler =
  er_client :: "'w client"
  er_node_name :: string
  er_provisioner :: "int \<Rightarrow> realize_request \<Rightarrow> 'w \<Rightarrow> (go_error + realize_result) \<times> 'w"
  er_realize_timeout :: int
  er_realize_slots :: int
  er_wait_slot :: "'w \<Rightarrow> go_error option \<times> 'w"
  er_free_slot :: "'w \<Rightarrow> unit \<times> 'w"

definition slot_capacity :: "'w env_reconciler \<Rightarrow> int" where
  "slot_capacity R = (if er_realize_slots R \<le> 0 then defaultRealizeSlots else er_realize_slots R)"

definition realize_timeout :: "'w env_reconciler \<Rightarrow> int" where
  "realize_timeout R =
     (if er_realize_timeout R \<le> 0 then defaultRealizeTimeout else er_realize_timeout R)"

definition wait_slot where "wait_slot R = perform (er_wait_slot R) AcquireSlot"
definition free_slot where "free_slot R = perform (er_free_slot R) (\<lambda>_. ReleaseSlot)"
definition realize where "realize R t q = perform (er_provisioner R t q) (Realize t q)"

lemmas slot_defs [go_defs] = wait_slot_def free_slot_def realize_def

subsection \<open>Status writes\<close>

definition with_ready :: "libs \<Rightarrow> floxenv \<Rightarrow> condition_status \<Rightarrow> string \<Rightarrow> string \<Rightarrow> floxenv" where
  "with_ready L env status reason msg =
     env\<lparr> fe_status := (fe_status env)\<lparr> st_conditions :=
       SetStatusCondition (lib_meta L) (fe_conditions env)
         \<lparr> c_type = ''Ready'', c_status = status, c_reason = reason, c_message = msg,
           c_observed = fe_generation env \<rparr> \<rparr> \<rparr>"

definition fail :: "libs \<Rightarrow> 'w env_reconciler \<Rightarrow> floxenv \<Rightarrow> string \<Rightarrow> go_error \<Rightarrow> ('w st, outcome) state" where
  "fail L R env reason cause = do {
     _ \<leftarrow> patch_env_status (er_client R) env (with_ready L env ConditionFalse reason (error_string cause));
     State_Monad.return (done_result, Some cause)
   }"

definition waitForFlake :: "libs \<Rightarrow> 'w env_reconciler \<Rightarrow> floxenv \<Rightarrow> ('w st, outcome) state" where
  "waitForFlake L R env = do {
     _ \<leftarrow> patch_env_status (er_client R) env
       (with_ready L env ConditionFalse ''WaitingForFlake''
         ''referenced FloxCatalog has not resolved an artifact yet'');
     State_Monad.return (done_result\<lparr> requeue_after := 15 * second \<rparr>, None)
   }"

definition markPending :: "libs \<Rightarrow> 'w env_reconciler \<Rightarrow> floxenv \<Rightarrow> ('w st, outcome) state" where
  "markPending L R env = do {
     r \<leftarrow> patch_env_status (er_client R) env
       (with_ready L env ConditionFalse ''Pending'' ''queued for realisation'');
     case r of
       Inl e \<Rightarrow> State_Monad.return (done_result, Some e)
     | Inr _ \<Rightarrow> State_Monad.return (done_result\<lparr> requeue := True \<rparr>, None)
   }"

definition markRealizing :: "libs \<Rightarrow> 'w env_reconciler \<Rightarrow> floxenv \<Rightarrow> ('w st, floxenv) state" where
  "markRealizing L R env = (
     let marked = with_ready L env ConditionFalse ''Realizing''
       (''realising the env closure on '' @ er_node_name R)
     in do {
       r \<leftarrow> patch_env_status (er_client R) env marked;
       State_Monad.return (case r of Inl _ \<Rightarrow> marked | Inr answered \<Rightarrow> answered)
     })"

definition waitForDeps :: "libs \<Rightarrow> 'w env_reconciler \<Rightarrow> floxenv \<Rightarrow> string list \<Rightarrow> ('w st, outcome) state" where
  "waitForDeps L R env unmet = do {
     _ \<leftarrow> patch_env_status (er_client R) env
       (with_ready L env ConditionFalse ''WaitingForDeps''
         (''waiting for FloxEnvs to be Ready: '' @ Join unmet '', ''));
     State_Monad.return (done_result\<lparr> requeue_after := 10 * second \<rparr>, None)
   }"

definition alreadyRealized :: "'w env_reconciler \<Rightarrow> floxenv \<Rightarrow> bool" where
  "alreadyRealized R env =
     (if map_get (fe_annotations env) relockAnnotation \<noteq> st_relock_token (fe_status env) then False
      else list_ex (\<lambda>nr. nr_node nr = er_node_name R \<and> nr_ready nr \<and> nr_observed nr = fe_generation env)
             (st_realized (fe_status env)))"

fun upsert_list :: "node_realization \<Rightarrow> node_realization list \<Rightarrow> node_realization list" where
  "upsert_list nr [] = [nr]"
| "upsert_list nr (x # xs) = (if nr_node x = nr_node nr then nr # xs else x # upsert_list nr xs)"

definition upsertRealization :: "floxenv_status \<Rightarrow> node_realization \<Rightarrow> floxenv_status" where
  "upsertRealization st nr = st\<lparr> st_realized := upsert_list nr (st_realized st) \<rparr>"

subsection \<open>Dependencies\<close>

definition dep_ready :: "libs \<Rightarrow> go_error + floxenv \<Rightarrow> bool" where
  "dep_ready L r = (case r of Inl _ \<Rightarrow> False
     | Inr dep \<Rightarrow> IsStatusConditionTrue (lib_meta L) (fe_conditions dep) ''Ready'')"

fun unmet_among :: "libs \<Rightarrow> 'w env_reconciler \<Rightarrow> string \<Rightarrow> string list \<Rightarrow> ('w st, string list) state" where
  "unmet_among L R ns [] = State_Monad.return []"
| "unmet_among L R ns (name # names) = do {
     r \<leftarrow> get_env (er_client R) (ObjKey ns name);
     rest \<leftarrow> unmet_among L R ns names;
     State_Monad.return (if dep_ready L r then rest else name # rest)
   }"

definition unmetDeps :: "libs \<Rightarrow> 'w env_reconciler \<Rightarrow> floxenv \<Rightarrow> ('w st, string list) state" where
  "unmetDeps L R env = unmet_among L R (fe_namespace env) (sp_depends_on (fe_spec env))"

subsection \<open>The reconcile\<close>

text \<open>The success write: pin-of-record, honoured relock token, this node's entry, Ready=True.\<close>

definition record_realized ::
  "libs \<Rightarrow> 'w env_reconciler \<Rightarrow> string \<Rightarrow> realize_result \<Rightarrow> floxenv \<Rightarrow> floxenv" where
  "record_realized L R relock res env = (
     let st0 = fe_status env;
         st1 = (if rs_lock res \<noteq> [] then st0\<lparr> st_lock := rs_lock res \<rparr> else st0);
         st2 = st1\<lparr> st_relock_token := relock \<rparr>;
         st3 = upsertRealization st2
           \<lparr> nr_node = er_node_name R, nr_ready = True, nr_store_path = rs_store_path res,
             nr_env_path = rs_env_path res, nr_gcroot_path = rs_gcroot_path res,
             nr_observed = fe_generation env \<rparr>
     in with_ready L (env\<lparr> fe_status := st3 \<rparr>) ConditionTrue ''Realized''
          (''realized on '' @ er_node_name R @ '' at '' @ rs_store_path res))"

text \<open>From \<open>markRealizing\<close> to the end, run while the slot is held.\<close>

definition realize_in_slot ::
  "libs \<Rightarrow> 'w env_reconciler \<Rightarrow> floxenv \<Rightarrow> string \<Rightarrow> string \<Rightarrow> string \<Rightarrow> string \<Rightarrow> string \<Rightarrow> string \<Rightarrow>
     ('w st, outcome) state" where
  "realize_in_slot L R env0 folder consumption manifestTOML relock lock previousLock = do {
     env \<leftarrow> markRealizing L R env0;
     answer \<leftarrow> realize R (realize_timeout R)
       \<lparr> rr_ref = EnvRef folder (fe_name env), rr_manifest_toml = manifestTOML,
         rr_lock = lock, rr_consumption = consumption \<rparr>;
     case answer of
       Inl e \<Rightarrow> fail L R env ''RealizeFailed'' e
     | Inr res \<Rightarrow> do {
         rolled \<leftarrow> (if rs_lock res \<noteq> [] \<and> rs_lock res \<noteq> previousLock
           then restartConsumers (er_client R) env (rs_lock res) else State_Monad.return None);
         case rolled of
           Some e \<Rightarrow> fail L R env ''RestartConsumersFailed'' e
         | None \<Rightarrow> do {
             r \<leftarrow> patch_env_status (er_client R) env (record_realized L R relock res env);
             State_Monad.return (done_result, case r of Inl e \<Rightarrow> Some e | Inr _ \<Rightarrow> None)
           }
       }
   }"

text \<open>The slot is taken before and given back after, whatever happens in between.\<close>

definition with_slot :: "'w env_reconciler \<Rightarrow> ('w st, outcome) state \<Rightarrow> ('w st, outcome) state" where
  "with_slot R body = do {
     cancelled \<leftarrow> wait_slot R;
     case cancelled of
       Some e \<Rightarrow> State_Monad.return (done_result, Some e)
     | None \<Rightarrow> do {
         out \<leftarrow> body;
         _ \<leftarrow> free_slot R;
         State_Monad.return out
       }
   }"

text \<open>From the dependency check on, with the manifest resolved and serialised.\<close>

definition realize_when_deps_ready ::
  "libs \<Rightarrow> 'w env_reconciler \<Rightarrow> floxenv \<Rightarrow> string \<Rightarrow> string \<Rightarrow> string \<Rightarrow> ('w st, outcome) state" where
  "realize_when_deps_ready L R env folder consumption manifestTOML = do {
     unmet \<leftarrow> unmetDeps L R env;
     if unmet \<noteq> [] then waitForDeps L R env unmet
     else
       let relock = map_get (fe_annotations env) relockAnnotation;
           previousLock = st_lock (fe_status env);
           lock = (if relock \<noteq> st_relock_token (fe_status env) then [] else previousLock)
       in with_slot R (realize_in_slot L R env folder consumption manifestTOML relock lock previousLock)
   }"

definition FloxEnv_Reconcile :: "libs \<Rightarrow> 'w env_reconciler \<Rightarrow> objkey \<Rightarrow> ('w st, outcome) state" where
  "FloxEnv_Reconcile L R req = do {
     got \<leftarrow> get_env (er_client R) req;
     case got of
       Inl e \<Rightarrow> State_Monad.return (done_result, IgnoreNotFound e)
     | Inr env \<Rightarrow>
         if FindStatusCondition (lib_meta L) (fe_conditions env) ''Ready'' = None
         then markPending L R env
         else if alreadyRealized R env then State_Monad.return (done_result, None)
         else
           let folder = (if sp_folder (fe_spec env) = [] then fe_namespace env else sp_folder (fe_spec env));
               consumption = (if sp_consumption (fe_spec env) = [] then ''overlay''
                              else sp_consumption (fe_spec env))
           in case parseManifest L (sp_manifest (fe_spec env)) of
                Inl e \<Rightarrow> fail L R env ''SerializeFailed'' e
              | Inr manifest \<Rightarrow> do {
                  x \<leftarrow> resolveFlakeInstalls L (er_client R) (fe_namespace env) manifest;
                  case fst x of
                    Inl e \<Rightarrow> fail L R env ''FlakeResolveFailed'' e
                  | Inr waiting \<Rightarrow>
                      if waiting then waitForFlake L R env
                      else case manifestToTOML L (snd x) of
                        Inl e \<Rightarrow> fail L R env ''SerializeFailed'' e
                      | Inr manifestTOML \<Rightarrow>
                          realize_when_deps_ready L R env folder consumption manifestTOML
                }
   }"

end
