(* ===== verification/FloxEnvTraces.thy ===== *)
theory FloxEnvTraces
  imports FloxEnvController
begin

text \<open>
  The traces of a FloxEnv reconcile. Each lemma says, for one operation, which requests it sends
  and how its result depends on the answers; \<open>reconcile_trace\<close> puts them together and is what the
  properties of the reconcile rest on. The answers are arbitrary throughout.
\<close>

subsection \<open>Resolving the install table\<close>

text \<open>One install entry before and after a resolution that read the catalogs in \<open>evs\<close>.\<close>

definition entry_resolved :: "libs \<Rightarrow> string \<Rightarrow> event list \<Rightarrow> string \<times> json \<Rightarrow> string \<times> json \<Rightarrow> bool" where
  "entry_resolved L ns evs p p' \<longleftrightarrow> fst p' = fst p \<and>
     (case catalog_entry (snd p) of
        None \<Rightarrow> snd p' = snd p
      | Some (entry, raw) \<Rightarrow> \<exists>ref flake. parseFloxCatalogRef L raw = Inr ref \<and>
          GetFloxCatalog (ObjKey (if cr_namespace ref = [] then ns else cr_namespace ref) (cr_name ref))
            (Inr flake) \<in> set evs \<and>
          ct_flake_ref (fc_status flake) \<noteq> [] \<and>
          snd p' = JObject (AList.update ''flake''
            (JString (concrete_ref (ct_flake_ref (fc_status flake)) (cr_output ref))) entry))"

lemma entry_resolved_mono: "entry_resolved L ns evs p p' \<Longrightarrow> set evs \<subseteq> set evs' \<Longrightarrow> entry_resolved L ns evs' p p'"
  by (fastforce simp: entry_resolved_def split: option.splits)

definition catalog_reads :: "event list \<Rightarrow> bool" where
  "catalog_reads evs \<longleftrightarrow> (\<forall>ev \<in> set evs. \<exists>k r. ev = GetFloxCatalog k r)"

lemma catalog_reads_simps [simp]:
  "catalog_reads []"
  "catalog_reads (GetFloxCatalog k r # evs) \<longleftrightarrow> catalog_reads evs"
  by (simp_all add: catalog_reads_def)

definition installs_outcome ::
  "libs \<Rightarrow> string \<Rightarrow> jobject \<Rightarrow> (go_error + bool) \<times> jobject \<Rightarrow> event list \<Rightarrow> bool" where
  "installs_outcome L ns m x evs \<longleftrightarrow>
     (fst x = Inr False \<longrightarrow> list_all2 (entry_resolved L ns evs) m (snd x)) \<and>
     (fst x = Inr True \<longrightarrow> (\<exists>k flake. GetFloxCatalog k (Inr flake) \<in> set evs \<and> ct_flake_ref (fc_status flake) = []))"

lemma installs_outcome_Cons:
  "installs_outcome L ns m x evs \<Longrightarrow> entry_resolved L ns (e # evs) p p' \<Longrightarrow>
    installs_outcome L ns (p # m) (fst x, p' # snd x) (e # evs)"
  unfolding installs_outcome_def
  by (auto elim!: list.rel_mono_strong intro: entry_resolved_mono)

lemma installs_outcome_Cons_same:
  "installs_outcome L ns m x evs \<Longrightarrow> catalog_entry (snd p) = None \<Longrightarrow>
    installs_outcome L ns (p # m) (fst x, p # snd x) evs"
  unfolding installs_outcome_def by (auto simp: entry_resolved_def)

lemma resolve_rest:
  assumes "emits (resolve_installs L C ns m) (\<lambda>x evs. catalog_reads evs \<and> installs_outcome L ns m x evs)"
    and "entry_resolved L ns [GetFloxCatalog k r] p p'"
  shows "emits (State_Monad.bind (resolve_installs L C ns m) (\<lambda>x. State_Monad.return (fst x, p' # snd x)))
    (\<lambda>y es. catalog_reads (GetFloxCatalog k r # es) \<and>
       installs_outcome L ns (p # m) y (GetFloxCatalog k r # es))"
  by (rule emits_bind [OF assms(1)], intro emits_intros)
    (auto intro!: installs_outcome_Cons entry_resolved_mono [OF assms(2)])

lemma resolve_installs_emits:
  "emits (resolve_installs L C ns m) (\<lambda>x evs. catalog_reads evs \<and> installs_outcome L ns m x evs)"
proof (induction m)
  case Nil
  show ?case unfolding resolve_installs.simps by (intro emits_intros) (simp add: installs_outcome_def)
next
  case (Cons p m)
  obtain iid v where p: "p = (iid, v)" by (cases p)
  show ?case
  proof (cases "catalog_entry v")
    case None
    show ?thesis
      unfolding p resolve_installs.simps None option.case
      by (rule emits_bind [OF Cons.IH], intro emits_intros)
        (auto simp: None intro: installs_outcome_Cons_same)
  next
    case (Some e)
    obtain entry raw where e: "e = (entry, raw)" by (cases e)
    show ?thesis
      unfolding p resolve_installs.simps Some e option.case prod.case get_catalog_def Let_def
      by (intro emits_intros resolve_rest [OF Cons.IH])
        (auto simp: installs_outcome_def entry_resolved_def Some e)
  qed
qed

text \<open>The manifest after a resolution that did not stop early.\<close>

definition manifest_resolved :: "libs \<Rightarrow> string \<Rightarrow> event list \<Rightarrow> jobject \<Rightarrow> jobject \<Rightarrow> bool" where
  "manifest_resolved L ns evs m m' \<longleftrightarrow>
     (case map_of m ''install'' of
        Some (JObject install) \<Rightarrow> \<exists>install'. list_all2 (entry_resolved L ns evs) install install' \<and>
          m' = AList.update ''install'' (JObject install') m
      | _ \<Rightarrow> m' = m)"

lemma manifest_resolved_mono:
  "manifest_resolved L ns evs m m' \<Longrightarrow> set evs \<subseteq> set evs' \<Longrightarrow> manifest_resolved L ns evs' m m'"
  by (fastforce simp: manifest_resolved_def split: option.splits json.splits
      elim!: list.rel_mono_strong intro: entry_resolved_mono)

lemma resolveFlakeInstalls_emits:
  "emits (resolveFlakeInstalls L C ns m) (\<lambda>x evs. catalog_reads evs \<and>
     (fst x = Inr False \<longrightarrow> manifest_resolved L ns evs m (snd x)) \<and>
     (fst x = Inr True \<longrightarrow>
       (\<exists>k flake. GetFloxCatalog k (Inr flake) \<in> set evs \<and> ct_flake_ref (fc_status flake) = [])))"
  unfolding resolveFlakeInstalls_def manifest_resolved_def
  by (auto split: option.split json.split simp: installs_outcome_def
      intro!: emits_intros emits_bind [OF resolve_installs_emits])

subsection \<open>Dependencies\<close>

text \<open>One read per declared dependency, in order; unmet are those not answered Ready.\<close>

lemma unmet_among_emits:
  "emits (unmet_among L R ns names) (\<lambda>unmet evs. \<exists>answers. length answers = length names \<and>
     evs = map (\<lambda>(n, r). GetFloxEnv (ObjKey ns n) r) (zip names answers) \<and>
     unmet = map fst (filter (\<lambda>(n, r). \<not> dep_ready L r) (zip names answers)))"
proof (induction names)
  case Nil
  show ?case unfolding unmet_among.simps by (intro emits_intros) simp
next
  case (Cons name names)
  have step: "\<exists>answers. length answers = length (name # names) \<and>
      GetFloxEnv (ObjKey ns name) r # map (\<lambda>(n, r). GetFloxEnv (ObjKey ns n) r) (zip names as) @ [] =
        map (\<lambda>(n, r). GetFloxEnv (ObjKey ns n) r) (zip (name # names) answers) \<and>
      (if dep_ready L r then map fst (filter (\<lambda>(n, r). \<not> dep_ready L r) (zip names as))
       else name # map fst (filter (\<lambda>(n, r). \<not> dep_ready L r) (zip names as))) =
        map fst (filter (\<lambda>(n, r). \<not> dep_ready L r) (zip (name # names) answers))"
    if "length as = length names" for r as
    using that by (intro exI [of _ "r # as"]) simp
  show ?case
    unfolding unmet_among.simps get_env_def
    by (rule emits_bind_perform, rule emits_bind [OF Cons.IH], elim exE conjE, hypsubst,
        rule emits_return, rule step)
qed

definition env_reads :: "event list \<Rightarrow> bool" where
  "env_reads evs \<longleftrightarrow> (\<forall>ev \<in> set evs. \<exists>k r. ev = GetFloxEnv k r)"

text \<open>No dependency unmet: each was read, and answered Ready.\<close>

definition deps_answered_ready :: "libs \<Rightarrow> floxenv \<Rightarrow> event list \<Rightarrow> bool" where
  "deps_answered_ready L env evs \<longleftrightarrow> (\<forall>name \<in> set (sp_depends_on (fe_spec env)).
     \<exists>dep. GetFloxEnv (ObjKey (fe_namespace env) name) (Inr dep) \<in> set evs \<and>
       IsStatusConditionTrue (lib_meta L) (fe_conditions dep) ''Ready'')"

lemma unmetDeps_emits:
  "emits (unmetDeps L R env) (\<lambda>unmet evs. env_reads evs \<and> (unmet = [] \<longrightarrow> deps_answered_ready L env evs))"
  unfolding unmetDeps_def
proof (rule emits_mono [OF unmet_among_emits], elim exE conjE)
  fix unmet evs answers
  let ?names = "sp_depends_on (fe_spec env)"
  assume len: "length answers = length ?names"
    and evs: "evs = map (\<lambda>(n, r). GetFloxEnv (ObjKey (fe_namespace env) n) r) (zip ?names answers)"
    and unmet: "unmet = map fst (filter (\<lambda>(n, r). \<not> dep_ready L r) (zip ?names answers))"
  have "deps_answered_ready L env evs" if none: "unmet = []"
    unfolding deps_answered_ready_def
  proof
    fix name assume "name \<in> set ?names"
    then obtain r where r: "(name, r) \<in> set (zip ?names answers)"
      using len by (metis in_set_impl_in_set_zip1)
    with none unmet have "dep_ready L r" by (auto simp: filter_empty_conv)
    then obtain dep where "r = Inr dep" "IsStatusConditionTrue (lib_meta L) (fe_conditions dep) ''Ready''"
      by (auto simp: dep_ready_def split: sum.splits)
    with r show "\<exists>dep. GetFloxEnv (ObjKey (fe_namespace env) name) (Inr dep) \<in> set evs \<and>
        IsStatusConditionTrue (lib_meta L) (fe_conditions dep) ''Ready''"
      by (force simp: evs)
  qed
  then show "env_reads evs \<and> (unmet = [] \<longrightarrow> deps_answered_ready L env evs)"
    by (auto simp: env_reads_def evs)
qed

subsection \<open>Inside the slot\<close>

text \<open>The object the reconcile works with after marking it Realizing: the server's answer, if any.\<close>

definition marked_env :: "libs \<Rightarrow> 'w env_reconciler \<Rightarrow> floxenv \<Rightarrow> go_error + floxenv \<Rightarrow> floxenv" where
  "marked_env L R env0 r =
     (case r of
        Inl _ \<Rightarrow> with_ready L env0 ConditionFalse ''Realizing'' (''realising the env closure on '' @ er_node_name R)
      | Inr answered \<Rightarrow> answered)"

text \<open>
  The write that ends a pass: what reason it records, on which object, and the answer it got. The
  last argument is the outcome of the roll, \<open>None\<close> where the realise itself failed.
\<close>

definition failed_write :: "libs \<Rightarrow> floxenv \<Rightarrow> string \<Rightarrow> go_error \<Rightarrow> outcome \<Rightarrow> event list \<Rightarrow> bool" where
  "failed_write L env reason e out evs \<longleftrightarrow> out = (done_result, Some e) \<and>
     (\<exists>r. evs = [PatchFloxEnvStatus env (with_ready L env ConditionFalse reason (error_string e)) r])"

definition success_write ::
  "libs \<Rightarrow> 'w env_reconciler \<Rightarrow> string \<Rightarrow> realize_result \<Rightarrow> floxenv \<Rightarrow> outcome \<Rightarrow> event list \<Rightarrow> bool" where
  "success_write L R relock res env out evs \<longleftrightarrow>
     (\<exists>r. evs = [PatchFloxEnvStatus env (record_realized L R relock res env) r] \<and>
        out = (done_result, case r of Inl e \<Rightarrow> Some e | Inr _ \<Rightarrow> None))"

definition lock_moved :: "string \<Rightarrow> realize_result \<Rightarrow> bool" where
  "lock_moved previousLock res \<longleftrightarrow> rs_lock res \<noteq> [] \<and> rs_lock res \<noteq> previousLock"

definition roll_outcome :: "floxenv \<Rightarrow> string \<Rightarrow> realize_result \<Rightarrow> go_error option \<Rightarrow> event list \<Rightarrow> bool" where
  "roll_outcome env previousLock res rolled rolls \<longleftrightarrow>
     (if lock_moved previousLock res
      then roll_events (env_target env) (lockDigest (rs_lock res)) rolls \<and>
        (rolled = None \<longrightarrow> all_rolled (env_target env) (lockDigest (rs_lock res)) rolls)
      else rolls = [] \<and> rolled = None)"

definition after_realize ::
  "libs \<Rightarrow> 'w env_reconciler \<Rightarrow> floxenv \<Rightarrow> string \<Rightarrow> string \<Rightarrow> realize_result \<Rightarrow> outcome \<Rightarrow> event list \<Rightarrow> bool" where
  "after_realize L R env relock previousLock res out evs \<longleftrightarrow>
     (\<exists>rolls rolled fin. evs = rolls @ fin \<and>
        roll_outcome env previousLock res rolled rolls \<and>
        (case rolled of
           Some e \<Rightarrow> failed_write L env ''RestartConsumersFailed'' e out fin
         | None \<Rightarrow> success_write L R relock res env out fin))"

definition slot_body ::
  "libs \<Rightarrow> 'w env_reconciler \<Rightarrow> floxenv \<Rightarrow> string \<Rightarrow> string \<Rightarrow> string \<Rightarrow> string \<Rightarrow> string \<Rightarrow> string \<Rightarrow>
     outcome \<Rightarrow> event list \<Rightarrow> bool" where
  "slot_body L R env0 folder consumption toml relock lock previousLock out evs \<longleftrightarrow>
     (\<exists>r0 answer rest.
        evs = PatchFloxEnvStatus env0 (marked_env L R env0 (Inl (OtherErr []))) r0 #
          Realize (realize_timeout R)
            \<lparr> rr_ref = EnvRef folder (fe_name (marked_env L R env0 r0)), rr_manifest_toml = toml,
              rr_lock = lock, rr_consumption = consumption \<rparr> answer # rest \<and>
        (case answer of
           Inl e \<Rightarrow> failed_write L (marked_env L R env0 r0) ''RealizeFailed'' e out rest
         | Inr res \<Rightarrow> after_realize L R (marked_env L R env0 r0) relock previousLock res out rest))"

lemma fail_emits: "emits (fail L R env reason e) (failed_write L env reason e)"
  unfolding fail_def patch_env_status_def
  by (intro emits_intros) (simp add: failed_write_def)

lemma roll_emits:
  "emits (if lock_moved previousLock res then restartConsumers C env (rs_lock res) else State_Monad.return None)
     (roll_outcome env previousLock res)"
  by (cases "lock_moved previousLock res")
    (auto intro: emits_mono [OF restartConsumers_emits] emits_return simp: roll_outcome_def)

lemma after_realizeI:
  "roll_outcome env previousLock res rolled rolls \<Longrightarrow>
    (case rolled of Some e \<Rightarrow> failed_write L env ''RestartConsumersFailed'' e out fin
     | None \<Rightarrow> success_write L R relock res env out fin) \<Longrightarrow>
    after_realize L R env relock previousLock res out (rolls @ fin)"
  unfolding after_realize_def by blast

lemma realize_in_slot_emits:
  "emits (realize_in_slot L R env0 folder consumption toml relock lock previousLock)
     (slot_body L R env0 folder consumption toml relock lock previousLock)"
proof -
  let ?C = "er_client R"
  have rec: "emits (State_Monad.bind (patch_env_status ?C env (record_realized L R relock res env))
      (\<lambda>r. State_Monad.return (done_result, case r of Inl e \<Rightarrow> Some e | Inr _ \<Rightarrow> None)))
    (success_write L R relock res env)" for env res
    unfolding patch_env_status_def by (intro emits_intros) (simp add: success_write_def)
  have after: "emits (State_Monad.bind
      (if rs_lock res \<noteq> [] \<and> rs_lock res \<noteq> previousLock then restartConsumers ?C env (rs_lock res)
       else State_Monad.return None)
      (\<lambda>rolled. case rolled of Some e \<Rightarrow> fail L R env ''RestartConsumersFailed'' e
       | None \<Rightarrow> State_Monad.bind (patch_env_status ?C env (record_realized L R relock res env))
          (\<lambda>r. State_Monad.return (done_result, case r of Inl e \<Rightarrow> Some e | Inr _ \<Rightarrow> None))))
    (after_realize L R env relock previousLock res)" for env res
    unfolding lock_moved_def [symmetric]
    by (rule emits_bind [OF roll_emits], intro emits_intros emits_mono [OF fail_emits] emits_mono [OF rec])
      (auto intro: after_realizeI)
  show ?thesis
    unfolding realize_in_slot_def markRealizing_def Let_def realize_def
    unfolding patch_env_status_def [of _ env0]
    by (intro emits_intros emits_mono [OF fail_emits] emits_mono [OF after])
      (auto simp: slot_body_def marked_env_def split: sum.splits)
qed

subsection \<open>The whole reconcile\<close>

text \<open>
  With the manifest resolved: the dependencies are read, then either the pass waits for them, or
  it is cancelled waiting for a slot, or it runs \<open>slot_body\<close> between taking and freeing the slot.
\<close>

definition relock_of :: "floxenv \<Rightarrow> string" where
  "relock_of env = map_get (fe_annotations env) relockAnnotation"

definition lock_to_use :: "floxenv \<Rightarrow> string" where
  "lock_to_use env = (if relock_of env \<noteq> st_relock_token (fe_status env) then [] else st_lock (fe_status env))"

definition requeue_write :: "libs \<Rightarrow> floxenv \<Rightarrow> string \<Rightarrow> int \<Rightarrow> outcome \<Rightarrow> event list \<Rightarrow> bool" where
  "requeue_write L env reason delay out evs \<longleftrightarrow>
     out = (done_result\<lparr> requeue_after := delay \<rparr>, None) \<and>
     (\<exists>msg r. evs = [PatchFloxEnvStatus env (with_ready L env ConditionFalse reason msg) r])"

definition slot_trace ::
  "libs \<Rightarrow> 'w env_reconciler \<Rightarrow> floxenv \<Rightarrow> string \<Rightarrow> string \<Rightarrow> string \<Rightarrow> outcome \<Rightarrow> event list \<Rightarrow> bool" where
  "slot_trace L R env folder consumption toml out evs \<longleftrightarrow>
     (\<exists>e. evs = [AcquireSlot (Some e)] \<and> out = (done_result, Some e)) \<or>
     (\<exists>body. evs = AcquireSlot None # body @ [ReleaseSlot] \<and>
        slot_body L R env folder consumption toml (relock_of env) (lock_to_use env)
          (st_lock (fe_status env)) out body)"

definition deps_trace ::
  "libs \<Rightarrow> 'w env_reconciler \<Rightarrow> floxenv \<Rightarrow> string \<Rightarrow> string \<Rightarrow> string \<Rightarrow> outcome \<Rightarrow> event list \<Rightarrow> bool" where
  "deps_trace L R env folder consumption toml out evs \<longleftrightarrow>
     (\<exists>reads rest. evs = reads @ rest \<and> env_reads reads \<and>
        (requeue_write L env ''WaitingForDeps'' (10 * second) out rest \<or>
         (deps_answered_ready L env reads \<and> slot_trace L R env folder consumption toml out rest)))"

lemma with_slot_emits:
  "emits body Q \<Longrightarrow> emits (with_slot R body) (\<lambda>out evs.
     (\<exists>e. evs = [AcquireSlot (Some e)] \<and> out = (done_result, Some e)) \<or>
     (\<exists>b. evs = AcquireSlot None # b @ [ReleaseSlot] \<and> Q out b))"
  unfolding with_slot_def slot_defs
  by (intro emits_intros, simp, rule emits_bind, assumption, intro emits_intros) auto

lemma waitForDeps_emits:
  "emits (waitForDeps L R env unmet) (requeue_write L env ''WaitingForDeps'' (10 * second))"
  unfolding waitForDeps_def patch_env_status_def
  by (intro emits_intros) (auto simp: requeue_write_def)

lemma waitForFlake_emits:
  "emits (waitForFlake L R env) (requeue_write L env ''WaitingForFlake'' (15 * second))"
  unfolding waitForFlake_def patch_env_status_def
  by (intro emits_intros) (auto simp: requeue_write_def)

lemma deps_emits:
  "emits (realize_when_deps_ready L R env folder consumption toml) (deps_trace L R env folder consumption toml)"
  unfolding realize_when_deps_ready_def Let_def relock_of_def [symmetric] lock_to_use_def [symmetric]
  by (rule emits_bind [OF unmetDeps_emits],
      intro emits_intros emits_mono [OF waitForDeps_emits] emits_mono [OF with_slot_emits [OF realize_in_slot_emits]])
    (auto simp: deps_trace_def slot_trace_def)

definition consumption_of :: "floxenv \<Rightarrow> string" where
  "consumption_of env =
     (if sp_consumption (fe_spec env) = [] then ''overlay'' else sp_consumption (fe_spec env))"

text \<open>A pass that gets as far as the dependencies, with the manifest it serialised.\<close>

definition realise_trace ::
  "libs \<Rightarrow> 'w env_reconciler \<Rightarrow> floxenv \<Rightarrow> outcome \<Rightarrow> event list \<Rightarrow> bool" where
  "realise_trace L R env out evs \<longleftrightarrow>
     (\<exists>manifest resolved toml reads rest. evs = reads @ rest \<and> catalog_reads reads \<and>
        parseManifest L (sp_manifest (fe_spec env)) = Inr manifest \<and>
        manifest_resolved L (fe_namespace env) reads manifest resolved \<and>
        manifestToTOML L resolved = Inr toml \<and>
        deps_trace L R env (effectiveFolder env) (consumption_of env) toml out rest)"

text \<open>A pass that stops before: it reads catalogs and ends in one Ready=False write.\<close>

definition early_stop :: "libs \<Rightarrow> floxenv \<Rightarrow> outcome \<Rightarrow> event list \<Rightarrow> bool" where
  "early_stop L env out evs \<longleftrightarrow>
     (\<exists>reads rest. evs = reads @ rest \<and> catalog_reads reads \<and>
        ((\<exists>reason \<in> {''SerializeFailed'', ''FlakeResolveFailed''}. \<exists>e. failed_write L env reason e out rest) \<or>
         (requeue_write L env ''WaitingForFlake'' (15 * second) out rest \<and>
          (\<exists>k flake. GetFloxCatalog k (Inr flake) \<in> set reads \<and> ct_flake_ref (fc_status flake) = []))))"

definition pending_trace :: "libs \<Rightarrow> floxenv \<Rightarrow> outcome \<Rightarrow> event list \<Rightarrow> bool" where
  "pending_trace L env out evs \<longleftrightarrow>
     (\<exists>r. evs = [PatchFloxEnvStatus env (with_ready L env ConditionFalse ''Pending'' ''queued for realisation'') r] \<and>
        out = (case r of Inl e \<Rightarrow> (done_result, Some e) | Inr _ \<Rightarrow> (done_result\<lparr> requeue := True \<rparr>, None)))"

definition env_trace :: "libs \<Rightarrow> 'w env_reconciler \<Rightarrow> floxenv \<Rightarrow> outcome \<Rightarrow> event list \<Rightarrow> bool" where
  "env_trace L R env out evs \<longleftrightarrow>
     (if FindStatusCondition (lib_meta L) (fe_conditions env) ''Ready'' = None then pending_trace L env out evs
      else if alreadyRealized R env then evs = [] \<and> out = (done_result, None)
      else early_stop L env out evs \<or> realise_trace L R env out evs)"

definition reconcile_trace :: "libs \<Rightarrow> 'w env_reconciler \<Rightarrow> objkey \<Rightarrow> outcome \<Rightarrow> event list \<Rightarrow> bool" where
  "reconcile_trace L R req out evs \<longleftrightarrow>
     (\<exists>got rest. evs = GetFloxEnv req got # rest \<and>
        (case got of
           Inl e \<Rightarrow> rest = [] \<and> out = (done_result, IgnoreNotFound e)
         | Inr env \<Rightarrow> env_trace L R env out rest))"

lemma markPending_emits: "emits (markPending L R env) (pending_trace L env)"
  unfolding markPending_def patch_env_status_def
  by (intro emits_intros) (auto simp: pending_trace_def)

lemma folder_eq: "(if sp_folder (fe_spec env) = [] then fe_namespace env else sp_folder (fe_spec env)) = effectiveFolder env"
  by (simp add: effectiveFolder_def)

theorem reconcile_emits: "emits (FloxEnv_Reconcile L R req) (reconcile_trace L R req)"
proof -
  let ?P = "\<lambda>env out evs. early_stop L env out evs \<or> realise_trace L R env out evs"
  have resolved: "emits (case fst x of Inl e \<Rightarrow> fail L R env ''FlakeResolveFailed'' e
      | Inr waiting \<Rightarrow> if waiting then waitForFlake L R env
          else case manifestToTOML L (snd x) of Inl e \<Rightarrow> fail L R env ''SerializeFailed'' e
            | Inr toml \<Rightarrow> realize_when_deps_ready L R env (effectiveFolder env) (consumption_of env) toml)
      (\<lambda>out evs. ?P env out (reads @ evs))"
    if reads: "catalog_reads reads"
      and res: "fst x = Inr False \<longrightarrow> manifest_resolved L (fe_namespace env) reads manifest (snd x)"
      and wait: "fst x = Inr True \<longrightarrow> (\<exists>k flake. GetFloxCatalog k (Inr flake) \<in> set reads \<and> ct_flake_ref (fc_status flake) = [])"
      and parse: "parseManifest L (sp_manifest (fe_spec env)) = Inr manifest"
    for x env reads manifest
    by (intro emits_intros emits_mono [OF fail_emits] emits_mono [OF waitForFlake_emits] emits_mono [OF deps_emits])
      (use reads res wait parse in \<open>auto simp: early_stop_def realise_trace_def\<close>)
  have parsed: "emits (case parseManifest L (sp_manifest (fe_spec env)) of
        Inl e \<Rightarrow> fail L R env ''SerializeFailed'' e
      | Inr manifest \<Rightarrow> State_Monad.bind (resolveFlakeInstalls L (er_client R) (fe_namespace env) manifest)
          (\<lambda>x. case fst x of Inl e \<Rightarrow> fail L R env ''FlakeResolveFailed'' e
            | Inr waiting \<Rightarrow> if waiting then waitForFlake L R env
                else case manifestToTOML L (snd x) of Inl e \<Rightarrow> fail L R env ''SerializeFailed'' e
                  | Inr toml \<Rightarrow> realize_when_deps_ready L R env (effectiveFolder env) (consumption_of env) toml))
      (?P env)" for env
    by (rule emits_case_sum, rule emits_mono [OF fail_emits], force simp: early_stop_def,
        rule emits_bind [OF resolveFlakeInstalls_emits], elim conjE, rule resolved)
  show ?thesis
    unfolding FloxEnv_Reconcile_def Let_def folder_eq consumption_of_def [symmetric] get_env_def
    by (intro emits_intros emits_mono [OF markPending_emits] emits_mono [OF parsed])
      (auto simp: reconcile_trace_def env_trace_def)
qed

subsection \<open>Two shapes of a reconcile\<close>

text \<open>
  A quiet event: a read, a slot refused because the context ended, or a Ready=False write. Every
  pass either consists of quiet events or runs \<open>slot_body\<close> in a slot.
\<close>

definition not_ready_write :: "libs \<Rightarrow> floxenv \<Rightarrow> floxenv \<Rightarrow> bool" where
  "not_ready_write L base new \<longleftrightarrow> (\<exists>reason msg. new = with_ready L base ConditionFalse reason msg)"

lemma not_ready_write_with_ready [simp]:
  "not_ready_write L env (with_ready L env ConditionFalse reason msg)"
  by (auto simp: not_ready_write_def)

fun quiet_event :: "libs \<Rightarrow> event \<Rightarrow> bool" where
  "quiet_event L (GetFloxEnv k r) = True"
| "quiet_event L (GetFloxCatalog k r) = True"
| "quiet_event L (AcquireSlot (Some e)) = True"
| "quiet_event L (PatchFloxEnvStatus base new r) = not_ready_write L base new"
| "quiet_event L _ = False"

definition quiet :: "libs \<Rightarrow> event list \<Rightarrow> bool" where
  "quiet L evs \<longleftrightarrow> (\<forall>ev \<in> set evs. quiet_event L ev)"

lemma quiet_simps [simp]:
  "quiet L []"
  "quiet L (ev # evs) \<longleftrightarrow> quiet_event L ev \<and> quiet L evs"
  "quiet L (es @ es') \<longleftrightarrow> quiet L es \<and> quiet L es'"
  by (auto simp: quiet_def)

lemma quiet_reads: "catalog_reads evs \<Longrightarrow> quiet L evs" "env_reads evs \<Longrightarrow> quiet L evs"
  by (auto simp: quiet_def catalog_reads_def env_reads_def)

lemma quiet_writes:
  "failed_write L env reason e out evs \<Longrightarrow> quiet L evs"
  "requeue_write L env reason' d out evs \<Longrightarrow> quiet L evs"
  "pending_trace L env out evs \<Longrightarrow> quiet L evs"
  by (auto simp: failed_write_def requeue_write_def pending_trace_def)

lemma quiet_early: "early_stop L env out evs \<Longrightarrow> quiet L evs"
  by (auto simp: early_stop_def intro: quiet_reads quiet_writes)

text \<open>What is known of a pass that got a slot.\<close>

definition slot_pass ::
  "libs \<Rightarrow> 'w env_reconciler \<Rightarrow> floxenv \<Rightarrow> string \<Rightarrow> event list \<Rightarrow> event list \<Rightarrow> bool" where
  "slot_pass L R env toml creads dreads \<longleftrightarrow>
     FindStatusCondition (lib_meta L) (fe_conditions env) ''Ready'' \<noteq> None \<and>
     \<not> alreadyRealized R env \<and> catalog_reads creads \<and> env_reads dreads \<and>
     (\<exists>manifest resolved. parseManifest L (sp_manifest (fe_spec env)) = Inr manifest \<and>
        manifest_resolved L (fe_namespace env) creads manifest resolved \<and>
        manifestToTOML L resolved = Inr toml) \<and>
     deps_answered_ready L env dreads"

lemma reconcile_cases:
  assumes "reconcile_trace L R req out evs"
  obtains (quiet) "quiet L evs"
  | (slot) env toml creads dreads body where
      "evs = GetFloxEnv req (Inr env) # creads @ dreads @ AcquireSlot None # body @ [ReleaseSlot]"
      "slot_pass L R env toml creads dreads"
      "slot_body L R env (effectiveFolder env) (consumption_of env) toml (relock_of env)
         (lock_to_use env) (st_lock (fe_status env)) out body"
proof -
  obtain got rest where evs: "evs = GetFloxEnv req got # rest"
    and got: "case got of Inl e \<Rightarrow> rest = [] \<and> out = (done_result, IgnoreNotFound e)
      | Inr env \<Rightarrow> env_trace L R env out rest"
    using assms unfolding reconcile_trace_def by blast
  show ?thesis
  proof (cases "quiet L rest")
    case True
    then show ?thesis using evs quiet by simp
  next
    case False
    then obtain env where env: "got = Inr env" "env_trace L R env out rest"
      using got by (cases got) auto
    with False have ready: "FindStatusCondition (lib_meta L) (fe_conditions env) ''Ready'' \<noteq> None"
        "\<not> alreadyRealized R env" and "realise_trace L R env out rest"
      by (auto simp: env_trace_def dest: quiet_writes quiet_early split: if_splits)
    then obtain manifest resolved toml creads drest where r: "rest = creads @ drest" "catalog_reads creads"
        "parseManifest L (sp_manifest (fe_spec env)) = Inr manifest"
        "manifest_resolved L (fe_namespace env) creads manifest resolved" "manifestToTOML L resolved = Inr toml"
        "deps_trace L R env (effectiveFolder env) (consumption_of env) toml out drest"
      unfolding realise_trace_def by blast
    then obtain dreads srest where d: "drest = dreads @ srest" "env_reads dreads"
        and "deps_answered_ready L env dreads"
        and "slot_trace L R env (effectiveFolder env) (consumption_of env) toml out srest"
      using False by (auto simp: deps_trace_def dest: quiet_reads quiet_writes)
    moreover from this obtain body where "srest = AcquireSlot None # body @ [ReleaseSlot]"
        "slot_body L R env (effectiveFolder env) (consumption_of env) toml (relock_of env)
           (lock_to_use env) (st_lock (fe_status env)) out body"
      using False r d by (auto simp: slot_trace_def dest: quiet_reads)
    ultimately show ?thesis
      using slot [of env creads dreads body toml] evs env r ready unfolding slot_pass_def by auto
  qed
qed

lemma slot_body_cases:
  assumes "slot_body L R env0 folder consumption toml relock lock previousLock out body"
  obtains r0 q answer rest where
      "body = PatchFloxEnvStatus env0 (marked_env L R env0 (Inl (OtherErr []))) r0 #
         Realize (realize_timeout R) q answer # rest"
      "q = \<lparr> rr_ref = EnvRef folder (fe_name (marked_env L R env0 r0)), rr_manifest_toml = toml,
         rr_lock = lock, rr_consumption = consumption \<rparr>"
      "\<And>e. answer = Inl e \<Longrightarrow> failed_write L (marked_env L R env0 r0) ''RealizeFailed'' e out rest"
      "\<And>res. answer = Inr res \<Longrightarrow> after_realize L R (marked_env L R env0 r0) relock previousLock res out rest"
proof -
  obtain r0 answer rest where *:
    "body = PatchFloxEnvStatus env0 (marked_env L R env0 (Inl (OtherErr []))) r0 # Realize (realize_timeout R)
       \<lparr> rr_ref = EnvRef folder (fe_name (marked_env L R env0 r0)), rr_manifest_toml = toml,
         rr_lock = lock, rr_consumption = consumption \<rparr> answer # rest"
    "case answer of Inl e \<Rightarrow> failed_write L (marked_env L R env0 r0) ''RealizeFailed'' e out rest
      | Inr res \<Rightarrow> after_realize L R (marked_env L R env0 r0) relock previousLock res out rest"
    using assms unfolding slot_body_def by blast
  show ?thesis
    by (rule that [OF *(1) refl]) (use *(2) in auto)
qed

text \<open>A success write names the realise answer it records, and comes after it and after the roll.\<close>

lemma after_realize_write:
  assumes "after_realize L R env relock previousLock res out rest"
    and "PatchFloxEnvStatus base new r \<in> set rest"
  shows "base = env \<and> (not_ready_write L base new \<or>
    (new = record_realized L R relock res env \<and>
     (\<exists>rolls. rest = rolls @ [PatchFloxEnvStatus base new r] \<and> roll_outcome env previousLock res None rolls)))"
proof -
  obtain rolls rolled fin where *: "rest = rolls @ fin" "roll_outcome env previousLock res rolled rolls"
      "case rolled of Some e \<Rightarrow> failed_write L env ''RestartConsumersFailed'' e out fin
        | None \<Rightarrow> success_write L R relock res env out fin"
    using assms(1) unfolding after_realize_def by blast
  have "PatchFloxEnvStatus base new r \<notin> set rolls"
    using *(2) by (auto simp: roll_outcome_def roll_events_def split: if_splits)
  then show ?thesis
    using * assms(2)
    by (cases rolled) (auto simp: failed_write_def success_write_def)
qed

end
