(* ===== verification/FloxEnvPasses.thy ===== *)
theory FloxEnvPasses
  imports FloxEnvTraces
begin

text \<open>
  The two kinds of pass of a FloxEnv reconcile, as facts about one run from an arbitrary state of
  the outside (\<open>trace_of\<close>, \<open>outcome_of\<close>): a quiet pass, or a pass around exactly one realise
  (\<open>realise_pass\<close>). The properties of the reconcile are short consequences of these.
\<close>

lemmas reconcile_run = emits_run [OF reconcile_emits]

subsection \<open>Shared steps\<close>

lemma with_ready_simps [simp]:
  "fe_meta (with_ready L env s reason msg) = fe_meta env"
  "fe_spec (with_ready L env s reason msg) = fe_spec env"
  "st_lock (fe_status (with_ready L env s reason msg)) = st_lock (fe_status env)"
  "st_relock_token (fe_status (with_ready L env s reason msg)) = st_relock_token (fe_status env)"
  "st_realized (fe_status (with_ready L env s reason msg)) = st_realized (fe_status env)"
  by (simp_all add: with_ready_def)

lemma find_with_ready:
  "meta_laws (lib_meta L) \<Longrightarrow> FindStatusCondition (lib_meta L) (fe_conditions (with_ready L env s reason msg)) ''Ready''
     = Some \<lparr> c_type = ''Ready'', c_status = s, c_reason = reason, c_message = msg, c_observed = fe_generation env \<rparr>"
  unfolding meta_laws_def with_ready_def by (simp, metis condition.select_convs(1))

lemma true_with_ready:
  "meta_laws (lib_meta L) \<Longrightarrow>
    IsStatusConditionTrue (lib_meta L) (fe_conditions (with_ready L env s reason msg)) ''Ready'' \<longleftrightarrow> s = ConditionTrue"
  using find_with_ready [of L env s reason msg] by (auto simp: meta_laws_def)

lemma not_ready_not_true:
  "meta_laws (lib_meta L) \<Longrightarrow> not_ready_write L base new \<Longrightarrow>
    \<not> IsStatusConditionTrue (lib_meta L) (fe_conditions new) ''Ready''"
  by (auto simp: not_ready_write_def true_with_ready)

interpretation realized: keyed_upsert nr_node upsert_list
proof
  show "lookup_by nr_node k (upsert_list x xs) = (if k = nr_node x then Some x else lookup_by nr_node k xs)" for k x xs
    by (induction xs) auto
  show "map nr_node (upsert_list x xs) =
      (if nr_node x \<in> nr_node ` set xs then map nr_node xs else map nr_node xs @ [nr_node x])" for x xs
    by (induction xs) auto
qed

text \<open>The entry and the fields the success write records.\<close>

definition node_entry :: "'w env_reconciler \<Rightarrow> floxenv \<Rightarrow> realize_result \<Rightarrow> node_realization" where
  "node_entry R env res =
    \<lparr> nr_node = er_node_name R, nr_ready = True, nr_store_path = rs_store_path res,
      nr_env_path = rs_env_path res, nr_gcroot_path = rs_gcroot_path res,
      nr_observed = fe_generation env \<rparr>"

lemma record_realized_fields:
  "st_realized (fe_status (record_realized L R relock res env)) =
     upsert_list (node_entry R env res) (st_realized (fe_status env))"
  "st_lock (fe_status (record_realized L R relock res env)) =
     (if rs_lock res = [] then st_lock (fe_status env) else rs_lock res)"
  "st_relock_token (fe_status (record_realized L R relock res env)) = relock"
  "fe_meta (record_realized L R relock res env) = fe_meta env"
  "fe_spec (record_realized L R relock res env) = fe_spec env"
  by (simp_all add: record_realized_def upsertRealization_def node_entry_def Let_def)

lemma marked_Inl: "marked_env L R env (Inl e) = with_ready L env ConditionFalse ''Realizing'' (''realising the env closure on '' @ er_node_name R)"
  by (simp add: marked_env_def)

text \<open>Every status write of a reconcile: a Ready=False one, or the success write after its realise.\<close>

definition success_at :: "libs \<Rightarrow> 'w env_reconciler \<Rightarrow> objkey \<Rightarrow> floxenv \<Rightarrow> floxenv \<Rightarrow> (go_error + floxenv) \<Rightarrow> event list \<Rightarrow> bool" where
  "success_at L R req base new r evs \<longleftrightarrow>
     (\<exists>env pre rolls q res.
        hd evs = GetFloxEnv req (Inr env) \<and>
        evs = pre @ Realize (realize_timeout R) q (Inr res) # rolls @ [PatchFloxEnvStatus base new r, ReleaseSlot] \<and>
        roll_outcome base (st_lock (fe_status env)) res None rolls \<and>
        new = record_realized L R (relock_of env) res base)"

lemma slot_body_writes:
  assumes "slot_body L R env folder consumption toml relock lock previousLock out body"
    and "PatchFloxEnvStatus base new r \<in> set body"
  shows "not_ready_write L base new \<or> (\<exists>pre rolls q res.
    body = pre @ Realize (realize_timeout R) q (Inr res) # rolls @ [PatchFloxEnvStatus base new r] \<and>
    roll_outcome base previousLock res None rolls \<and> new = record_realized L R relock res base)"
proof (rule slot_body_cases [OF assms(1)])
  fix r0 q answer rest
  assume b: "body = PatchFloxEnvStatus env (marked_env L R env (Inl (OtherErr []))) r0 # Realize (realize_timeout R) q answer # rest"
    and failed: "\<And>e. answer = Inl e \<Longrightarrow> failed_write L (marked_env L R env r0) ''RealizeFailed'' e out rest"
    and after: "\<And>res. answer = Inr res \<Longrightarrow>
      after_realize L R (marked_env L R env r0) relock previousLock res out rest"
  consider "base = env" "new = marked_env L R env (Inl (OtherErr []))" | "PatchFloxEnvStatus base new r \<in> set rest"
    using assms(2) unfolding b by auto
  then show ?thesis
  proof cases
    case 2
    show ?thesis
    proof (cases answer)
      case (Inl e)
      then show ?thesis using failed 2 by (auto simp: failed_write_def)
    next
      case (Inr res)
      from after_realize_write [OF after [OF Inr] 2] show ?thesis
        unfolding b Inr
        by (metis append_Cons append_Nil)
    qed
  qed (simp add: marked_Inl)
qed

lemma reconcile_writes:
  assumes "PatchFloxEnvStatus base new r \<in> set (trace_of (FloxEnv_Reconcile L R req) w)"
  shows "not_ready_write L base new \<or> success_at L R req base new r (trace_of (FloxEnv_Reconcile L R req) w)"
proof (rule reconcile_cases [OF reconcile_run [of L R req w]])
  assume "quiet L (trace_of (FloxEnv_Reconcile L R req) w)"
  then show ?thesis using assms by (auto simp: quiet_def)
next
  let ?evs = "trace_of (FloxEnv_Reconcile L R req) w"
  fix env toml creads dreads body
  assume evs: "?evs = GetFloxEnv req (Inr env) # creads @ dreads @ AcquireSlot None # body @ [ReleaseSlot]"
    and pass: "slot_pass L R env toml creads dreads"
    and body: "slot_body L R env (effectiveFolder env) (consumption_of env) toml (relock_of env)
         (lock_to_use env) (st_lock (fe_status env)) (outcome_of (FloxEnv_Reconcile L R req) w) body"
  have "PatchFloxEnvStatus base new r \<notin> set creads" "PatchFloxEnvStatus base new r \<notin> set dreads"
    using pass by (auto simp: slot_pass_def catalog_reads_def env_reads_def)
  then have "PatchFloxEnvStatus base new r \<in> set body"
    using assms by (auto simp: evs)
  from slot_body_writes [OF body this] show ?thesis
  proof (elim disjE exE conjE)
    fix pre rolls q res
    assume "body = pre @ Realize (realize_timeout R) q (Inr res) # rolls @ [PatchFloxEnvStatus base new r]"
      "roll_outcome base (st_lock (fe_status env)) res None rolls"
      "new = record_realized L R (relock_of env) res base"
    then show ?thesis
      unfolding success_at_def evs
      by (intro disjI2 exI [of _ env] exI [of _ "GetFloxEnv req (Inr env) # creads @ dreads @ AcquireSlot None # pre"]
          exI [of _ rolls] exI [of _ q] exI [of _ res]) simp
  qed simp
qed

text \<open>A pass that realises: everything around its one realise.\<close>

definition realise_pass ::
  "libs \<Rightarrow> 'w env_reconciler \<Rightarrow> objkey \<Rightarrow> floxenv \<Rightarrow> event list \<Rightarrow> int \<Rightarrow> realize_request \<Rightarrow>
     (go_error + realize_result) \<Rightarrow> outcome \<Rightarrow> event list \<Rightarrow> bool" where
  "realise_pass L R req env reads t q answer out evs \<longleftrightarrow>
     (\<exists>toml r0 rest.
        evs = GetFloxEnv req (Inr env) # reads @ AcquireSlot None #
          PatchFloxEnvStatus env (marked_env L R env (Inl (OtherErr []))) r0 # Realize t q answer # rest @ [ReleaseSlot] \<and>
        (\<exists>creads dreads. reads = creads @ dreads \<and> slot_pass L R env toml creads dreads) \<and>
        t = realize_timeout R \<and>
        q = \<lparr> rr_ref = EnvRef (effectiveFolder env) (fe_name (marked_env L R env r0)), rr_manifest_toml = toml,
              rr_lock = lock_to_use env, rr_consumption = consumption_of env \<rparr> \<and>
        (case answer of
           Inl e \<Rightarrow> failed_write L (marked_env L R env r0) ''RealizeFailed'' e out rest
         | Inr res \<Rightarrow> after_realize L R (marked_env L R env r0) (relock_of env) (st_lock (fe_status env)) res out rest))"

lemma after_realize_no_slot:
  assumes "after_realize L R env relock previousLock res out rest" and "ev \<in> set rest"
  shows "(\<exists>base new r. ev = PatchFloxEnvStatus base new r) \<or> (\<exists>kd r. ev = ListWorkloads kd r) \<or>
    (\<exists>wl wl' r. ev = PatchWorkload wl wl' r)"
  using assms unfolding after_realize_def roll_outcome_def roll_events_def
  by (fastforce simp: failed_write_def success_write_def split: option.splits if_splits)

lemma slot_or_quiet:
  obtains (quiet) "quiet L (trace_of (FloxEnv_Reconcile L R req) w)"
  | (slot) env reads t q answer where
      "realise_pass L R req env reads t q answer (outcome_of (FloxEnv_Reconcile L R req) w)
         (trace_of (FloxEnv_Reconcile L R req) w)"
proof (rule reconcile_cases [OF reconcile_run [of L R req w]])
  let ?evs = "trace_of (FloxEnv_Reconcile L R req) w" and ?out = "outcome_of (FloxEnv_Reconcile L R req) w"
  fix env toml creads dreads body
  assume evs: "?evs = GetFloxEnv req (Inr env) # creads @ dreads @ AcquireSlot None # body @ [ReleaseSlot]"
    and pass: "slot_pass L R env toml creads dreads"
    and "slot_body L R env (effectiveFolder env) (consumption_of env) toml (relock_of env)
         (lock_to_use env) (st_lock (fe_status env)) ?out body"
  then obtain r0 answer rest where body:
    "body = PatchFloxEnvStatus env (marked_env L R env (Inl (OtherErr []))) r0 # Realize (realize_timeout R)
       \<lparr> rr_ref = EnvRef (effectiveFolder env) (fe_name (marked_env L R env r0)), rr_manifest_toml = toml,
         rr_lock = lock_to_use env, rr_consumption = consumption_of env \<rparr> answer # rest"
    "case answer of Inl e \<Rightarrow> failed_write L (marked_env L R env r0) ''RealizeFailed'' e ?out rest
      | Inr res \<Rightarrow> after_realize L R (marked_env L R env r0) (relock_of env) (st_lock (fe_status env)) res ?out rest"
    unfolding slot_body_def by blast
  have "realise_pass L R req env (creads @ dreads) (realize_timeout R)
      \<lparr> rr_ref = EnvRef (effectiveFolder env) (fe_name (marked_env L R env r0)), rr_manifest_toml = toml,
        rr_lock = lock_to_use env, rr_consumption = consumption_of env \<rparr> answer ?out ?evs"
    unfolding realise_pass_def
    by (rule exI [of _ toml], rule exI [of _ r0], rule exI [of _ rest]) (use evs pass body in auto)
  then show thesis by (rule slot)
qed

definition read_event :: "event \<Rightarrow> bool" where
  "read_event ev \<longleftrightarrow> (\<exists>k r. ev = GetFloxCatalog k r) \<or> (\<exists>k r. ev = GetFloxEnv k r)"

definition ending_event :: "event \<Rightarrow> bool" where
  "ending_event ev \<longleftrightarrow> (\<exists>base new r. ev = PatchFloxEnvStatus base new r) \<or>
     (\<exists>kd r. ev = ListWorkloads kd r) \<or> (\<exists>wl wl' r. ev = PatchWorkload wl wl' r)"

lemma realise_pass_events:
  assumes "realise_pass L R req env reads t q answer out evs"
  obtains r0 rest where
    "evs = GetFloxEnv req (Inr env) # reads @ AcquireSlot None #
          PatchFloxEnvStatus env (marked_env L R env (Inl (OtherErr []))) r0 # Realize t q answer # rest @ [ReleaseSlot]"
    "\<forall>ev \<in> set reads. read_event ev" "\<forall>ev \<in> set rest. ending_event ev"
    "case answer of
       Inl e \<Rightarrow> failed_write L (marked_env L R env r0) ''RealizeFailed'' e out rest
     | Inr res \<Rightarrow> after_realize L R (marked_env L R env r0) (relock_of env) (st_lock (fe_status env)) res out rest"
proof -
  from assms obtain toml r0 rest creads dreads where *:
    "evs = GetFloxEnv req (Inr env) # reads @ AcquireSlot None #
          PatchFloxEnvStatus env (marked_env L R env (Inl (OtherErr []))) r0 # Realize t q answer # rest @ [ReleaseSlot]"
    "reads = creads @ dreads" "catalog_reads creads" "env_reads dreads"
    "case answer of Inl e \<Rightarrow> failed_write L (marked_env L R env r0) ''RealizeFailed'' e out rest
      | Inr res \<Rightarrow> after_realize L R (marked_env L R env r0) (relock_of env) (st_lock (fe_status env)) res out rest"
    unfolding realise_pass_def slot_pass_def by blast
  show ?thesis
  proof (rule that [OF *(1) _ _ *(5)])
    show "\<forall>ev \<in> set reads. read_event ev"
      using * by (auto simp: catalog_reads_def env_reads_def read_event_def)
    show "\<forall>ev \<in> set rest. ending_event ev"
      using *(5) unfolding ending_event_def
      by (cases answer) (auto simp: failed_write_def dest: after_realize_no_slot)
  qed
qed

text \<open>A trace with a realise is one of a realising pass.\<close>

lemma realise_pass_of_event:
  assumes "Realize t q answer \<in> set (trace_of (FloxEnv_Reconcile L R req) w)"
  obtains env reads where
    "realise_pass L R req env reads t q answer (outcome_of (FloxEnv_Reconcile L R req) w)
       (trace_of (FloxEnv_Reconcile L R req) w)"
proof (cases rule: slot_or_quiet [of L R req w])
  case quiet
  then show ?thesis using assms by (auto simp: quiet_def)
next
  case (slot env reads t' q' answer')
  obtain r0 rest where evs: "trace_of (FloxEnv_Reconcile L R req) w = GetFloxEnv req (Inr env) # reads @ AcquireSlot None #
      PatchFloxEnvStatus env (marked_env L R env (Inl (OtherErr []))) r0 # Realize t' q' answer' # rest @ [ReleaseSlot]"
    and reads: "\<forall>ev \<in> set reads. read_event ev" and rest: "\<forall>ev \<in> set rest. ending_event ev"
    by (rule realise_pass_events [OF slot])
  have "Realize t q answer \<notin> set reads" "Realize t q answer \<notin> set rest"
    using reads rest by (auto simp: read_event_def ending_event_def)
  then have "t = t' \<and> q = q' \<and> answer = answer'" using assms unfolding evs by auto
  with slot show ?thesis using that by simp
qed

end
