(* ===== verification/Examples.thy ===== *)
theory Examples
  imports FloxEnvController
begin

text \<open>
  A concrete world for witnesses and counterexamples: an object store with the API server's reads
  and writes, in which a status write is a merge patch (\<open>merge_env\<close>), a node whose realises succeed,
  and free slots. Nothing outside the witnesses depends on it.
\<close>

record store =
  so_envs :: "floxenv list"
  so_catalogs :: "floxcatalog list"
  so_workloads :: "workload list"
  so_pods :: "pod list"

definition not_found :: "go_error" where
  "not_found = NotFoundErr ''not found''"

definition find_or :: "('a \<Rightarrow> bool) \<Rightarrow> 'a list \<Rightarrow> go_error + 'a" where
  "find_or p xs = (case List.find p xs of None \<Rightarrow> Inl not_found | Some x \<Rightarrow> Inr x)"

fun patch_in :: "('a \<Rightarrow> bool) \<Rightarrow> ('a \<Rightarrow> 'a) \<Rightarrow> 'a list \<Rightarrow> 'a list" where
  "patch_in p f [] = []"
| "patch_in p f (x # xs) = (if p x then f x # xs else x # patch_in p f xs)"

definition edit_env :: "objkey \<Rightarrow> (floxenv \<Rightarrow> floxenv) \<Rightarrow> store \<Rightarrow> store" where
  "edit_env k f w = w\<lparr> so_envs := patch_in (\<lambda>e. env_key e = k) f (so_envs w) \<rparr>"

definition store_get_env :: "objkey \<Rightarrow> store \<Rightarrow> go_error + floxenv" where
  "store_get_env k w = find_or (\<lambda>e. env_key e = k) (so_envs w)"

definition in_namespace :: "string option \<Rightarrow> string \<Rightarrow> bool" where
  "in_namespace ns n = (case ns of None \<Rightarrow> True | Some m \<Rightarrow> m = n)"

definition store_client :: "store client" where
  "store_client =
    \<lparr> cl_get_env = (\<lambda>k w. (store_get_env k w, w)),
      cl_get_catalog = (\<lambda>k w. (find_or (\<lambda>c. ObjKey (om_namespace (fc_meta c)) (om_name (fc_meta c)) = k) (so_catalogs w), w)),
      cl_get_source = (\<lambda>k w. (Inl not_found, w)),
      cl_get_pod = (\<lambda>k w. (find_or (\<lambda>p. ObjKey (om_namespace (pd_meta p)) (om_name (pd_meta p)) = k) (so_pods w), w)),
      cl_list_envs = (\<lambda>ns w. (Inr (filter (\<lambda>e. in_namespace ns (fe_namespace e)) (so_envs w)), w)),
      cl_list_catalogs = (\<lambda>ns w. (Inr (filter (\<lambda>c. in_namespace ns (om_namespace (fc_meta c))) (so_catalogs w)), w)),
      cl_list_pods = (\<lambda>w. (Inr (so_pods w), w)),
      cl_list_workloads = (\<lambda>kd w. (Inr (filter (\<lambda>x. wl_kind x = kd) (so_workloads w)), w)),
      cl_patch_env_status = (\<lambda>base new w.
        (let w' = edit_env (env_key new) (merge_env base new) w in (store_get_env (env_key new) w', w'))),
      cl_patch_env = (\<lambda>base new w. (None, edit_env (env_key new) (\<lambda>_. new) w)),
      cl_update_env = (\<lambda>new w. (None, edit_env (env_key new) (\<lambda>_. new) w)),
      cl_create_env = (\<lambda>new w. (None, w\<lparr> so_envs := so_envs w @ [new] \<rparr>)),
      cl_patch_catalog_status = (\<lambda>base new w. (Inr new, w)),
      cl_patch_workload = (\<lambda>base new w.
        (None, w\<lparr> so_workloads := patch_in (\<lambda>x. wl_key x = wl_key new \<and> wl_kind x = wl_kind new) (\<lambda>_. new) (so_workloads w) \<rparr>)),
      cl_update_pod = (\<lambda>p w. (None, w\<lparr> so_pods := patch_in
        (\<lambda>x. om_name (pd_meta x) = om_name (pd_meta p) \<and> om_namespace (pd_meta x) = om_namespace (pd_meta p)) (\<lambda>_. p) (so_pods w) \<rparr>)),
      cl_create_claim = (\<lambda>v w. (None, w)),
      cl_lookup_host = (\<lambda>h w. (Inr [''10.0.0.1''], w)) \<rparr>"

subsection \<open>Libraries and agents\<close>

text \<open>A manifest is written here as its own text; the decoder wraps it and the encoder unwraps it.\<close>

definition store_libs :: libs where
  "store_libs =
    \<lparr> lib_meta = list_meta,
      json_Unmarshal = (\<lambda>s. Inr [(''body'', JString s)]),
      toml_Marshal = (\<lambda>m. Inr (case map_of m ''body'' of Some (JString s) \<Rightarrow> s | _ \<Rightarrow> [])),
      strconv_Quote = (\<lambda>s. s) \<rparr>"

definition store_result :: realize_result where
  "store_result = \<lparr> rs_store_path = ''/nix/store/a'', rs_env_path = ''/envs/web'',
     rs_gcroot_path = ''/gc/web'', rs_lock = ''L1'' \<rparr>"

definition store_agent :: "string \<Rightarrow> store env_reconciler" where
  "store_agent node =
    \<lparr> er_client = store_client, er_node_name = node,
      er_provisioner = (\<lambda>t q w. (Inr store_result, w)),
      er_realize_timeout = 0, er_realize_slots = 0,
      er_wait_slot = (\<lambda>w. (None, w)), er_free_slot = (\<lambda>w. ((), w)) \<rparr>"

lemmas store_defs [go_defs] =
  store_client_def store_libs_def store_agent_def store_result_def list_meta_def edit_env_def
  store_get_env_def env_key_def find_or_def merge_env_def merge_status_def merge_field_def
  in_namespace_def not_found_def

subsection \<open>Objects\<close>

definition plain_meta :: "string \<Rightarrow> object_meta" where
  "plain_meta name = \<lparr> om_name = name, om_namespace = ''ns'', om_generation = 1, om_annotations = [],
     om_labels = [] \<rparr>"

definition ready_condition :: "condition_status \<Rightarrow> string \<Rightarrow> condition" where
  "ready_condition status reason =
     \<lparr> c_type = ''Ready'', c_status = status, c_reason = reason, c_message = [], c_observed = 1 \<rparr>"

definition sample_env :: "string \<Rightarrow> floxenv" where
  "sample_env name =
    \<lparr> fe_meta = plain_meta name,
      fe_spec = \<lparr> sp_consumption = [], sp_manifest = Some ''M1'', sp_update = None, sp_folder = [],
        sp_depends_on = [], sp_inject = [] \<rparr>,
      fe_status = \<lparr> st_lock = [], st_relock_token = [], st_resolved = [], st_realized = [],
        st_conditions = [ready_condition ConditionFalse ''Pending''] \<rparr> \<rparr>"

definition sample_workload :: workload where
  "sample_workload = \<lparr> wl_kind = Deployment, wl_key = ObjKey ''app'' ''web'',
     wl_template_annotations = [(''flox.seedmatic.io/environment.app'', ''ns/web'')] \<rparr>"

definition sample_store :: store where
  "sample_store = \<lparr> so_envs = [sample_env ''web''], so_catalogs = [], so_workloads = [sample_workload],
     so_pods = [] \<rparr>"

text \<open>An env pinned to the lock the node answers: realising it again moves nothing.\<close>

definition pinned_env :: "string \<Rightarrow> floxenv" where
  "pinned_env name = (sample_env name)\<lparr> fe_status := (fe_status (sample_env name))\<lparr> st_lock := ''L1'' \<rparr> \<rparr>"

definition store_of :: "floxenv list \<Rightarrow> store" where
  "store_of envs = \<lparr> so_envs = envs, so_catalogs = [], so_workloads = [sample_workload], so_pods = [] \<rparr>"

definition tools_catalog :: floxcatalog where
  "tools_catalog =
    \<lparr> fc_meta = plain_meta ''tools'',
      fc_spec = \<lparr> cs_source_ref = \<lparr> sr_kind = ''GitRepository'', sr_name = ''src'', sr_namespace = [] \<rparr>, cs_dir = [] \<rparr>,
      fc_status = \<lparr> ct_revision = ''r1'', ct_artifact_url = ''http://src/a.tgz'',
        ct_flake_ref = ''tarball+http://10.0.0.1/a.tgz'', ct_envs_summary = [], ct_envs = [], ct_conditions = [] \<rparr> \<rparr>"

definition catalog_store :: store where
  "catalog_store = \<lparr> so_envs = [], so_catalogs = [tools_catalog], so_workloads = [], so_pods = [] \<rparr>"

definition install_of :: "string \<Rightarrow> jobject" where
  "install_of ref = [(''install'', JObject [(''jq'', JObject [(''flake'', JString ref)])])]"

abbreviation web :: objkey where "web \<equiv> ObjKey ''ns'' ''web''"

lemmas object_defs [go_defs] =
  plain_meta_def ready_condition_def sample_env_def sample_workload_def sample_store_def
  pinned_env_def store_of_def tools_catalog_def catalog_store_def install_of_def

lemmas reconcile_defs [go_defs] =
  FloxEnv_Reconcile_def realize_when_deps_ready_def with_slot_def realize_in_slot_def
  markRealizing_def markPending_def fail_def waitForFlake_def waitForDeps_def unmetDeps_def
  parseManifest_def manifestToTOML_def resolveFlakeInstalls_def alreadyRealized_def
  record_realized_def with_ready_def upsertRealization_def map_get_def done_result_def Let_def

end
