(* ===== verification/FloxEnvProperties.thy ===== *)
theory FloxEnvProperties
  imports FloxEnvPasses Examples
begin

text \<open>
  What the FloxEnv reconcile promises. Every property speaks of one run from an arbitrary state of
  the outside (\<open>trace_of\<close>, \<open>outcome_of\<close>), so it holds whatever the API server, the other
  controllers and the node answer and in whatever order they act. The witnesses run the reconcile
  in the concrete world of \<open>Examples\<close>.
\<close>

subsection \<open>The runs of the witnesses\<close>

abbreviation agent :: "store env_reconciler" where "agent \<equiv> store_agent ''n1''"

definition marked_web :: floxenv where
  "marked_web = with_ready store_libs (pinned_env ''web'') ConditionFalse ''Realizing''
     ''realising the env closure on n1''"

definition realized_web :: floxenv where
  "realized_web = record_realized store_libs agent [] store_result marked_web"

definition web_request :: realize_request where
  "web_request = \<lparr> rr_ref = EnvRef ''ns'' ''web'', rr_manifest_toml = ''M1'', rr_lock = ''L1'',
     rr_consumption = ''overlay'' \<rparr>"

lemmas web_defs = marked_web_def realized_web_def web_request_def

lemma pinned_run:
  "run_state (FloxEnv_Reconcile store_libs agent web) (start (store_of [pinned_env ''web''])) =
     ((done_result, None),
      \<lparr> world = store_of [realized_web],
        trace = [GetFloxEnv web (Inr (pinned_env ''web'')), AcquireSlot None,
          PatchFloxEnvStatus (pinned_env ''web'') marked_web (Inr marked_web),
          Realize (30 * minute) web_request (Inr store_result),
          PatchFloxEnvStatus marked_web realized_web (Inr realized_web), ReleaseSlot] \<rparr>)"
  by (simp add: go_defs web_defs realize_timeout_def defaultRealizeTimeout_def)

lemma pinned_trace:
  "trace_of (FloxEnv_Reconcile store_libs agent web) (store_of [pinned_env ''web'']) =
     [GetFloxEnv web (Inr (pinned_env ''web'')), AcquireSlot None,
      PatchFloxEnvStatus (pinned_env ''web'') marked_web (Inr marked_web),
      Realize (30 * minute) web_request (Inr store_result),
      PatchFloxEnvStatus marked_web realized_web (Inr realized_web), ReleaseSlot]"
  by (simp add: trace_of_def pinned_run)

text \<open>An agent whose realises fail, and a first realise, whose lock makes the consumer roll.\<close>

definition failing_agent :: "store env_reconciler" where
  "failing_agent = agent\<lparr> er_provisioner := (\<lambda>t q w. (Inl (OtherErr ''boom''), w)) \<rparr>"

lemma failing_trace:
  "trace_of (FloxEnv_Reconcile store_libs failing_agent web) (store_of [pinned_env ''web'']) =
     [GetFloxEnv web (Inr (pinned_env ''web'')), AcquireSlot None,
      PatchFloxEnvStatus (pinned_env ''web'') marked_web (Inr marked_web),
      Realize (30 * minute) web_request (Inl (OtherErr ''boom'')),
      PatchFloxEnvStatus marked_web (with_ready store_libs marked_web ConditionFalse ''RealizeFailed'' ''boom'')
        (Inr (with_ready store_libs marked_web ConditionFalse ''RealizeFailed'' ''boom'')), ReleaseSlot]"
  by (simp add: go_defs web_defs failing_agent_def realize_timeout_def defaultRealizeTimeout_def)

definition marked_fresh :: floxenv where
  "marked_fresh = with_ready store_libs (sample_env ''web'') ConditionFalse ''Realizing''
     ''realising the env closure on n1''"

definition realized_fresh :: floxenv where
  "realized_fresh = record_realized store_libs agent [] store_result marked_fresh"

lemma lockDigest_not_Nil [simp]: "lockDigest s \<noteq> []" "[] \<noteq> lockDigest s"
proof -
  have "length (lockDigest s) = 12" by (simp add: lockDigest_def)
  then show "lockDigest s \<noteq> []" "[] \<noteq> lockDigest s" by auto
qed

lemma fresh_trace:
  "trace_of (FloxEnv_Reconcile store_libs agent web) sample_store =
     [GetFloxEnv web (Inr (sample_env ''web'')), AcquireSlot None,
      PatchFloxEnvStatus (sample_env ''web'') marked_fresh (Inr marked_fresh),
      Realize (30 * minute) (web_request\<lparr> rr_lock := [] \<rparr>) (Inr store_result),
      ListWorkloads Deployment (Inr [sample_workload]), ListWorkloads DaemonSet (Inr []),
      ListWorkloads StatefulSet (Inr []),
      PatchWorkload sample_workload (stamped (lockDigest ''L1'') sample_workload) None,
      PatchFloxEnvStatus marked_fresh realized_fresh (Inr realized_fresh), ReleaseSlot]"
  by (simp add: go_defs marked_fresh_def realized_fresh_def web_request_def realize_timeout_def
      defaultRealizeTimeout_def restartConsumers_def stampConsumer_def stamped_def env_target_def effectiveFolder_def
      restartMarker_def
      RefsFromAnnotations_def ref_of_value_def AnnotationPrefix_def HasPrefix_def errors_Join_def)

lemma store_meta_laws: "meta_laws (lib_meta store_libs)"
  by (simp add: store_libs_def meta_laws_list)

subsection \<open>Ready\<close>

text \<open>
  C1: The agent declares an env Ready only on a realise of this very pass that succeeded. The
  write comes last, after the realise and after the roll its lock called for; it carries, for this
  node, the paths the realise answered and the generation of the object it is written on, pins the
  lock the realise answered (or keeps the pin), and is followed only by the release of the slot.
\<close>

theorem ready_means_realized:
  assumes "meta_laws (lib_meta L)"
    and "PatchFloxEnvStatus base new r \<in> set (trace_of (FloxEnv_Reconcile L R req) w)"
    and "IsStatusConditionTrue (lib_meta L) (fe_conditions new) ''Ready''"
  shows "\<exists>pre q res rolls.
    trace_of (FloxEnv_Reconcile L R req) w =
      pre @ Realize (realize_timeout R) q (Inr res) # rolls @ [PatchFloxEnvStatus base new r, ReleaseSlot] \<and>
    lookup_by nr_node (er_node_name R) (st_realized (fe_status new)) =
      Some \<lparr> nr_node = er_node_name R, nr_ready = True, nr_store_path = rs_store_path res,
        nr_env_path = rs_env_path res, nr_gcroot_path = rs_gcroot_path res,
        nr_observed = fe_generation base \<rparr> \<and>
    st_lock (fe_status new) = (if rs_lock res = [] then st_lock (fe_status base) else rs_lock res)"
proof -
  have "success_at L R req base new r (trace_of (FloxEnv_Reconcile L R req) w)"
    using reconcile_writes [OF assms(2)] not_ready_not_true [OF assms(1)] assms(3) by blast
  then obtain env pre rolls q res where
    "trace_of (FloxEnv_Reconcile L R req) w =
      pre @ Realize (realize_timeout R) q (Inr res) # rolls @ [PatchFloxEnvStatus base new r, ReleaseSlot]"
    and new: "new = record_realized L R (relock_of env) res base"
    unfolding success_at_def by blast
  moreover have "lookup_by nr_node (er_node_name R) (st_realized (fe_status new)) = Some (node_entry R base res)"
    using realized.ups_same [of "node_entry R base res"] by (simp add: new record_realized_fields node_entry_def)
  moreover have "st_lock (fe_status new) = (if rs_lock res = [] then st_lock (fe_status base) else rs_lock res)"
    by (simp add: new record_realized_fields)
  ultimately show ?thesis unfolding node_entry_def by blast
qed

theorem ready_means_realized_witness:
  "\<exists>pre q res rolls.
    trace_of (FloxEnv_Reconcile store_libs agent web) (store_of [pinned_env ''web'']) =
      pre @ Realize (realize_timeout agent) q (Inr res) # rolls @
        [PatchFloxEnvStatus marked_web realized_web (Inr realized_web), ReleaseSlot] \<and>
    lookup_by nr_node (er_node_name agent) (st_realized (fe_status realized_web)) =
      Some \<lparr> nr_node = er_node_name agent, nr_ready = True, nr_store_path = rs_store_path res,
        nr_env_path = rs_env_path res, nr_gcroot_path = rs_gcroot_path res,
        nr_observed = fe_generation marked_web \<rparr> \<and>
    st_lock (fe_status realized_web) = (if rs_lock res = [] then st_lock (fe_status marked_web) else rs_lock res)"
proof (rule ready_means_realized [OF store_meta_laws])
  show "PatchFloxEnvStatus marked_web realized_web (Inr realized_web)
      \<in> set (trace_of (FloxEnv_Reconcile store_libs agent web) (store_of [pinned_env ''web'']))"
    by (simp add: pinned_trace)
  show "IsStatusConditionTrue (lib_meta store_libs) (fe_conditions realized_web) ''Ready''"
    by (simp add: web_defs go_defs)
qed

subsection \<open>The realise\<close>

text \<open>
  C9: What the node is asked to realise is what the object read at the start of the pass says:
  its manifest with every catalog reference resolved from the catalogs read before, serialised;
  its folder (the namespace by default); its consumption (overlay by default); the pinned lock, or
  no lock when a relock is asked for that was not honoured yet. The timeout is positive.
\<close>

theorem realise_request_of_env:
  assumes "Realize t q answer \<in> set (trace_of (FloxEnv_Reconcile L R req) w)"
  shows "\<exists>env manifest resolved pre post.
    trace_of (FloxEnv_Reconcile L R req) w = GetFloxEnv req (Inr env) # pre @ Realize t q answer # post \<and>
    parseManifest L (sp_manifest (fe_spec env)) = Inr manifest \<and>
    manifest_resolved L (fe_namespace env) pre manifest resolved \<and>
    manifestToTOML L resolved = Inr (rr_manifest_toml q) \<and>
    ref_folder (rr_ref q) = (if sp_folder (fe_spec env) = [] then fe_namespace env else sp_folder (fe_spec env)) \<and>
    rr_consumption q = (if sp_consumption (fe_spec env) = [] then ''overlay'' else sp_consumption (fe_spec env)) \<and>
    rr_lock q = (if map_get (fe_annotations env) relockAnnotation = st_relock_token (fe_status env)
      then st_lock (fe_status env) else []) \<and>
    0 < t \<and> t = realize_timeout R"
proof -
  from assms obtain env reads where
    "realise_pass L R req env reads t q answer (outcome_of (FloxEnv_Reconcile L R req) w)
       (trace_of (FloxEnv_Reconcile L R req) w)" (is "realise_pass _ _ _ _ _ _ _ _ _ ?evs")
    by (rule realise_pass_of_event)
  then obtain toml r0 rest creads dreads pre where
      evs: "?evs = GetFloxEnv req (Inr env) # pre @ Realize t q answer # (rest @ [ReleaseSlot])"
    and pre: "pre = creads @ dreads @ [AcquireSlot None, PatchFloxEnvStatus env (marked_env L R env (Inl (OtherErr []))) r0]"
    and p: "slot_pass L R env toml creads dreads" "t = realize_timeout R"
      "q = \<lparr> rr_ref = EnvRef (effectiveFolder env) (fe_name (marked_env L R env r0)), rr_manifest_toml = toml,
         rr_lock = lock_to_use env, rr_consumption = consumption_of env \<rparr>"
    unfolding realise_pass_def by auto
  then obtain manifest resolved where m: "parseManifest L (sp_manifest (fe_spec env)) = Inr manifest"
      "manifest_resolved L (fe_namespace env) creads manifest resolved" "manifestToTOML L resolved = Inr toml"
    unfolding slot_pass_def by blast
  have "manifest_resolved L (fe_namespace env) pre manifest resolved"
    by (rule manifest_resolved_mono [OF m(2)]) (auto simp: pre)
  moreover have "0 < t" by (simp add: p(2) realize_timeout_def defaultRealizeTimeout_def minute_def second_def)
  moreover have "rr_manifest_toml q = toml" "ref_folder (rr_ref q) = effectiveFolder env" "rr_consumption q = consumption_of env"
      "rr_lock q = lock_to_use env"
    by (simp_all add: p(3))
  ultimately show ?thesis
    using evs p(2) m(1,3)
    by (intro exI [of _ env] exI [of _ manifest] exI [of _ resolved] exI [of _ pre] exI [of _ "rest @ [ReleaseSlot]"])
      (simp add: effectiveFolder_def consumption_of_def lock_to_use_def relock_of_def)
qed

theorem realise_request_of_env_witness:
  "\<exists>env manifest resolved pre post.
    trace_of (FloxEnv_Reconcile store_libs agent web) (store_of [pinned_env ''web'']) =
      GetFloxEnv web (Inr env) # pre @ Realize (30 * minute) web_request (Inr store_result) # post \<and>
    parseManifest store_libs (sp_manifest (fe_spec env)) = Inr manifest \<and>
    manifest_resolved store_libs (fe_namespace env) pre manifest resolved \<and>
    manifestToTOML store_libs resolved = Inr (rr_manifest_toml web_request) \<and>
    ref_folder (rr_ref web_request) =
      (if sp_folder (fe_spec env) = [] then fe_namespace env else sp_folder (fe_spec env)) \<and>
    rr_consumption web_request = (if sp_consumption (fe_spec env) = [] then ''overlay'' else sp_consumption (fe_spec env)) \<and>
    rr_lock web_request = (if map_get (fe_annotations env) relockAnnotation = st_relock_token (fe_status env)
      then st_lock (fe_status env) else []) \<and>
    0 < 30 * minute \<and> 30 * minute = realize_timeout agent"
  by (rule realise_request_of_env) (simp add: pinned_trace)

text \<open>
  C13: Nothing is realised before every FloxEnv the object depends on was read in this pass, in the
  object's own namespace, and answered with a true Ready condition.
\<close>

theorem no_realise_before_deps:
  assumes "Realize t q answer \<in> set (trace_of (FloxEnv_Reconcile L R req) w)"
  shows "\<exists>env pre post.
    trace_of (FloxEnv_Reconcile L R req) w = GetFloxEnv req (Inr env) # pre @ Realize t q answer # post \<and>
    (\<forall>name \<in> set (sp_depends_on (fe_spec env)). \<exists>dep.
       GetFloxEnv (ObjKey (fe_namespace env) name) (Inr dep) \<in> set pre \<and>
       IsStatusConditionTrue (lib_meta L) (fe_conditions dep) ''Ready'')"
proof -
  from assms obtain env reads where
    "realise_pass L R req env reads t q answer (outcome_of (FloxEnv_Reconcile L R req) w)
       (trace_of (FloxEnv_Reconcile L R req) w)" (is "realise_pass _ _ _ _ _ _ _ _ _ ?evs")
    by (rule realise_pass_of_event)
  then obtain toml r0 rest creads dreads where
      "?evs = GetFloxEnv req (Inr env) # (creads @ dreads @ [AcquireSlot None,
         PatchFloxEnvStatus env (marked_env L R env (Inl (OtherErr []))) r0]) @ Realize t q answer # (rest @ [ReleaseSlot])"
    and "deps_answered_ready L env dreads"
    unfolding realise_pass_def slot_pass_def by auto
  then show ?thesis unfolding deps_answered_ready_def by fastforce
qed

theorem no_realise_before_deps_witness:
  "\<exists>env pre post.
    trace_of (FloxEnv_Reconcile store_libs agent web) (store_of [pinned_env ''web'']) =
      GetFloxEnv web (Inr env) # pre @ Realize (30 * minute) web_request (Inr store_result) # post \<and>
    (\<forall>name \<in> set (sp_depends_on (fe_spec env)). \<exists>dep.
       GetFloxEnv (ObjKey (fe_namespace env) name) (Inr dep) \<in> set pre \<and>
       IsStatusConditionTrue (lib_meta store_libs) (fe_conditions dep) ''Ready'')"
  by (rule no_realise_before_deps) (simp add: pinned_trace)

text \<open>An event that neither takes nor frees a slot and is no realise.\<close>

fun unslotted :: "event \<Rightarrow> bool" where
  "unslotted (AcquireSlot None) = False"
| "unslotted ReleaseSlot = False"
| "unslotted (Realize t q a) = False"
| "unslotted ev = True"

lemma quiet_event_unslotted: "quiet_event L ev \<Longrightarrow> unslotted ev"
  by (cases ev rule: unslotted.cases) simp_all

lemma quiet_unslotted: "quiet L evs \<Longrightarrow> list_all unslotted evs"
  by (auto simp: quiet_def list_all_iff intro: quiet_event_unslotted)

lemma read_unslotted: "read_event ev \<Longrightarrow> unslotted ev"
  by (auto simp: read_event_def)

lemma ending_unslotted: "ending_event ev \<Longrightarrow> unslotted ev"
  by (auto simp: ending_event_def)

lemma slot_bracketed:
  "list_all unslotted (trace_of (FloxEnv_Reconcile L R req) w) \<or>
   (\<exists>pre mid t q answer post.
      trace_of (FloxEnv_Reconcile L R req) w =
        pre @ AcquireSlot None # mid @ Realize t q answer # post @ [ReleaseSlot] \<and>
      list_all unslotted (pre @ mid @ post))"
proof (cases rule: slot_or_quiet [of L R req w])
  case quiet
  then show ?thesis by (simp add: quiet_unslotted)
next
  case (slot env reads t q answer)
  obtain r0 rest where evs: "trace_of (FloxEnv_Reconcile L R req) w = GetFloxEnv req (Inr env) # reads @ AcquireSlot None #
      PatchFloxEnvStatus env (marked_env L R env (Inl (OtherErr []))) r0 # Realize t q answer # rest @ [ReleaseSlot]"
    and "\<forall>ev \<in> set reads. read_event ev" "\<forall>ev \<in> set rest. ending_event ev"
    by (rule realise_pass_events [OF slot])
  then show ?thesis
    by (intro disjI2 exI [of _ "GetFloxEnv req (Inr env) # reads"]
        exI [of _ "[PatchFloxEnvStatus env (marked_env L R env (Inl (OtherErr []))) r0]"]
        exI [of _ t] exI [of _ q] exI [of _ answer] exI [of _ rest])
      (auto simp: list_all_iff intro: read_unslotted ending_unslotted)
qed

text \<open>
  C14: The slot discipline of one reconcile. Either it takes no slot, frees none and realises
  nothing, or it takes one slot, realises exactly once while holding it and frees it as its very
  last act, on every path, the failing ones included.
\<close>

theorem slot_brackets_realise:
  "list_all unslotted (trace_of (FloxEnv_Reconcile L R req) w) \<or>
   (\<exists>pre mid t q answer post.
      trace_of (FloxEnv_Reconcile L R req) w =
        pre @ AcquireSlot None # mid @ Realize t q answer # post @ [ReleaseSlot] \<and>
      list_all unslotted (pre @ mid @ post))"
  by (rule slot_bracketed)

text \<open>
  C31: A realise that fails is reported and retried: the pass returns its error, without a requeue
  of its own, and the only thing it still writes is Ready=False, reason RealizeFailed, with the
  error as message. No consumer is rolled, no pin moves, no entry is recorded.
\<close>

theorem failed_realise_reported:
  assumes "Realize t q (Inl e) \<in> set (trace_of (FloxEnv_Reconcile L R req) w)"
  shows "outcome_of (FloxEnv_Reconcile L R req) w = (done_result, Some e) \<and>
    (\<exists>pre base r. trace_of (FloxEnv_Reconcile L R req) w = pre @ [Realize t q (Inl e),
       PatchFloxEnvStatus base (with_ready L base ConditionFalse ''RealizeFailed'' (error_string e)) r, ReleaseSlot])"
proof -
  from assms obtain env reads where
    "realise_pass L R req env reads t q (Inl e) (outcome_of (FloxEnv_Reconcile L R req) w)
       (trace_of (FloxEnv_Reconcile L R req) w)" (is "realise_pass _ _ _ _ _ _ _ _ _ ?evs")
    by (rule realise_pass_of_event)
  then obtain r0 rest where
      "?evs = (GetFloxEnv req (Inr env) # reads @ [AcquireSlot None,
         PatchFloxEnvStatus env (marked_env L R env (Inl (OtherErr []))) r0]) @ [Realize t q (Inl e)] @ rest @ [ReleaseSlot]"
    and "failed_write L (marked_env L R env r0) ''RealizeFailed'' e (outcome_of (FloxEnv_Reconcile L R req) w) rest"
    unfolding realise_pass_def by auto
  then show ?thesis unfolding failed_write_def by fastforce
qed

theorem failed_realise_reported_witness:
  "outcome_of (FloxEnv_Reconcile store_libs failing_agent web) (store_of [pinned_env ''web'']) =
     (done_result, Some (OtherErr ''boom'')) \<and>
    (\<exists>pre base r. trace_of (FloxEnv_Reconcile store_libs failing_agent web) (store_of [pinned_env ''web'']) =
       pre @ [Realize (30 * minute) web_request (Inl (OtherErr ''boom'')),
         PatchFloxEnvStatus base (with_ready store_libs base ConditionFalse ''RealizeFailed''
           (error_string (OtherErr ''boom''))) r, ReleaseSlot])"
  by (rule failed_realise_reported) (simp add: failing_trace)

subsection \<open>The pin of record\<close>

text \<open>
  C10: The pinned lock moves only behind the roll. When a status write sets a lock that is neither the
  one of the object it is written on nor the one the pass read at its start, then before it all three
  workload kinds were listed and every listed workload that consumes the env and did not carry the
  digest of the new lock was patched, each patch accepted. (A pass rolls for a lock other than the
  one it read: when another agent moved the pin between its read and its Realizing patch, the pass may
  move the pin back to the lock it read without a roll, \<open>pin_moves_back_unrolled\<close> in \<open>FloxEnvRaces\<close>.)
\<close>

theorem pin_moves_after_roll:
  assumes "trace_of (FloxEnv_Reconcile L R req) w = GetFloxEnv req (Inr env) # evs"
    and "PatchFloxEnvStatus base new r \<in> set evs"
    and "st_lock (fe_status new) \<noteq> st_lock (fe_status base)" "st_lock (fe_status new) \<noteq> st_lock (fe_status env)"
  shows "\<exists>pre. evs = pre @ [PatchFloxEnvStatus base new r, ReleaseSlot] \<and>
    (\<forall>kd. \<exists>ws. ListWorkloads kd (Inr ws) \<in> set pre \<and>
       (\<forall>wl \<in> set ws. needs_roll (env_target base) (lockDigest (st_lock (fe_status new))) wl \<longrightarrow>
          PatchWorkload wl (stamped (lockDigest (st_lock (fe_status new))) wl) None \<in> set pre))"
proof -
  have "\<not> not_ready_write L base new" using assms(3) by (auto simp: not_ready_write_def)
  moreover have "PatchFloxEnvStatus base new r \<in> set (trace_of (FloxEnv_Reconcile L R req) w)" by (simp add: assms(1,2))
  ultimately obtain pre rolls q res where s:
    "GetFloxEnv req (Inr env) # evs = (pre @ Realize (realize_timeout R) q (Inr res) # rolls) @ [PatchFloxEnvStatus base new r, ReleaseSlot]"
    "roll_outcome base (st_lock (fe_status env)) res None rolls" "new = record_realized L R (relock_of env) res base"
    using reconcile_writes [of base new r L R req w] unfolding success_at_def assms(1) by auto
  then obtain mid where mid: "evs = mid @ [PatchFloxEnvStatus base new r, ReleaseSlot]" "set rolls \<subseteq> set mid"
    by (cases pre) auto
  have lock: "st_lock (fe_status new) = rs_lock res" "rs_lock res \<noteq> []"
    using assms(3) by (auto simp: s(3) record_realized_fields split: if_splits)
  then have "all_rolled (env_target base) (lockDigest (st_lock (fe_status new))) rolls"
    using s(2) assms(4) by (simp add: roll_outcome_def lock_moved_def)
  then show ?thesis
    using mid unfolding all_rolled_def rolled_in_def by (intro exI [of _ mid]) fastforce
qed

theorem pin_moves_after_roll_witness:
  "\<exists>pre. tl (trace_of (FloxEnv_Reconcile store_libs agent web) sample_store) =
      pre @ [PatchFloxEnvStatus marked_fresh realized_fresh (Inr realized_fresh), ReleaseSlot] \<and>
    (\<forall>kd. \<exists>ws. ListWorkloads kd (Inr ws) \<in> set pre \<and>
       (\<forall>wl \<in> set ws. needs_roll (env_target marked_fresh) (lockDigest (st_lock (fe_status realized_fresh))) wl \<longrightarrow>
          PatchWorkload wl (stamped (lockDigest (st_lock (fe_status realized_fresh))) wl) None \<in> set pre))"
proof (rule pin_moves_after_roll [where env = "sample_env ''web''"])
  show "trace_of (FloxEnv_Reconcile store_libs agent web) sample_store =
      GetFloxEnv web (Inr (sample_env ''web'')) # tl (trace_of (FloxEnv_Reconcile store_libs agent web) sample_store)"
    by (simp add: fresh_trace)
qed (simp_all add: fresh_trace realized_fresh_def marked_fresh_def record_realized_fields store_result_def sample_env_def)

subsection \<open>Settling\<close>

text \<open>
  An env this node has realised at its current generation, with no relock asked for since, is
  left alone: the reconcile reads it and does nothing else.
\<close>

theorem settled_env_is_left_alone:
  assumes "cl_get_env (er_client R) req w = (Inr env, w')"
    and "FindStatusCondition (lib_meta L) (fe_conditions env) ''Ready'' \<noteq> None"
    and "map_get (fe_annotations env) relockAnnotation = st_relock_token (fe_status env)"
    and "nr \<in> set (st_realized (fe_status env))" "nr_node nr = er_node_name R" "nr_ready nr"
      "nr_observed nr = fe_generation env"
  shows "run_state (FloxEnv_Reconcile L R req) (start w) =
    ((done_result, None), \<lparr> world = w', trace = [GetFloxEnv req (Inr env)] \<rparr>)"
proof -
  have "alreadyRealized R env" using assms(3-) by (auto simp: alreadyRealized_def list_ex_iff)
  then show ?thesis using assms(1,2) by (auto simp: FloxEnv_Reconcile_def get_env_def start_def)
qed

theorem settled_env_is_left_alone_witness:
  "run_state (FloxEnv_Reconcile store_libs agent web) (start (store_of [realized_web])) =
    ((done_result, None), \<lparr> world = store_of [realized_web], trace = [GetFloxEnv web (Inr realized_web)] \<rparr>)"
  by (rule settled_env_is_left_alone [where nr = "node_entry agent marked_web store_result"])
    (simp_all add: web_defs go_defs relockAnnotation_def node_entry_def)

text \<open>
  C18: A pass that succeeds settles the env. If the write that declares it Ready is what the next
  reconcile of the node reads, and the relock stamp did not change between the read of the pass and
  that write, the next reconcile does nothing, stamped or not: the control loop reaches a fixed point
  in one realise.
\<close>

theorem success_settles:
  assumes "meta_laws (lib_meta L)"
    and "trace_of (FloxEnv_Reconcile L R req) w = GetFloxEnv req (Inr env) # evs"
    and "PatchFloxEnvStatus base new r \<in> set evs"
    and "IsStatusConditionTrue (lib_meta L) (fe_conditions new) ''Ready''"
    and "map_get (fe_annotations new) relockAnnotation = map_get (fe_annotations env) relockAnnotation"
    and "cl_get_env (er_client R) req w2 = (Inr new, w3)"
  shows "run_state (FloxEnv_Reconcile L R req) (start w2) =
    ((done_result, None), \<lparr> world = w3, trace = [GetFloxEnv req (Inr new)] \<rparr>)"
proof -
  have "PatchFloxEnvStatus base new r \<in> set (trace_of (FloxEnv_Reconcile L R req) w)" by (simp add: assms(2,3))
  then have "success_at L R req base new r (trace_of (FloxEnv_Reconcile L R req) w)"
    using reconcile_writes [of base new r L R req w] not_ready_not_true [OF assms(1), of base new] assms(4) by blast
  then obtain res where new: "new = record_realized L R (relock_of env) res base"
    unfolding success_at_def assms(2) by auto
  have "node_entry R base res \<in> set (st_realized (fe_status new))"
    unfolding new record_realized_fields by (rule realized.ups_member)
  moreover have "fe_generation new = fe_generation base" "st_relock_token (fe_status new) = map_get (fe_annotations env) relockAnnotation"
    by (simp_all add: new record_realized_fields relock_of_def)
  ultimately have "alreadyRealized R new"
    using assms(5) by (auto simp: alreadyRealized_def list_ex_iff node_entry_def intro!: bexI [of _ "node_entry R base res"])
  moreover have "FindStatusCondition (lib_meta L) (fe_conditions new) ''Ready'' \<noteq> None"
    using assms(1,4) by (auto simp: meta_laws_def)
  ultimately show ?thesis using assms(6) by (auto simp: FloxEnv_Reconcile_def get_env_def start_def)
qed

text \<open>An env that was asked to relock.\<close>

definition asked_web :: floxenv where
  "asked_web = (pinned_env ''web'')\<lparr> fe_meta := (fe_meta (pinned_env ''web''))\<lparr> om_annotations := [(relockAnnotation, ''r2'')] \<rparr> \<rparr>"

definition marked_asked :: floxenv where
  "marked_asked = with_ready store_libs asked_web ConditionFalse ''Realizing'' ''realising the env closure on n1''"

definition relocked_web :: floxenv where
  "relocked_web = record_realized store_libs agent ''r2'' store_result marked_asked"

lemma asked_trace:
  "trace_of (FloxEnv_Reconcile store_libs agent web) (store_of [asked_web]) =
     [GetFloxEnv web (Inr asked_web), AcquireSlot None,
      PatchFloxEnvStatus asked_web marked_asked (Inr marked_asked),
      Realize (30 * minute) (web_request\<lparr> rr_lock := [] \<rparr>) (Inr store_result),
      PatchFloxEnvStatus marked_asked relocked_web (Inr relocked_web), ReleaseSlot]"
  by (simp add: go_defs web_request_def asked_web_def marked_asked_def relocked_web_def realize_timeout_def
      defaultRealizeTimeout_def relockAnnotation_def)

theorem success_settles_witness:
  "run_state (FloxEnv_Reconcile store_libs agent web) (start (store_of [relocked_web])) =
    ((done_result, None), \<lparr> world = store_of [relocked_web], trace = [GetFloxEnv web (Inr relocked_web)] \<rparr>)"
proof (rule success_settles [OF store_meta_laws])
  show "trace_of (FloxEnv_Reconcile store_libs agent web) (store_of [asked_web]) =
      GetFloxEnv web (Inr asked_web) # tl (trace_of (FloxEnv_Reconcile store_libs agent web) (store_of [asked_web]))"
    by (simp add: asked_trace)
  show "PatchFloxEnvStatus marked_asked relocked_web (Inr relocked_web)
      \<in> set (tl (trace_of (FloxEnv_Reconcile store_libs agent web) (store_of [asked_web])))"
    by (simp add: asked_trace)
  show "map_get (fe_annotations relocked_web) relockAnnotation = map_get (fe_annotations asked_web) relockAnnotation"
    by (simp add: relocked_web_def record_realized_fields marked_asked_def)
  show "IsStatusConditionTrue (lib_meta store_libs) (fe_conditions relocked_web) ''Ready''"
    by (simp add: relocked_web_def marked_asked_def asked_web_def go_defs)
  show "cl_get_env (er_client agent) web (store_of [relocked_web]) = (Inr relocked_web, store_of [relocked_web])"
    by (simp add: relocked_web_def marked_asked_def asked_web_def go_defs)
qed

lemma success_silent:
  assumes "success_write L R relock res env (done_result, None) evs"
  shows "\<exists>stored. evs = [PatchFloxEnvStatus env (record_realized L R relock res env) (Inr stored)]"
proof -
  obtain r where "evs = [PatchFloxEnvStatus env (record_realized L R relock res env) r]"
      "(case r of Inl e \<Rightarrow> Some e | Inr _ \<Rightarrow> None) = None"
    using assms by (auto simp: success_write_def)
  then show ?thesis by (cases r) auto
qed

lemma slot_body_silent:
  assumes "slot_body L R env0 folder consumption toml relock lock previousLock (done_result, None) body"
  shows "\<exists>pre q res rolls base stored. body = pre @ Realize (realize_timeout R) q (Inr res) # rolls @
    [PatchFloxEnvStatus base (record_realized L R relock res base) (Inr stored)]"
proof -
  from assms obtain r0 q answer rest where b:
      "body = [PatchFloxEnvStatus env0 (marked_env L R env0 (Inl (OtherErr []))) r0] @ Realize (realize_timeout R) q answer # rest"
    and c: "case answer of Inl e \<Rightarrow> failed_write L (marked_env L R env0 r0) ''RealizeFailed'' e (done_result, None) rest
      | Inr res \<Rightarrow> after_realize L R (marked_env L R env0 r0) relock previousLock res (done_result, None) rest"
    unfolding slot_body_def by auto
  then obtain res rolls rolled fin where "answer = Inr res" "rest = rolls @ fin"
      "case rolled of Some e \<Rightarrow> failed_write L (marked_env L R env0 r0) ''RestartConsumersFailed'' e (done_result, None) fin
        | None \<Rightarrow> success_write L R relock res (marked_env L R env0 r0) (done_result, None) fin"
    by (cases answer) (auto simp: failed_write_def after_realize_def)
  then have "\<exists>stored. rest = rolls @ [PatchFloxEnvStatus (marked_env L R env0 r0)
      (record_realized L R relock res (marked_env L R env0 r0)) (Inr stored)]"
    by (cases rolled) (auto simp: failed_write_def dest: success_silent)
  then show ?thesis using b \<open>answer = Inr res\<close> by blast
qed

lemma silent_stop:
  assumes "outcome_of (FloxEnv_Reconcile L R req) w = (done_result, None)"
  shows "(\<exists>e. trace_of (FloxEnv_Reconcile L R req) w = [GetFloxEnv req (Inl e)] \<and> IsNotFound e) \<or>
    (\<exists>env. trace_of (FloxEnv_Reconcile L R req) w = [GetFloxEnv req (Inr env)] \<and> alreadyRealized R env) \<or>
    (\<exists>pre q res rolls base relock stored. trace_of (FloxEnv_Reconcile L R req) w =
       pre @ Realize (realize_timeout R) q (Inr res) # rolls @
         [PatchFloxEnvStatus base (record_realized L R relock res base) (Inr stored), ReleaseSlot])"
proof -
  let ?evs = "trace_of (FloxEnv_Reconcile L R req) w"
  obtain got rest where evs: "?evs = GetFloxEnv req got # rest"
    and got: "case got of Inl e \<Rightarrow> rest = [] \<and> (done_result, None) = (done_result, IgnoreNotFound e)
      | Inr env \<Rightarrow> env_trace L R env (done_result, None) rest"
    using reconcile_run [of L R req w] unfolding reconcile_trace_def assms by blast
  have no_requeue: "\<not> requeue_write L env reason (15 * second) (done_result, None) es"
      "\<not> requeue_write L env reason (10 * second) (done_result, None) es" for env reason es
    by (simp_all add: requeue_write_def done_result_def second_def)
  have no_fail: "\<not> failed_write L env reason e (done_result, None) es" for env reason e es
    by (simp add: failed_write_def)
  have no_pending: "\<not> pending_trace L env (done_result, None) es" for env es
    by (auto simp: pending_trace_def done_result_def split: sum.splits)
  show ?thesis
  proof (cases got)
    case (Inl e)
    then show ?thesis using got evs by (auto simp: IgnoreNotFound_def split: if_splits)
  next
    case (Inr env)
    then have "env_trace L R env (done_result, None) rest" using got by simp
    then consider "rest = []" "alreadyRealized R env" | "realise_trace L R env (done_result, None) rest"
      by (auto simp: env_trace_def early_stop_def no_pending no_fail no_requeue split: if_splits)
    then show ?thesis
    proof cases
      case 1
      then show ?thesis using evs Inr by blast
    next
      case 2
      then obtain toml reads srest where "rest = reads @ srest"
          "slot_trace L R env (effectiveFolder env) (consumption_of env) toml (done_result, None) srest"
        unfolding realise_trace_def deps_trace_def using no_requeue by (metis append.assoc)
      then obtain body where body: "rest = reads @ AcquireSlot None # body @ [ReleaseSlot]"
          "slot_body L R env (effectiveFolder env) (consumption_of env) toml (relock_of env) (lock_to_use env)
            (st_lock (fe_status env)) (done_result, None) body"
        by (auto simp: slot_trace_def)
      from slot_body_silent [OF body(2)] obtain pre q res rolls base stored where
          "body = pre @ Realize (realize_timeout R) q (Inr res) # rolls @
             [PatchFloxEnvStatus base (record_realized L R (relock_of env) res base) (Inr stored)]"
        by blast
      then have "?evs = (GetFloxEnv req got # reads @ AcquireSlot None # pre) @ Realize (realize_timeout R) q (Inr res) #
          rolls @ [PatchFloxEnvStatus base (record_realized L R (relock_of env) res base) (Inr stored), ReleaseSlot]"
        using evs body(1) by simp
      then show ?thesis by blast
    qed
  qed
qed

text \<open>
  C17: No reconcile stops silently. A pass that returns neither an error nor a requeue either found
  no object, or found it settled, or ended with its success write accepted by the server; every
  other pass is retried.
\<close>

theorem no_silent_stop:
  assumes "outcome_of (FloxEnv_Reconcile L R req) w = (done_result, None)"
  shows "(\<exists>e. trace_of (FloxEnv_Reconcile L R req) w = [GetFloxEnv req (Inl e)] \<and> IsNotFound e) \<or>
    (\<exists>env. trace_of (FloxEnv_Reconcile L R req) w = [GetFloxEnv req (Inr env)] \<and> alreadyRealized R env) \<or>
    (\<exists>pre q res rolls base relock stored. trace_of (FloxEnv_Reconcile L R req) w =
       pre @ Realize (realize_timeout R) q (Inr res) # rolls @
         [PatchFloxEnvStatus base (record_realized L R relock res base) (Inr stored), ReleaseSlot])"
  using assms by (rule silent_stop)

theorem no_silent_stop_witness:
  "(\<exists>e. trace_of (FloxEnv_Reconcile store_libs agent web) (store_of [pinned_env ''web'']) =
      [GetFloxEnv web (Inl e)] \<and> IsNotFound e) \<or>
    (\<exists>env. trace_of (FloxEnv_Reconcile store_libs agent web) (store_of [pinned_env ''web'']) =
      [GetFloxEnv web (Inr env)] \<and> alreadyRealized agent env) \<or>
    (\<exists>pre q res rolls base relock stored.
       trace_of (FloxEnv_Reconcile store_libs agent web) (store_of [pinned_env ''web'']) =
       pre @ Realize (realize_timeout agent) q (Inr res) # rolls @
         [PatchFloxEnvStatus base (record_realized store_libs agent relock res base) (Inr stored), ReleaseSlot])"
  by (rule no_silent_stop) (simp add: outcome_of_def pinned_run)

text \<open>What the node agent may do to the cluster: read, write the status of FloxEnvs, stamp workloads.\<close>

fun agent_event :: "event \<Rightarrow> bool" where
  "agent_event (PatchFloxEnvStatus base new r) \<longleftrightarrow> fe_spec new = fe_spec base \<and> fe_meta new = fe_meta base"
| "agent_event (PatchWorkload wl wl' r) \<longleftrightarrow>
     wl' = stamped (map_get (wl_template_annotations wl') restartMarker) wl"
| "agent_event (GetFloxEnv k r) = True"
| "agent_event (GetFloxCatalog k r) = True"
| "agent_event (ListWorkloads kd r) = True"
| "agent_event (AcquireSlot r) = True"
| "agent_event ReleaseSlot = True"
| "agent_event (Realize t q a) = True"
| "agent_event _ = False"

lemma quiet_agent_event: "quiet_event L ev \<Longrightarrow> agent_event ev"
  by (cases "(L, ev)" rule: quiet_event.cases) (auto simp: not_ready_write_def)

lemma read_agent_event: "read_event ev \<Longrightarrow> agent_event ev"
  by (auto simp: read_event_def)

lemma stamped_marker: "map_get (wl_template_annotations (stamped digest w)) restartMarker = digest"
  by (simp add: stamped_def)

lemma request_agent_events: "agent_event (PatchWorkload w (stamped digest w) r)" "agent_event (ListWorkloads kd rs)"
  by (simp_all only: agent_event.simps stamped_marker)

lemma roll_agent_event: "roll_events target digest evs \<Longrightarrow> ev \<in> set evs \<Longrightarrow> agent_event ev"
  unfolding roll_events_def using request_agent_events by fast

lemma failed_agent_event: "failed_write L env reason e out evs \<Longrightarrow> ev \<in> set evs \<Longrightarrow> agent_event ev"
  by (auto simp: failed_write_def)

lemma success_agent_event: "success_write L R relock res env out evs \<Longrightarrow> ev \<in> set evs \<Longrightarrow> agent_event ev"
proof -
  assume "success_write L R relock res env out evs" "ev \<in> set evs"
  then obtain r where "ev = PatchFloxEnvStatus env (record_realized L R relock res env) r"
    unfolding success_write_def by auto
  then show "agent_event ev" by (simp only: agent_event.simps record_realized_fields)
qed

lemma after_realize_agent_event:
  assumes "after_realize L R env relock previousLock res out evs" "ev \<in> set evs"
  shows "agent_event ev"
proof -
  obtain rolls rolled fin where *: "evs = rolls @ fin" "roll_outcome env previousLock res rolled rolls"
      "case rolled of Some e \<Rightarrow> failed_write L env ''RestartConsumersFailed'' e out fin
        | None \<Rightarrow> success_write L R relock res env out fin"
    using assms(1) unfolding after_realize_def by blast
  have "agent_event ev" if "ev \<in> set rolls"
    using *(2) that by (auto simp: roll_outcome_def split: if_splits intro: roll_agent_event)
  moreover have "agent_event ev" if "ev \<in> set fin"
    using *(3) that by (cases rolled) (auto intro: failed_agent_event success_agent_event)
  ultimately show ?thesis using assms(2) *(1) by auto
qed

text \<open>
  The node agent stays in its lane. Whatever happens, a reconcile writes nothing but statuses
  of FloxEnvs, leaving their spec and metadata as they are, and the restart annotation of
  workloads' pod templates, leaving every other annotation as it is.
\<close>

theorem agent_writes_only_status:
  "list_all agent_event (trace_of (FloxEnv_Reconcile L R req) w)"
proof (cases rule: slot_or_quiet [of L R req w])
  case quiet
  then show ?thesis by (auto simp: quiet_def list_all_iff intro: quiet_agent_event)
next
  case (slot env reads t q answer)
  obtain r0 rest where
      "trace_of (FloxEnv_Reconcile L R req) w = GetFloxEnv req (Inr env) # reads @ AcquireSlot None #
         PatchFloxEnvStatus env (marked_env L R env (Inl (OtherErr []))) r0 # Realize t q answer # rest @ [ReleaseSlot]"
    and "\<forall>ev \<in> set reads. read_event ev"
    and "case answer of
           Inl e \<Rightarrow> failed_write L (marked_env L R env r0) ''RealizeFailed'' e (outcome_of (FloxEnv_Reconcile L R req) w) rest
         | Inr res \<Rightarrow> after_realize L R (marked_env L R env r0) (relock_of env) (st_lock (fe_status env)) res
             (outcome_of (FloxEnv_Reconcile L R req) w) rest"
    by (rule realise_pass_events [OF slot])
  moreover have "list_all agent_event rest"
    using calculation(3)
    by (cases answer) (auto simp: list_all_iff intro: failed_agent_event after_realize_agent_event)
  ultimately show ?thesis
    by (auto simp: list_all_iff read_agent_event marked_Inl)
qed

text \<open>
  \<open>status.realized\<close> is a map from nodes to entries, and an upsert writes one key of it: the
  entry of the node is the new one, every other node keeps its own, no node gets a second entry,
  the order of the nodes stays, and no other status field is touched.
\<close>

theorem upsert_is_map_update:
  "(\<lambda>n. lookup_by nr_node n (st_realized (upsertRealization st nr))) =
     (\<lambda>n. lookup_by nr_node n (st_realized st))(nr_node nr \<mapsto> nr) \<and>
   map nr_node (st_realized (upsertRealization st nr)) =
     (if nr_node nr \<in> nr_node ` set (st_realized st) then map nr_node (st_realized st)
      else map nr_node (st_realized st) @ [nr_node nr]) \<and>
   (upsertRealization st nr)\<lparr> st_realized := st_realized st \<rparr> = st"
  using realized.lookup_ups [of _ nr "st_realized st"] realized.keys_ups [of nr "st_realized st"]
  by (auto simp: upsertRealization_def fun_eq_iff)

end
