(* ===== verification/Slots.thy ===== *)
theory Slots
  imports FloxEnvProperties
begin

text \<open>
  The realise slots of \<open>floxenv_controller.go\<close>: the workers of one agent, each in the middle of a reconcile
  of its own, and the channel they share. A worker does the events of a trace of \<open>FloxEnv_Reconcile\<close>
  one by one, in any interleaving with the others; the two channel operations of the reconcile, which a
  trace records with their answers (\<open>AcquireSlot\<close>, \<open>ReleaseSlot\<close>), are enabled here exactly when the
  channel of the reconciler allows them.
\<close>

subsection \<open>The channel\<close>

record channel =
  ch_cap :: nat
  ch_len :: nat

text \<open>
  \<open>r.slot()\<close>: the first call makes the channel (\<open>slotsOnce\<close>), every later one answers it. \<open>None\<close> is
  the reconciler whose \<open>slotsOnce\<close> did not run yet.
\<close>

definition slot :: "'w env_reconciler \<Rightarrow> channel option \<Rightarrow> channel" where
  "slot R slots = (case slots of
     None \<Rightarrow> \<lparr> ch_cap = nat (slot_capacity R), ch_len = 0 \<rparr>
   | Some ch \<Rightarrow> ch)"

subsection \<open>The workers\<close>

text \<open>What a worker has done of its reconcile and what is still to come; \<open>None\<close> is an idle worker.\<close>

type_synonym worker = "(event list \<times> event list) option"

record slots_state =
  sl_slots :: "channel option"
  sl_workers :: "worker list"

definition initial_slots :: "nat \<Rightarrow> slots_state" where
  "initial_slots n = \<lparr> sl_slots = None, sl_workers = replicate n None \<rparr>"

definition channel_event :: "event \<Rightarrow> bool" where
  "channel_event ev \<longleftrightarrow> (\<exists>r. ev = AcquireSlot r) \<or> ev = ReleaseSlot"

definition at_worker :: "slots_state \<Rightarrow> nat \<Rightarrow> worker \<Rightarrow> bool" where
  "at_worker s i x \<longleftrightarrow> i < length (sl_workers s) \<and> sl_workers s ! i = x"

inductive slot_step :: "libs \<Rightarrow> 'w env_reconciler \<Rightarrow> slots_state \<Rightarrow> slots_state \<Rightarrow> bool" for L R where
  reconcile_starts: "at_worker s i None \<Longrightarrow>
    slot_step L R s (s\<lparr> sl_workers := (sl_workers s)[i := Some ([], trace_of (FloxEnv_Reconcile L R req) w)] \<rparr>)"
| slot_sent: "at_worker s i (Some (evs, AcquireSlot None # rest)) \<Longrightarrow> slot R (sl_slots s) = ch \<Longrightarrow> ch_len ch < ch_cap ch \<Longrightarrow>
    slot_step L R s (s\<lparr> sl_slots := Some (ch\<lparr> ch_len := Suc (ch_len ch) \<rparr>),
      sl_workers := (sl_workers s)[i := Some (evs @ [AcquireSlot None], rest)] \<rparr>)"
| wait_cancelled: "at_worker s i (Some (evs, AcquireSlot (Some e) # rest)) \<Longrightarrow>
    slot_step L R s (s\<lparr> sl_slots := Some (slot R (sl_slots s)),
      sl_workers := (sl_workers s)[i := Some (evs @ [AcquireSlot (Some e)], rest)] \<rparr>)"
| slot_received: "at_worker s i (Some (evs, ReleaseSlot # rest)) \<Longrightarrow> sl_slots s = Some ch \<Longrightarrow> 0 < ch_len ch \<Longrightarrow>
    slot_step L R s (s\<lparr> sl_slots := Some (ch\<lparr> ch_len := ch_len ch - 1 \<rparr>),
      sl_workers := (sl_workers s)[i := Some (evs @ [ReleaseSlot], rest)] \<rparr>)"
| request_done: "at_worker s i (Some (evs, ev # rest)) \<Longrightarrow> \<not> channel_event ev \<Longrightarrow>
    slot_step L R s (s\<lparr> sl_workers := (sl_workers s)[i := Some (evs @ [ev], rest)] \<rparr>)"
| reconcile_ends: "at_worker s i (Some (evs, [])) \<Longrightarrow>
    slot_step L R s (s\<lparr> sl_workers := (sl_workers s)[i := None] \<rparr>)"

inductive slots_reachable :: "libs \<Rightarrow> 'w env_reconciler \<Rightarrow> nat \<Rightarrow> slots_state \<Rightarrow> bool" for L R n where
  slots_initial: "slots_reachable L R n (initial_slots n)"
| slots_moved: "slots_reachable L R n s \<Longrightarrow> slot_step L R s t \<Longrightarrow> slots_reachable L R n t"

text \<open>A worker that has taken a slot and not given it back, and one whose realise is running.\<close>

fun slot_after :: "bool \<Rightarrow> event \<Rightarrow> bool" where
  "slot_after b (AcquireSlot None) = True"
| "slot_after b ReleaseSlot = False"
| "slot_after b ev = b"

definition holds_slot :: "worker \<Rightarrow> bool" where
  "holds_slot x = (case x of None \<Rightarrow> False | Some (evs, rest) \<Rightarrow> foldl slot_after False evs)"

fun realising :: "worker \<Rightarrow> bool" where
  "realising (Some (evs, Realize t q answer # rest)) = True"
| "realising x = False"

subsection \<open>The discipline of a reconcile\<close>

fun disciplined :: "bool \<Rightarrow> event list \<Rightarrow> bool" where
  "disciplined b [] \<longleftrightarrow> \<not> b"
| "disciplined b (AcquireSlot None # evs) \<longleftrightarrow> \<not> b \<and> disciplined True evs"
| "disciplined b (ReleaseSlot # evs) \<longleftrightarrow> b \<and> disciplined False evs"
| "disciplined b (Realize t q answer # evs) \<longleftrightarrow> b \<and> disciplined b evs"
| "disciplined b (ev # evs) \<longleftrightarrow> disciplined b evs"

lemma disciplined_unslotted: "list_all unslotted evs \<Longrightarrow> disciplined b (evs @ rest) = disciplined b rest"
proof (induction evs)
  case (Cons ev evs)
  then show ?case by (cases "(b, ev # evs @ rest)" rule: disciplined.cases) simp_all
qed simp

lemma reconcile_disciplined: "disciplined False (trace_of (FloxEnv_Reconcile L R req) w)"
  using slot_bracketed [of L R req w]
proof (elim disjE exE conjE)
  assume "list_all unslotted (trace_of (FloxEnv_Reconcile L R req) w)"
  from disciplined_unslotted [OF this, of False "[]"] show ?thesis by simp
next
  fix pre mid t q answer post
  assume "trace_of (FloxEnv_Reconcile L R req) w = pre @ AcquireSlot None # mid @ Realize t q answer # post @ [ReleaseSlot]"
    "list_all unslotted (pre @ mid @ post)"
  then show ?thesis by (simp add: disciplined_unslotted)
qed

subsection \<open>The invariant\<close>

definition well_behaved :: "worker \<Rightarrow> bool" where
  "well_behaved x = (case x of None \<Rightarrow> True | Some (evs, rest) \<Rightarrow> disciplined (foldl slot_after False evs) rest)"

definition tokens :: "slots_state \<Rightarrow> nat" where
  "tokens s = (case sl_slots s of None \<Rightarrow> 0 | Some ch \<Rightarrow> ch_len ch)"

definition holders :: "worker list \<Rightarrow> nat" where
  "holders ws = length (filter holds_slot ws)"

definition slots_inv :: "'w env_reconciler \<Rightarrow> nat \<Rightarrow> slots_state \<Rightarrow> bool" where
  "slots_inv R n s \<longleftrightarrow> length (sl_workers s) = n \<and> list_all well_behaved (sl_workers s) \<and>
     tokens s = holders (sl_workers s) \<and>
     (\<forall>ch. sl_slots s = Some ch \<longrightarrow> ch_cap ch = nat (slot_capacity R) \<and> ch_len ch \<le> ch_cap ch)"

lemma holders_update:
  "i < length ws \<Longrightarrow> holders (ws[i := x]) + (if holds_slot (ws ! i) then 1 else 0) = holders ws + (if holds_slot x then 1 else 0)"
proof (induction ws arbitrary: i)
  case (Cons a ws)
  then show ?case by (cases i) (auto simp: holders_def)
qed simp

lemma slot_simps:
  "slots_inv R n s \<Longrightarrow> ch_cap (slot R (sl_slots s)) = nat (slot_capacity R)"
  "ch_len (slot R (sl_slots s)) = tokens s"
  by (auto simp: slot_def slots_inv_def tokens_def split: option.split)

lemma tokens_le: "slots_inv R n s \<Longrightarrow> tokens s \<le> nat (slot_capacity R)"
  unfolding tokens_def by (cases "sl_slots s") (simp, fastforce simp: slots_inv_def)

text \<open>A step of one worker that keeps its discipline, with what it does to the channel.\<close>

lemma slots_inv_step:
  assumes inv: "slots_inv R n s" and i: "at_worker s i x" and ok: "well_behaved x \<Longrightarrow> well_behaved y"
    and len: "tokens (s\<lparr> sl_slots := c \<rparr>) + (if holds_slot x then 1 else 0) = tokens s + (if holds_slot y then 1 else 0)"
    and cap: "\<And>ch. c = Some ch \<Longrightarrow> ch_cap ch = nat (slot_capacity R) \<and> ch_len ch \<le> ch_cap ch"
  shows "slots_inv R n (s\<lparr> sl_slots := c, sl_workers := (sl_workers s)[i := y] \<rparr>)"
proof -
  have "well_behaved x" using inv i by (auto simp: slots_inv_def at_worker_def list_all_iff)
  then have "list_all well_behaved ((sl_workers s)[i := y])"
    using inv ok set_update_subset_insert [of "sl_workers s" i y] by (auto simp: slots_inv_def list_all_iff)
  moreover have "holders ((sl_workers s)[i := y]) + (if holds_slot x then 1 else 0) = holders (sl_workers s) + (if holds_slot y then 1 else 0)"
    using holders_update [of i "sl_workers s" y] i by (simp add: at_worker_def)
  moreover have "tokens s = holders (sl_workers s)" using inv by (simp add: slots_inv_def)
  ultimately have "tokens (s\<lparr> sl_slots := c \<rparr>) = holders ((sl_workers s)[i := y])" using len by linarith
  moreover have "tokens (s\<lparr> sl_slots := c, sl_workers := (sl_workers s)[i := y] \<rparr>) = tokens (s\<lparr> sl_slots := c \<rparr>)" by (simp add: tokens_def)
  moreover have "\<forall>ch. c = Some ch \<longrightarrow> ch_cap ch = nat (slot_capacity R) \<and> ch_len ch \<le> nat (slot_capacity R)"
    using cap by metis
  ultimately show ?thesis
    using inv \<open>list_all well_behaved ((sl_workers s)[i := y])\<close> unfolding slots_inv_def by simp
qed

lemma slot_after_other: "\<not> channel_event ev \<Longrightarrow> slot_after b ev = b"
  by (cases "(b, ev)" rule: slot_after.cases) (auto simp: channel_event_def)

lemma disciplined_next: "disciplined b (ev # evs) \<Longrightarrow> disciplined (slot_after b ev) evs"
  by (cases "(b, ev # evs)" rule: disciplined.cases) auto

lemma well_behaved_next: "well_behaved (Some (evs, ev # rest)) \<Longrightarrow> well_behaved (Some (evs @ [ev], rest))"
  by (simp add: well_behaved_def disciplined_next)

lemma holds_snoc: "holds_slot (Some (evs @ [ev], rest)) = slot_after (foldl slot_after False evs) ev"
  by (simp add: holds_slot_def)

lemma at_worker_behaved: "slots_inv R n s \<Longrightarrow> at_worker s i x \<Longrightarrow> well_behaved x"
  by (auto simp: slots_inv_def at_worker_def list_all_iff)

lemma slot_step_inv:
  assumes "slot_step L R s t" "slots_inv R n s"
  shows "slots_inv R n t"
  using assms(1)
proof (cases rule: slot_step.cases)
  case (reconcile_starts i req w)
  have "slots_inv R n (s\<lparr> sl_slots := sl_slots s,
      sl_workers := (sl_workers s)[i := Some ([], trace_of (FloxEnv_Reconcile L R req) w)] \<rparr>)"
    by (rule slots_inv_step [OF assms(2) reconcile_starts(2)])
      (use assms(2) in \<open>simp_all add: well_behaved_def reconcile_disciplined holds_slot_def slots_inv_def\<close>)
  then show ?thesis by (simp add: reconcile_starts)
next
  case (slot_sent i evs rest ch)
  have free: "\<not> foldl slot_after False evs"
    using at_worker_behaved [OF assms(2) slot_sent(2)] by (simp add: well_behaved_def)
  have "slots_inv R n (s\<lparr> sl_slots := Some (ch\<lparr> ch_len := Suc (ch_len ch) \<rparr>),
      sl_workers := (sl_workers s)[i := Some (evs @ [AcquireSlot None], rest)] \<rparr>)"
    by (rule slots_inv_step [OF assms(2) slot_sent(2) well_behaved_next])
      (use slot_sent(3,4) slot_simps(1) [OF assms(2)] slot_simps(2) [of R s] assms(2) free in \<open>auto simp: tokens_def holds_snoc holds_slot_def\<close>)
  then show ?thesis by (simp add: slot_sent(1))
next
  case (wait_cancelled i evs e rest)
  have "slots_inv R n (s\<lparr> sl_slots := Some (slot R (sl_slots s)),
      sl_workers := (sl_workers s)[i := Some (evs @ [AcquireSlot (Some e)], rest)] \<rparr>)"
  proof (rule slots_inv_step [OF assms(2) wait_cancelled(2) well_behaved_next])
    fix ch assume ch: "Some (slot R (sl_slots s)) = Some ch"
    show "ch_cap ch = nat (slot_capacity R) \<and> ch_len ch \<le> ch_cap ch"
      using ch slot_simps(1) [OF assms(2)] slot_simps(2) [of R s] tokens_le [OF assms(2)] by auto
  qed (simp_all add: tokens_def slot_simps(2) [unfolded tokens_def] holds_snoc holds_slot_def)
  then show ?thesis by (simp add: wait_cancelled(1))
next
  case (slot_received i evs rest ch)
  have held: "foldl slot_after False evs"
    using at_worker_behaved [OF assms(2) slot_received(2)] by (simp add: well_behaved_def)
  have "slots_inv R n (s\<lparr> sl_slots := Some (ch\<lparr> ch_len := ch_len ch - 1 \<rparr>),
      sl_workers := (sl_workers s)[i := Some (evs @ [ReleaseSlot], rest)] \<rparr>)"
    by (rule slots_inv_step [OF assms(2) slot_received(2) well_behaved_next])
      (use slot_received(3,4) assms(2) held in \<open>auto simp: tokens_def holds_snoc holds_slot_def slots_inv_def\<close>)
  then show ?thesis by (simp add: slot_received(1))
next
  case (request_done i evs ev rest)
  have "slots_inv R n (s\<lparr> sl_slots := sl_slots s, sl_workers := (sl_workers s)[i := Some (evs @ [ev], rest)] \<rparr>)"
    by (rule slots_inv_step [OF assms(2) request_done(2) well_behaved_next])
      (use assms(2) request_done(3) in \<open>simp_all add: holds_snoc holds_slot_def slot_after_other slots_inv_def\<close>)
  then show ?thesis by (simp add: request_done(1))
next
  case (reconcile_ends i evs)
  have "\<not> foldl slot_after False evs"
    using at_worker_behaved [OF assms(2) reconcile_ends(2)] by (simp add: well_behaved_def)
  then have "slots_inv R n (s\<lparr> sl_slots := sl_slots s, sl_workers := (sl_workers s)[i := None] \<rparr>)"
    by (intro slots_inv_step [OF assms(2) reconcile_ends(2)])
      (use assms(2) in \<open>simp_all add: well_behaved_def holds_slot_def slots_inv_def\<close>)
  then show ?thesis by (simp add: reconcile_ends(1))
qed

lemma reachable_slots_inv: "slots_reachable L R n s \<Longrightarrow> slots_inv R n s"
proof (induction rule: slots_reachable.induct)
  case slots_initial
  show ?case by (simp add: slots_inv_def initial_slots_def tokens_def holders_def list_all_iff well_behaved_def holds_slot_def)
qed (rule slot_step_inv)

lemma realising_holds: "well_behaved x \<Longrightarrow> realising x \<Longrightarrow> holds_slot x"
  by (cases x rule: realising.cases) (simp_all add: well_behaved_def holds_slot_def)

lemma slot_capacity_pos: "0 < slot_capacity R"
  by (simp add: slot_capacity_def defaultRealizeSlots_def)

text \<open>
  C35: At any time at most as many realises run as there are slots, however many workers there are and
  however their reconciles interleave, fail or are cancelled: the channel is made once, with the
  capacity \<open>RealizeSlots\<close> asks for (two when that is not positive), and holds one token for each worker
  past its send.
\<close>

theorem realises_bounded:
  assumes "slots_reachable L R n s"
  shows "int (length (filter realising (sl_workers s))) \<le> (if er_realize_slots R \<le> 0 then 2 else er_realize_slots R) \<and>
    length (filter holds_slot (sl_workers s)) = (case sl_slots s of None \<Rightarrow> 0 | Some ch \<Rightarrow> ch_len ch)"
proof -
  have inv: "slots_inv R n s" by (rule reachable_slots_inv [OF assms])
  have "filter realising (sl_workers s) = filter realising (filter holds_slot (sl_workers s))"
    unfolding filter_filter using inv by (intro filter_cong) (auto simp: slots_inv_def list_all_iff intro: realising_holds)
  then have "length (filter realising (sl_workers s)) \<le> holders (sl_workers s)"
    unfolding holders_def by (metis length_filter_le)
  moreover have "holders (sl_workers s) \<le> nat (slot_capacity R)"
    using tokens_le [OF inv] inv by (simp add: slots_inv_def)
  ultimately show ?thesis
    using inv slot_capacity_pos [of R] by (auto simp: slots_inv_def tokens_def holders_def slot_capacity_def defaultRealizeSlots_def)
qed

text \<open>Two workers of an agent with one slot: the first builds, the second waits at its send.\<close>

definition one_slot_agent :: "store env_reconciler" where
  "one_slot_agent = agent\<lparr> er_realize_slots := 1 \<rparr>"

lemma one_slot_trace: "trace_of (FloxEnv_Reconcile store_libs one_slot_agent web) (store_of [pinned_env ''web'']) =
    trace_of (FloxEnv_Reconcile store_libs agent web) (store_of [pinned_env ''web''])"
  unfolding pinned_trace by (simp add: one_slot_agent_def go_defs web_defs realize_timeout_def defaultRealizeTimeout_def)

definition first_building :: slots_state where
  "first_building = \<lparr> sl_slots = Some \<lparr> ch_cap = 1, ch_len = 1 \<rparr>,
     sl_workers = [Some (take 3 (trace_of (FloxEnv_Reconcile store_libs agent web) (store_of [pinned_env ''web''])),
         drop 3 (trace_of (FloxEnv_Reconcile store_libs agent web) (store_of [pinned_env ''web'']))),
       Some (take 1 (trace_of (FloxEnv_Reconcile store_libs agent web) (store_of [pinned_env ''web''])),
         drop 1 (trace_of (FloxEnv_Reconcile store_libs agent web) (store_of [pinned_env ''web''])))] \<rparr>"

lemma first_building_reached: "slots_reachable store_libs one_slot_agent 2 first_building"
proof -
  let ?R = "slots_reachable store_libs one_slot_agent 2"
  let ?T = "trace_of (FloxEnv_Reconcile store_libs agent web) (store_of [pinned_env ''web''])"
  let ?s = "\<lambda>ch i j. \<lparr> sl_slots = ch, sl_workers = [Some (take i ?T, drop i ?T), Some (take j ?T, drop j ?T)] \<rparr>"
  note start = reconcile_starts [where L = store_libs and R = one_slot_agent and req = web and w = "store_of [pinned_env ''web'']",
    unfolded one_slot_trace]
  have "?R \<lparr> sl_slots = None, sl_workers = [None, None] \<rparr>"
    using slots_initial [of store_libs one_slot_agent 2] by (simp add: initial_slots_def numeral_2_eq_2)
  from slots_moved [OF this start [of _ 0]]
  have "?R \<lparr> sl_slots = None, sl_workers = [Some ([], ?T), None] \<rparr>" by (simp add: at_worker_def)
  from slots_moved [OF this start [of _ 1]]
  have "?R (?s None 0 0)" by (simp add: at_worker_def)
  from slots_moved [OF this request_done [of _ 0 "take 0 ?T" "hd ?T" "drop 1 ?T"]]
  have "?R (?s None 1 0)" by (simp add: at_worker_def pinned_trace channel_event_def)
  from slots_moved [OF this request_done [of _ 1 "take 0 ?T" "hd ?T" "drop 1 ?T"]]
  have "?R (?s None 1 1)" by (simp add: at_worker_def pinned_trace channel_event_def)
  from slots_moved [OF this slot_sent [of _ 0 "take 1 ?T" "drop 2 ?T" one_slot_agent "\<lparr> ch_cap = 1, ch_len = 0 \<rparr>"]]
  have "?R (?s (Some \<lparr> ch_cap = 1, ch_len = 1 \<rparr>) 2 1)"
    by (simp add: at_worker_def pinned_trace slot_def slot_capacity_def one_slot_agent_def numeral_2_eq_2)
  from slots_moved [OF this request_done [of _ 0 "take 2 ?T" "?T ! 2" "drop 3 ?T"]]
  show ?thesis by (simp add: at_worker_def pinned_trace channel_event_def first_building_def numeral_2_eq_2 numeral_3_eq_3)
qed

theorem realises_bounded_witness:
  "int (length (filter realising (sl_workers first_building))) \<le> 1 \<and> length (filter realising (sl_workers first_building)) = 1 \<and>
   length (filter holds_slot (sl_workers first_building)) = 1"
proof -
  have "length (filter realising (sl_workers first_building)) = 1"
    by (simp add: first_building_def pinned_trace numeral_3_eq_3)
  moreover have "length (filter holds_slot (sl_workers first_building)) = 1"
    using realises_bounded [OF first_building_reached] by (simp add: first_building_def)
  ultimately show ?thesis
    using realises_bounded [OF first_building_reached] by (simp add: one_slot_agent_def)
qed

text \<open>
  No reconcile waits for a slot for want of a step. Whenever some worker is in a reconcile, a worker
  can move; and when one that waits in its send can not, another holds a slot and can move on towards
  giving it back.
\<close>

definition can_move :: "libs \<Rightarrow> 'w env_reconciler \<Rightarrow> slots_state \<Rightarrow> nat \<Rightarrow> bool" where
  "can_move L R s i \<longleftrightarrow> (\<exists>t. slot_step L R s t \<and> sl_workers t ! i \<noteq> sl_workers s ! i)"

lemma next_step:
  assumes "slots_inv R n s" "at_worker s i (Some (evs, rest))"
    and "case rest of AcquireSlot None # _ \<Rightarrow> tokens s < nat (slot_capacity R) | _ \<Rightarrow> True"
  shows "can_move L R s i"
proof -
  have i: "i < length (sl_workers s)" "sl_workers s ! i = Some (evs, rest)" using assms(2) by (auto simp: at_worker_def)
  show ?thesis
  proof (cases rest)
    case Nil
    then have "at_worker s i (Some (evs, []))" using assms(2) by simp
    from reconcile_ends [OF this, of L R] show ?thesis using i unfolding can_move_def by fastforce
  next
    case (Cons ev es)
    have moved: "sl_workers (s\<lparr> sl_slots := c, sl_workers := (sl_workers s)[i := Some (evs @ [ev], es)] \<rparr>) ! i \<noteq> sl_workers s ! i" for c
      using i by simp
    have at: "at_worker s i (Some (evs, ev # es))" using assms(2) Cons by simp
    show ?thesis
    proof (cases "channel_event ev")
      case False
      from request_done [OF at False, of L R] show ?thesis using moved [of "sl_slots s"] unfolding can_move_def by fastforce
    next
      case True
      then consider "ev = AcquireSlot None" | e where "ev = AcquireSlot (Some e)" | "ev = ReleaseSlot"
        unfolding channel_event_def by (metis option.exhaust)
      then show ?thesis
      proof cases
        case 1
        then have "ch_len (slot R (sl_slots s)) < ch_cap (slot R (sl_slots s))"
          using assms(3) slot_simps(1) [OF assms(1)] slot_simps(2) [of R s] Cons by simp
        from slot_sent [OF at [unfolded 1] refl this, of L] show ?thesis using moved unfolding can_move_def 1 by blast
      next
        case 2
        from wait_cancelled [OF at [unfolded 2], of L R] show ?thesis using moved unfolding can_move_def 2 by blast
      next
        case 3
        have "holds_slot (Some (evs, rest))"
          using at_worker_behaved [OF assms(1,2)] Cons 3 by (simp add: well_behaved_def holds_slot_def)
        then have "0 < holders (sl_workers s)"
          unfolding holders_def using i by (metis (no_types, lifting) filter_empty_conv length_greater_0_conv nth_mem)
        then obtain ch where "sl_slots s = Some ch" "0 < ch_len ch"
          using assms(1) by (auto simp: slots_inv_def tokens_def split: option.splits)
        from slot_received [OF at [unfolded 3] this, of L R] show ?thesis using moved unfolding can_move_def 3 by blast
      qed
    qed
  qed
qed

lemma waits_only_for_a_holder:
  assumes "slots_reachable L R n s" "at_worker s i (Some (evs, rest))" "\<not> can_move L R s i"
  shows "\<exists>j. holds_slot (sl_workers s ! j) \<and> can_move L R s j"
proof -
  have inv: "slots_inv R n s" by (rule reachable_slots_inv [OF assms(1)])
  have "\<not> tokens s < nat (slot_capacity R)"
    using next_step [OF inv assms(2)] assms(3) by (auto split: list.splits event.splits option.splits)
  then have "0 < holders (sl_workers s)" using inv slot_capacity_pos [of R] by (simp add: slots_inv_def)
  then obtain j where j: "j < length (sl_workers s)" "holds_slot (sl_workers s ! j)"
    unfolding holders_def by (auto simp: filter_empty_conv in_set_conv_nth)
  then obtain es ms where at: "at_worker s j (Some (es, ms))"
    by (cases "sl_workers s ! j") (auto simp: holds_slot_def at_worker_def)
  have "disciplined True ms"
    using at_worker_behaved [OF inv at] j at by (auto simp: well_behaved_def holds_slot_def at_worker_def)
  then have "case ms of AcquireSlot None # _ \<Rightarrow> tokens s < nat (slot_capacity R) | _ \<Rightarrow> True"
    by (auto split: list.splits event.splits option.splits)
  from next_step [OF inv at this] j(2) show ?thesis by blast
qed

end
