(* ===== verification/FloxEnvRaces.thy ===== *)
theory FloxEnvRaces
  imports FloxEnvProperties
begin

text \<open>
  Five behaviours of the FloxEnv reconcile that its comments rule out. Four are shown by evaluating
  it in a concrete world in which something else acts while the reconcile waits or builds: an edit of
  the spec and a move of the pin during the wait for a slot, another node's success during a build,
  and a dependency realised on another node only. The fifth, a relock honoured by one node that settles the others,
  holds of every success write.
\<close>

text \<open>The manifests a trace realised with success.\<close>

fun realised_tomls :: "event list \<Rightarrow> string list" where
  "realised_tomls (Realize t q (Inr res) # evs) = rr_manifest_toml q # realised_tomls evs"
| "realised_tomls (ev # evs) = realised_tomls evs"
| "realised_tomls [] = []"

definition edited_spec :: "floxenv \<Rightarrow> floxenv" where
  "edited_spec e = e\<lparr> fe_meta := (fe_meta e)\<lparr> om_generation := 2 \<rparr>,
     fe_spec := (fe_spec e)\<lparr> sp_manifest := Some ''M2'' \<rparr> \<rparr>"

definition edited_while_waiting :: "store env_reconciler" where
  "edited_while_waiting = agent\<lparr> er_wait_slot := (\<lambda>w. (None, edit_env web edited_spec w)) \<rparr>"

text \<open>
  The spec is edited to M2 while the reconcile waits for its slot with M1 in hand. The answer to the
  Realizing patch refreshes the object, so generation 2 is recorded as realised although M1 was
  built; the next reconcile finds the env settled and M2 is never built.
\<close>

theorem edit_while_waiting_is_lost:
  "realised_tomls (trace_of (FloxEnv_Reconcile store_libs edited_while_waiting web) (store_of [pinned_env ''web''])) = [''M1''] \<and>
   (\<exists>e. store_get_env web (world_after (FloxEnv_Reconcile store_libs edited_while_waiting web)
          (store_of [pinned_env ''web''])) = Inr e \<and>
        sp_manifest (fe_spec e) = Some ''M2'' \<and>
        IsStatusConditionTrue list_meta (fe_conditions e) ''Ready'' \<and>
        trace_of (FloxEnv_Reconcile store_libs edited_while_waiting web) (store_of [e]) = [GetFloxEnv web (Inr e)])"
proof -
  have "realised_tomls (trace_of (FloxEnv_Reconcile store_libs edited_while_waiting web) (store_of [pinned_env ''web''])) = [''M1'']"
    by (simp add: go_defs edited_while_waiting_def edited_spec_def)
  moreover have "store_get_env web (world_after (FloxEnv_Reconcile store_libs edited_while_waiting web)
      (store_of [pinned_env ''web''])) = Inr (record_realized store_libs agent [] store_result (edited_spec marked_web))"
    by (simp add: go_defs edited_while_waiting_def edited_spec_def marked_web_def)
  moreover have "trace_of (FloxEnv_Reconcile store_libs edited_while_waiting web)
      (store_of [record_realized store_libs agent [] store_result (edited_spec marked_web)]) =
      [GetFloxEnv web (Inr (record_realized store_libs agent [] store_result (edited_spec marked_web)))]"
    by (simp add: go_defs edited_while_waiting_def edited_spec_def marked_web_def relockAnnotation_def)
  moreover have "sp_manifest (fe_spec (record_realized store_libs agent [] store_result (edited_spec marked_web))) = Some ''M2''"
    by (simp add: record_realized_fields edited_spec_def)
  moreover have "IsStatusConditionTrue list_meta
      (fe_conditions (record_realized store_libs agent [] store_result (edited_spec marked_web))) ''Ready''"
    by (simp add: go_defs edited_spec_def marked_web_def)
  ultimately show ?thesis by blast
qed

text \<open>
  Another agent moves the pin to L2, with the roll that takes, while the reconcile waits for its slot with
  the pin L1 in hand. The node answers L1, which is what the pass read, so the pass rolls nobody; its
  success write moves the pin from L2 back to L1. The consumers keep the digest of L2 that the other
  agent stamped, and a pass that finds L1 pinned and is answered L1 rolls nobody either.
\<close>

definition pin_moved :: "floxenv \<Rightarrow> floxenv" where
  "pin_moved e = e\<lparr> fe_status := (fe_status e)\<lparr> st_lock := ''L2'' \<rparr> \<rparr>"

definition pinned_while_waiting :: "store env_reconciler" where
  "pinned_while_waiting = agent\<lparr> er_wait_slot := (\<lambda>w. (None, edit_env web pin_moved w)) \<rparr>"

theorem pin_moves_back_unrolled:
  "\<exists>base new. PatchFloxEnvStatus base new (Inr new) \<in>
       set (trace_of (FloxEnv_Reconcile store_libs pinned_while_waiting web) (store_of [pinned_env ''web''])) \<and>
     st_lock (fe_status base) = ''L2'' \<and> st_lock (fe_status new) = ''L1'' \<and>
     (\<forall>kd ws. ListWorkloads kd ws \<notin>
       set (trace_of (FloxEnv_Reconcile store_libs pinned_while_waiting web) (store_of [pinned_env ''web''])))"
proof -
  have "trace_of (FloxEnv_Reconcile store_libs pinned_while_waiting web) (store_of [pinned_env ''web'']) =
      [GetFloxEnv web (Inr (pinned_env ''web'')), AcquireSlot None,
       PatchFloxEnvStatus (pinned_env ''web'') marked_web (Inr (pin_moved marked_web)),
       Realize (30 * minute) web_request (Inr store_result),
       PatchFloxEnvStatus (pin_moved marked_web) (record_realized store_libs agent [] store_result (pin_moved marked_web))
         (Inr (record_realized store_libs agent [] store_result (pin_moved marked_web))), ReleaseSlot]"
    by (simp add: go_defs web_defs pinned_while_waiting_def pin_moved_def realize_timeout_def defaultRealizeTimeout_def)
  moreover have "st_lock (fe_status (pin_moved marked_web)) = ''L2''"
      "st_lock (fe_status (record_realized store_libs agent [] store_result (pin_moved marked_web))) = ''L1''"
    by (simp_all add: pin_moved_def record_realized_fields store_result_def)
  ultimately show ?thesis by auto
qed

text \<open>
  Node n2 records its entry while n1 builds. The merge patch of n1 carries the whole list it knew
  with its own entry added, and the entry of n2 is gone.
\<close>

definition other_entry :: node_realization where
  "other_entry = \<lparr> nr_node = ''n2'', nr_ready = True, nr_store_path = ''/nix/store/a'',
     nr_env_path = ''/envs/web'', nr_gcroot_path = ''/gc/web'', nr_observed = 1 \<rparr>"

definition record_other :: "floxenv \<Rightarrow> floxenv" where
  "record_other e = e\<lparr> fe_status := upsertRealization (fe_status e) other_entry \<rparr>"

definition raced_agent :: "store env_reconciler" where
  "raced_agent = agent\<lparr> er_provisioner := (\<lambda>t q w. (Inr store_result, edit_env web record_other w)) \<rparr>"

theorem concurrent_entry_is_lost:
  "\<exists>e. store_get_env web (world_after (FloxEnv_Reconcile store_libs raced_agent web) (store_of [pinned_env ''web''])) = Inr e \<and>
     map nr_node (st_realized (fe_status e)) = [''n1'']"
  by (simp add: go_defs raced_agent_def record_other_def other_entry_def)

text \<open>
  An env that depends on \<open>base\<close>, which is Ready on n2 and was never realised on n1: n1 goes ahead.
\<close>

definition base_elsewhere :: floxenv where
  "base_elsewhere = (sample_env ''base'')\<lparr> fe_status := (fe_status (sample_env ''base''))\<lparr>
     st_realized := [other_entry], st_conditions := [ready_condition ConditionTrue ''Realized''] \<rparr> \<rparr>"

definition depends_on_base :: floxenv where
  "depends_on_base = (pinned_env ''web'')\<lparr> fe_spec := (fe_spec (pinned_env ''web''))\<lparr> sp_depends_on := [''base''] \<rparr> \<rparr>"

theorem dependency_ready_elsewhere:
  "lookup_by nr_node ''n1'' (st_realized (fe_status base_elsewhere)) = None \<and>
   realised_tomls (trace_of (FloxEnv_Reconcile store_libs agent web) (store_of [depends_on_base, base_elsewhere])) = [''M1'']"
  by (simp add: go_defs base_elsewhere_def depends_on_base_def other_entry_def dep_ready_def)

text \<open>
  A relock is honoured once in the cluster, not once per node. After the success write of one node,
  every node with an entry at this generation finds the env settled, with the store path it had
  realised under the old lock.
\<close>

theorem relock_settles_other_nodes:
  assumes "lookup_by nr_node (er_node_name R2) (st_realized (fe_status base)) = Some nr"
    and "er_node_name R2 \<noteq> er_node_name R1" "nr_ready nr" "nr_observed nr = fe_generation base"
  shows "alreadyRealized R2 (record_realized L R1 (relock_of base) res base) \<and>
    lookup_by nr_node (er_node_name R2) (st_realized (fe_status (record_realized L R1 (relock_of base) res base))) = Some nr"
proof -
  have kept: "lookup_by nr_node (er_node_name R2) (upsert_list (node_entry R1 base res) (st_realized (fe_status base))) = Some nr"
    using realized.ups_other [of "er_node_name R2" "node_entry R1 base res"] assms(1,2) by (simp add: node_entry_def)
  have "nr \<in> set (upsert_list (node_entry R1 base res) (st_realized (fe_status base)))" "nr_node nr = er_node_name R2"
    using lookup_by_Some [OF kept] by auto
  then show ?thesis
    using assms(3,4) kept
    by (auto simp: alreadyRealized_def record_realized_fields relock_of_def list_ex_iff)
qed

end
