(* ===== verification/ManifestProperties.thy ===== *)
theory ManifestProperties
  imports FloxEnvPasses Examples
begin

text \<open>
  What \<open>spec.manifest\<close> goes through: \<open>floxcatalog:\<close> references parse back to what they were written
  from, a resolution that ends leaves none of them in the install table, and the serialised
  manifest always has a schema version.
\<close>

subsection \<open>Catalog references\<close>

text \<open>A reference as a manifest spells it: \<open>floxcatalog:[<ns>/]<name>[#<output>]\<close>.\<close>

definition show_catalog_ref :: "catalog_ref \<Rightarrow> string" where
  "show_catalog_ref r = floxCatalogScheme @
     (if cr_namespace r = [] then [] else cr_namespace r @ ''/'') @ cr_name r @
     (if cr_output r = [] then [] else ''#'' @ cr_output r)"

text \<open>
  Writing a catalog reference and parsing it gives it back, for every namespace and name
  without the two separators; the output selector may be any string, separators included.
\<close>

theorem catalog_ref_roundtrip:
  assumes "cr_name r \<noteq> []"
    and "CHR ''/'' \<notin> set (cr_namespace r @ cr_name r)" and "CHR ''#'' \<notin> set (cr_namespace r @ cr_name r)"
  shows "parseFloxCatalogRef L (show_catalog_ref r) = Inr r"
proof -
  define body where "body = (if cr_namespace r = [] then [] else cr_namespace r @ ''/'') @ cr_name r"
  have "CHR ''#'' \<notin> set body" using assms(3) by (simp add: body_def)
  then have out: "(case IndexByte (body @ (if cr_output r = [] then [] else ''#'' @ cr_output r)) (CHR ''#'') of
       Some i \<Rightarrow> (drop (i + 1) (body @ (if cr_output r = [] then [] else ''#'' @ cr_output r)),
         take i (body @ (if cr_output r = [] then [] else ''#'' @ cr_output r)))
     | None \<Rightarrow> ([], body @ (if cr_output r = [] then [] else ''#'' @ cr_output r))) = (cr_output r, body)"
    by (simp add: IndexByte_append)
  have ns: "(case IndexByte body (CHR ''/'') of Some i \<Rightarrow> (take i body, drop (i + 1) body) | None \<Rightarrow> ([], body)) =
      (cr_namespace r, cr_name r)"
    using assms(2) by (simp add: body_def IndexByte_append)
  have trim: "TrimPrefix (show_catalog_ref r) floxCatalogScheme = body @ (if cr_output r = [] then [] else ''#'' @ cr_output r)"
    by (simp add: show_catalog_ref_def body_def)
  show ?thesis
    unfolding parseFloxCatalogRef_def Let_def trim out prod.case ns using assms(1) by simp
qed

theorem catalog_ref_roundtrip_witness:
  "parseFloxCatalogRef store_libs (show_catalog_ref
      \<lparr> cr_namespace = ''ns'', cr_name = ''tools'', cr_output = ''pkgs/x#dev'' \<rparr>) =
    Inr \<lparr> cr_namespace = ''ns'', cr_name = ''tools'', cr_output = ''pkgs/x#dev'' \<rparr>"
  by (rule catalog_ref_roundtrip) simp_all

subsection \<open>Resolution\<close>

lemma entry_resolved_no_catalog:
  assumes "entry_resolved L ns evs p p'"
    and "\<forall>k flake. GetFloxCatalog k (Inr flake) \<in> set evs \<longrightarrow> HasPrefix (ct_flake_ref (fc_status flake)) ''tarball+''"
  shows "catalog_entry (snd p') = None"
proof (cases "catalog_entry (snd p)")
  case None
  then show ?thesis using assms(1) by (simp add: entry_resolved_def)
next
  case (Some e)
  then obtain entry flake k out where e: "GetFloxCatalog k (Inr flake) \<in> set evs"
      "snd p' = JObject (AList.update ''flake'' (JString (concrete_ref (ct_flake_ref (fc_status flake)) out)) entry)"
    using assms(1) by (cases e) (auto simp: entry_resolved_def)
  have "HasPrefix (concrete_ref (ct_flake_ref (fc_status flake)) out) ''tarball+''"
    using assms(2) e(1) by (fastforce simp: concrete_ref_def HasPrefix_iff)
  then have "\<not> HasPrefix (concrete_ref (ct_flake_ref (fc_status flake)) out) floxCatalogScheme"
    by (auto simp: HasPrefix_iff floxCatalogScheme_def)
  then show ?thesis by (simp add: e(2) catalog_entry_def AList.update_conv')
qed

text \<open>
  C30: A resolution that neither fails nor waits is complete. When every catalog it read had a
  resolved \<open>tarball+\<close> reference, the manifest it leaves has the same install ids in the same order,
  no \<open>floxcatalog:\<close> reference among them, and every other table untouched.
\<close>

theorem resolution_complete:
  assumes "outcome_of (resolveFlakeInstalls L C ns m) w = (Inr False, m')"
    and "map_of m ''install'' = Some (JObject install)"
    and "\<forall>k flake. GetFloxCatalog k (Inr flake) \<in> set (trace_of (resolveFlakeInstalls L C ns m) w) \<longrightarrow>
      HasPrefix (ct_flake_ref (fc_status flake)) ''tarball+''"
  shows "\<exists>install'. map_of m' ''install'' = Some (JObject install') \<and> map fst install' = map fst install \<and>
    (\<forall>v \<in> snd ` set install'. catalog_entry v = None) \<and>
    (\<forall>table. table \<noteq> ''install'' \<longrightarrow> map_of m' table = map_of m table)"
proof -
  let ?evs = "trace_of (resolveFlakeInstalls L C ns m) w"
  have "manifest_resolved L ns ?evs m m'"
    using emits_run [OF resolveFlakeInstalls_emits [of L C ns m], of w] assms(1) by simp
  then obtain install' where inst: "list_all2 (entry_resolved L ns ?evs) install install'"
      "m' = AList.update ''install'' (JObject install') m"
    using assms(2) by (auto simp: manifest_resolved_def)
  have "map fst install' = map fst install"
    using inst(1) by (induction rule: list_all2_induct) (auto simp: entry_resolved_def)
  moreover have "\<forall>v \<in> snd ` set install'. catalog_entry v = None"
    using inst(1) by (induction rule: list_all2_induct) (auto dest: entry_resolved_no_catalog [OF _ assms(3)])
  ultimately show ?thesis by (auto simp: inst(2) AList.update_conv')
qed

lemma sample_resolution:
  "run_state (resolveFlakeInstalls store_libs store_client ''ns'' (install_of ''floxcatalog:tools#jq'')) (start catalog_store) =
    ((Inr False, install_of ''tarball+http://10.0.0.1/a.tgz#jq''),
     \<lparr> world = catalog_store, trace = [GetFloxCatalog (ObjKey ''ns'' ''tools'') (Inr tools_catalog)] \<rparr>)"
  by (simp add: go_defs parseFloxCatalogRef_def catalog_entry_def concrete_ref_def floxCatalogScheme_def HasPrefix_def
      TrimPrefix_def)

theorem resolution_complete_witness:
  "\<exists>install'. map_of (install_of ''tarball+http://10.0.0.1/a.tgz#jq'') ''install'' = Some (JObject install') \<and>
    map fst install' = map fst [(''jq'', JObject [(''flake'', JString ''floxcatalog:tools#jq'')])] \<and>
    (\<forall>v \<in> snd ` set install'. catalog_entry v = None) \<and>
    (\<forall>table. table \<noteq> ''install'' \<longrightarrow> map_of (install_of ''tarball+http://10.0.0.1/a.tgz#jq'') table =
       map_of (install_of ''floxcatalog:tools#jq'') table)"
  by (rule resolution_complete [where L = store_libs and C = store_client and ns = "''ns''" and w = catalog_store])
    (simp_all add: outcome_of_def trace_of_def sample_resolution, simp_all add: install_of_def tools_catalog_def HasPrefix_def)

text \<open>
  A non-empty manifest is serialised with a schema version: its own when it has one, 1.14.0
  otherwise, and with everything else as it was; an empty manifest is the empty file.
\<close>

theorem serialised_manifest:
  "manifestToTOML L m =
     (if m = [] then Inr []
      else case toml_Marshal L (if ''schema-version'' \<in> fst ` set m then m
             else m @ [(''schema-version'', JString ''1.14.0'')]) of
        Inl e \<Rightarrow> Inl (WrapErr ''marshal manifest.toml'' e)
      | Inr out \<Rightarrow> Inr out)"
proof -
  let ?k = "''schema-version''" and ?v = "JString ''1.14.0''"
  have append: "AList.update k v xs = xs @ [(k, v)]" if "k \<notin> fst ` set xs" for k :: string and v :: json and xs
    using that by (induction xs) auto
  have "(case map_of m ?k of None \<Rightarrow> AList.update ?k ?v m | Some _ \<Rightarrow> m) = (if ?k \<in> fst ` set m then m else m @ [(?k, ?v)])"
  proof (cases "?k \<in> fst ` set m")
    case True
    then have "map_of m ?k \<noteq> None" by (simp only: map_of_eq_None_iff not_not)
    then show ?thesis using True by auto
  next
    case False
    then have "map_of m ?k = None" by (simp only: map_of_eq_None_iff not_False_eq_True)
    then show ?thesis using append [OF False] False by simp
  qed
  then show ?thesis by (simp only: manifestToTOML_def floxSchemaVersion_def Let_def)
qed

end
