(* ===== verification/RestartProperties.thy ===== *)
theory RestartProperties
  imports Restart Examples
begin

text \<open>
  The roll of a changed lock: which workloads it patches and how, that one failure does not keep it
  from the rest, that it settles, and the shape of the digest it stamps.
\<close>

text \<open>The patches of a run over a list of workloads, and how its errors come from their answers.\<close>

definition stamp_run :: "env_ref \<Rightarrow> string \<Rightarrow> workload list \<Rightarrow> go_error option list \<Rightarrow> event list \<Rightarrow> bool" where
  "stamp_run target digest ws errs evs \<longleftrightarrow>
     (\<exists>answers. length answers = length (filter (needs_roll target digest) ws) \<and>
        evs = map2 (\<lambda>wl r. PatchWorkload wl (stamped digest wl) r) (filter (needs_roll target digest) ws) answers \<and>
        (list_all Option.is_none errs \<longleftrightarrow> list_all Option.is_none answers))"

lemma stamp_run_append:
  assumes "stamp_run target digest ws errs evs" "stamp_run target digest ws' errs' evs'"
  shows "stamp_run target digest (ws @ ws') (errs @ errs') (evs @ evs')"
proof -
  obtain as bs where "length as = length (filter (needs_roll target digest) ws)"
      "evs = map2 (\<lambda>wl r. PatchWorkload wl (stamped digest wl) r) (filter (needs_roll target digest) ws) as"
      "list_all Option.is_none errs \<longleftrightarrow> list_all Option.is_none as"
    "length bs = length (filter (needs_roll target digest) ws')"
      "evs' = map2 (\<lambda>wl r. PatchWorkload wl (stamped digest wl) r) (filter (needs_roll target digest) ws') bs"
      "list_all Option.is_none errs' \<longleftrightarrow> list_all Option.is_none bs"
    using assms unfolding stamp_run_def by blast
  then show ?thesis unfolding stamp_run_def by (intro exI [of _ "as @ bs"]) simp
qed

lemma stamp_run_one:
  "if needs_roll target digest wl then evs = [PatchWorkload wl (stamped digest wl) r] else r = None \<and> evs = [] \<Longrightarrow>
    stamp_run target digest [wl] [r] evs"
  unfolding stamp_run_def by (intro exI [of _ "if needs_roll target digest wl then [r] else []"]) (auto split: if_splits)

lemma stamp_each_run: "emits (stamp_each C target digest ws) (stamp_run target digest ws)"
proof (induction ws)
  case Nil
  show ?case unfolding stamp_each.simps by (intro emits_intros) (simp add: stamp_run_def)
next
  case (Cons w ws)
  show ?case
    unfolding stamp_each.simps
    by (rule emits_bind [OF stampConsumer_emits], rule emits_bind [OF Cons.IH], rule emits_return)
      (use stamp_run_append [OF stamp_run_one] in fastforce)
qed

lemma errors_Join_is_none: "errors_Join errs = None \<longleftrightarrow> list_all Option.is_none errs"
  by (auto simp: list_all_iff Option.is_none_def)

definition list_event :: "event \<Rightarrow> bool" where
  "list_event ev \<longleftrightarrow> (case ev of ListWorkloads kd r \<Rightarrow> True | _ \<Rightarrow> False)"

text \<open>
  C23: A roll lists the Deployments, DaemonSets and StatefulSets of the whole cluster; if a listing
  fails it patches nothing and says so. Otherwise it patches, in the order listed, exactly the
  workloads that consume the env and lack the digest, each once, past any failure, and reports no
  error exactly when every patch was accepted.
\<close>

theorem roll_patches_consumers:
  "(list_all list_event (trace_of (restartConsumers C env lock) w) \<and> outcome_of (restartConsumers C env lock) w \<noteq> None) \<or>
   (\<exists>ds dss sss answers.
      trace_of (restartConsumers C env lock) w =
        [ListWorkloads Deployment (Inr ds), ListWorkloads DaemonSet (Inr dss), ListWorkloads StatefulSet (Inr sss)] @
        map2 (\<lambda>wl r. PatchWorkload wl (stamped (lockDigest lock) wl) r)
          (filter (needs_roll (env_target env) (lockDigest lock)) (ds @ dss @ sss)) answers \<and>
      length answers = length (filter (needs_roll (env_target env) (lockDigest lock)) (ds @ dss @ sss)) \<and>
      (outcome_of (restartConsumers C env lock) w = None \<longleftrightarrow> list_all Option.is_none answers))"
proof -
  let ?t = "env_target env" and ?d = "lockDigest lock"
  define Q where "Q out evs \<longleftrightarrow>
     (list_all list_event evs \<and> out \<noteq> None) \<or>
     (\<exists>ds dss sss errs patches. evs = [ListWorkloads Deployment (Inr ds), ListWorkloads DaemonSet (Inr dss),
          ListWorkloads StatefulSet (Inr sss)] @ patches \<and>
        stamp_run ?t ?d (ds @ dss @ sss) errs patches \<and> out = errors_Join errs)"
    for out :: "go_error option" and evs
  have joined: "Q (errors_Join (e1 @ e2 @ e3)) (ListWorkloads Deployment (Inr ds) # ListWorkloads DaemonSet (Inr dss) #
      ListWorkloads StatefulSet (Inr sss) # s1 @ s2 @ s3 @ [])"
    if "stamp_run ?t ?d ds e1 s1" "stamp_run ?t ?d dss e2 s2" "stamp_run ?t ?d sss e3 s3" for ds dss sss e1 e2 e3 s1 s2 s3
    using stamp_run_append [OF that(1) stamp_run_append [OF that(2,3)]]
    unfolding Q_def by (intro disjI2 exI [of _ ds] exI [of _ dss] exI [of _ sss] exI conjI) auto
  have "emits (restartConsumers C env lock) Q"
    unfolding restartConsumers_def list_workloads_def Let_def
    by (intro emits_intros emits_bind [OF stamp_each_run])
      ((hypsubst, rule joined; assumption) | simp add: Q_def list_event_def)+
  from emits_run [OF this, of w]
  show ?thesis unfolding Q_def
  proof (elim disjE exE conjE)
    fix ds dss sss errs patches
    assume run: "stamp_run ?t ?d (ds @ dss @ sss) errs patches"
      and *: "trace_of (restartConsumers C env lock) w = [ListWorkloads Deployment (Inr ds),
          ListWorkloads DaemonSet (Inr dss), ListWorkloads StatefulSet (Inr sss)] @ patches"
        "outcome_of (restartConsumers C env lock) w = errors_Join errs"
    from run obtain answers where "length answers = length (filter (needs_roll ?t ?d) (ds @ dss @ sss))"
        "patches = map2 (\<lambda>wl r. PatchWorkload wl (stamped ?d wl) r) (filter (needs_roll ?t ?d) (ds @ dss @ sss)) answers"
        "list_all Option.is_none errs \<longleftrightarrow> list_all Option.is_none answers"
      unfolding stamp_run_def by blast
    then show ?thesis
      unfolding * errors_Join_is_none
      by (intro disjI2 exI [of _ ds] exI [of _ dss] exI [of _ sss] exI [of _ answers] conjI) (simp_all only:)
  qed simp
qed

text \<open>
  A roll settles. Stamping an already stamped workload again sends nothing and changes
  nothing; the stamp leaves every other annotation alone, and with it the envs the workload consumes.
\<close>

theorem stamp_settles:
  "run_state (stampConsumer C (stamped digest wl) target digest) s = (None, s) \<and>
   map_get (wl_template_annotations (stamped digest wl)) k =
     (if k = restartMarker then digest else map_get (wl_template_annotations wl) k) \<and>
   RefsFromAnnotations (wl_template_annotations (stamped digest wl)) = RefsFromAnnotations (wl_template_annotations wl)"
proof -
  have "map_get (wl_template_annotations (stamped digest wl)) restartMarker = digest"
    by (simp add: stamped_def)
  then have "run_state (stampConsumer C (stamped digest wl) target digest) s = (None, s)"
    by (simp add: stampConsumer_def)
  then show ?thesis
    by (intro conjI refs_stamped) (simp_all add: stamped_def)
qed

text \<open>The digest of a lock is twelve lower-case hexadecimal digits, whatever the lock.\<close>

theorem digest_shape:
  "length (lockDigest lock) = 12 \<and> set (lockDigest lock) \<subseteq> set ''0123456789abcdef''"
  unfolding lockDigest_def using hex_chars by simp

end
