(* ===== verification/PodGate.thy ===== *)
theory PodGate
  imports Restart
begin

text \<open>
  \<open>internal/controller/podgate_controller.go\<close>: the gate reconciler. A node set is a Go map with
  unit values; here a list without duplicates, whose order is the order \<open>keys\<close> ranges in. The
  affinity is the pod's pointer chain as nested options.
\<close>

definition hostnameLabel :: string where "hostnameLabel = ''kubernetes.io/hostname''"

definition hasGate :: "pod \<Rightarrow> bool" where
  "hasGate pod \<longleftrightarrow> list_ex (\<lambda>g. g = SchedulingGateName) (pd_gates pod)"

subsection \<open>Node sets\<close>

fun ready_nodes_loop :: "int \<Rightarrow> node_realization list \<Rightarrow> string list \<Rightarrow> string list" where
  "ready_nodes_loop g [] nodes = nodes"
| "ready_nodes_loop g (nr # nrs) nodes =
     ready_nodes_loop g nrs
       (if nr_ready nr \<and> nr_observed nr = g then List.insert (nr_node nr) nodes else nodes)"

definition readyNodesForEnv :: "floxenv \<Rightarrow> string list" where
  "readyNodesForEnv env = ready_nodes_loop (fe_generation env) (st_realized (fe_status env)) []"

definition intersect :: "string list \<Rightarrow> string list \<Rightarrow> string list" where
  "intersect a b = filter (\<lambda>k. List.member b k) a"

subsection \<open>Narrowing the affinity\<close>

definition hasRequirement :: "requirement list \<Rightarrow> requirement \<Rightarrow> bool" where
  "hasRequirement exprs want \<longleftrightarrow>
     list_ex (\<lambda>e. rq_key e = rq_key want \<and> rq_operator e = rq_operator want \<and> rq_values e = rq_values want) exprs"

definition hostname_in :: "string list \<Rightarrow> requirement" where
  "hostname_in nodes = \<lparr> rq_key = hostnameLabel, rq_operator = OpIn, rq_values = nodes \<rparr>"

definition add_requirement :: "requirement \<Rightarrow> selector_term \<Rightarrow> selector_term" where
  "add_requirement req t =
     (if hasRequirement (tm_expressions t) req then t
      else t\<lparr> tm_expressions := tm_expressions t @ [req] \<rparr>)"

definition no_node_affinity :: node_affinity where
  "no_node_affinity = \<lparr> na_required = None, na_preferred = [] \<rparr>"

definition no_affinity :: affinity where
  "no_affinity = \<lparr> af_node = None, af_pod = None, af_pod_anti = None \<rparr>"

definition narrow_terms :: "requirement \<Rightarrow> selector_term list option \<Rightarrow> selector_term list" where
  "narrow_terms req required =
     (case required of
        None \<Rightarrow> [\<lparr> tm_expressions = [req], tm_fields = [] \<rparr>]
      | Some terms \<Rightarrow> if terms = [] then [\<lparr> tm_expressions = [req], tm_fields = [] \<rparr>]
          else map (add_requirement req) terms)"

definition narrowToNodes :: "pod \<Rightarrow> string list \<Rightarrow> pod" where
  "narrowToNodes pod nodes = (
     let aff = (case pd_affinity pod of None \<Rightarrow> no_affinity | Some a \<Rightarrow> a);
         na = (case af_node aff of None \<Rightarrow> no_node_affinity | Some n \<Rightarrow> n)
     in pod\<lparr> pd_affinity := Some (aff\<lparr> af_node :=
          Some (na\<lparr> na_required := Some (narrow_terms (hostname_in nodes) (na_required na)) \<rparr>) \<rparr>) \<rparr>)"

subsection \<open>The reconcile\<close>

definition released :: "pod \<Rightarrow> string list \<Rightarrow> pod" where
  "released pod eligible =
     (let narrowed = (if eligible \<noteq> [] then narrowToNodes pod eligible else pod)
      in narrowed\<lparr> pd_gates := filter (\<lambda>g. g \<noteq> SchedulingGateName) (pd_gates narrowed) \<rparr>)"

definition release :: "'w client \<Rightarrow> pod \<Rightarrow> string list \<Rightarrow> ('w st, outcome) state" where
  "release C pod eligible = do {
     r \<leftarrow> update_pod C (released pod eligible);
     State_Monad.return (done_result, r)
   }"

definition matches_ref :: "env_ref \<Rightarrow> floxenv \<Rightarrow> bool" where
  "matches_ref ref env \<longleftrightarrow> effectiveFolder env = ref_folder ref \<and> fe_name env = ref_name ref"

definition resolveFloxEnv :: "'w client \<Rightarrow> env_ref \<Rightarrow> ('w st, go_error + floxenv option) state" where
  "resolveFloxEnv C ref = do {
     r \<leftarrow> list_envs C None;
     State_Monad.return (case r of Inl e \<Rightarrow> Inl e | Inr envs \<Rightarrow> Inr (List.find (matches_ref ref) envs))
   }"

text \<open>
  The loop over the refs. The accumulator is \<open>None\<close> before the first ref. It answers an error,
  \<open>None\<close> to stay gated, or the eligible nodes.
\<close>

fun eligible_nodes ::
  "'w client \<Rightarrow> string list option \<Rightarrow> env_ref list \<Rightarrow> ('w st, go_error + string list option) state" where
  "eligible_nodes C acc [] = State_Monad.return (Inr (Some (case acc of None \<Rightarrow> [] | Some ns \<Rightarrow> ns)))"
| "eligible_nodes C acc (ref # refs) = do {
     got \<leftarrow> resolveFloxEnv C ref;
     case got of
       Inl e \<Rightarrow> State_Monad.return (Inl e)
     | Inr found \<Rightarrow> (case found of
         None \<Rightarrow> State_Monad.return (Inr None)
       | Some env \<Rightarrow>
           let nodes = readyNodesForEnv env;
               eligible = (case acc of None \<Rightarrow> nodes | Some ns \<Rightarrow> intersect ns nodes)
           in if eligible = [] then State_Monad.return (Inr None)
              else eligible_nodes C (Some eligible) refs)
   }"

definition PodGate_Reconcile :: "'w client \<Rightarrow> objkey \<Rightarrow> ('w st, outcome) state" where
  "PodGate_Reconcile C req = do {
     got \<leftarrow> get_pod C req;
     case got of
       Inl e \<Rightarrow> State_Monad.return (done_result, IgnoreNotFound e)
     | Inr pod \<Rightarrow>
         if \<not> hasGate pod then State_Monad.return (done_result, None)
         else
           let refs = RefsFromAnnotations (pd_annotations pod)
           in if refs = [] then release C pod []
              else do {
                x \<leftarrow> eligible_nodes C None refs;
                case x of
                  Inl e \<Rightarrow> State_Monad.return (done_result, Some e)
                | Inr decision \<Rightarrow> (case decision of
                    None \<Rightarrow> State_Monad.return (done_result, None)
                  | Some eligible \<Rightarrow> release C pod eligible)
              }
   }"

text \<open>The map function of the FloxEnv watch.\<close>

definition pod_key :: "pod \<Rightarrow> objkey" where
  "pod_key p = ObjKey (om_namespace (pd_meta p)) (om_name (pd_meta p))"

definition gatedPodsForEnv :: "'w client \<Rightarrow> floxenv \<Rightarrow> ('w st, objkey list) state" where
  "gatedPodsForEnv C env = do {
     r \<leftarrow> list_pods C;
     State_Monad.return (case r of
       Inl e \<Rightarrow> []
     | Inr pods \<Rightarrow> map pod_key (filter (\<lambda>p. hasGate p \<and>
         list_ex (\<lambda>ref. ref = env_target env) (RefsFromAnnotations (pd_annotations p))) pods))
   }"

end
