(* ===== verification/PodGateProperties.thy ===== *)
theory PodGateProperties
  imports PodGate Examples
begin

text \<open>
  What the gate reconciler promises: a pod is released only to nodes that hold every env it
  consumes, it is released as soon as there is such a node, its own constraints still hold, and the
  FloxEnv watch wakes exactly the pods the env concerns.
\<close>

subsection \<open>Eligible nodes\<close>

definition realised_on :: "string \<Rightarrow> floxenv \<Rightarrow> bool" where
  "realised_on n env \<longleftrightarrow> list_ex (\<lambda>nr. nr_node nr = n \<and> nr_ready nr \<and> nr_observed nr = fe_generation env)
     (st_realized (fe_status env))"

lemma set_ready_nodes_loop:
  "set (ready_nodes_loop g nrs nodes) = set nodes \<union> nr_node ` {nr \<in> set nrs. nr_ready nr \<and> nr_observed nr = g}"
  by (induction g nrs nodes rule: ready_nodes_loop.induct) auto

lemma set_readyNodesForEnv: "n \<in> set (readyNodesForEnv env) \<longleftrightarrow> realised_on n env"
  by (auto simp: readyNodesForEnv_def set_ready_nodes_loop realised_on_def list_ex_iff)

lemma set_intersect [simp]: "set (intersect a b) = set a \<inter> set b"
  by (auto simp: intersect_def)

text \<open>A ref is served on a node by an env listed in the trace.\<close>

definition served :: "event list \<Rightarrow> env_ref \<Rightarrow> string \<Rightarrow> bool" where
  "served evs ref n \<longleftrightarrow> (\<exists>envs env. ListFloxEnvs None (Inr envs) \<in> set evs \<and> env \<in> set envs \<and>
     effectiveFolder env = ref_folder ref \<and> fe_name env = ref_name ref \<and> realised_on n env)"

lemma served_mono: "served evs ref n \<Longrightarrow> set evs \<subseteq> set evs' \<Longrightarrow> served evs' ref n"
  unfolding served_def by blast

fun env_listing :: "event \<Rightarrow> bool" where
  "env_listing (ListFloxEnvs ns r) = True"
| "env_listing _ = False"

definition chosen :: "string list option \<Rightarrow> env_ref list \<Rightarrow> go_error + string list option \<Rightarrow> event list \<Rightarrow> bool" where
  "chosen acc refs x evs \<longleftrightarrow> list_all env_listing evs \<and>
     (\<forall>ns. x = Inr (Some ns) \<longrightarrow>
        (case acc of None \<Rightarrow> refs \<noteq> [] \<longrightarrow> ns \<noteq> [] | Some prev \<Rightarrow> set ns \<subseteq> set prev \<and> (prev \<noteq> [] \<longrightarrow> ns \<noteq> [])) \<and>
        (\<forall>ref \<in> set refs. \<forall>n \<in> set ns. served evs ref n))"

lemma find_matches:
  "List.find (matches_ref ref) envs = Some env \<Longrightarrow>
    env \<in> set envs \<and> effectiveFolder env = ref_folder ref \<and> fe_name env = ref_name ref"
  by (auto simp: find_Some_iff matches_ref_def)

lemma chosen_Cons:
  assumes "chosen (Some eligible) refs x evs" "eligible \<noteq> []"
    and "env \<in> set envs \<and> effectiveFolder env = ref_folder ref \<and> fe_name env = ref_name ref"
    and "eligible = (case acc of None \<Rightarrow> readyNodesForEnv env | Some ns \<Rightarrow> intersect ns (readyNodesForEnv env))"
  shows "chosen acc (ref # refs) x (ListFloxEnvs None (Inr envs) # evs)"
proof -
  let ?evs = "ListFloxEnvs None (Inr envs) # evs"
  have ready: "realised_on n env" if "n \<in> set eligible" for n
    using that assms(4) by (auto simp: set_readyNodesForEnv split: option.splits)
  have here: "served ?evs ref n" if "n \<in> set eligible" for n
    using assms(3) ready [OF that] unfolding served_def by auto
  have sub: "case acc of None \<Rightarrow> True | Some prev \<Rightarrow> set eligible \<subseteq> set prev"
    using assms(4) by (auto split: option.splits)
  have "(case acc of None \<Rightarrow> ref # refs \<noteq> [] \<longrightarrow> ns \<noteq> [] | Some prev \<Rightarrow> set ns \<subseteq> set prev \<and> (prev \<noteq> [] \<longrightarrow> ns \<noteq> [])) \<and>
      (\<forall>ref' \<in> set (ref # refs). \<forall>n \<in> set ns. served ?evs ref' n)" if x: "x = Inr (Some ns)" for ns
  proof -
    have ns: "set ns \<subseteq> set eligible" "ns \<noteq> []" "\<forall>ref \<in> set refs. \<forall>n \<in> set ns. served evs ref n"
      using assms(1,2) x by (auto simp: chosen_def)
    have "served ?evs ref' n" if "ref' \<in> set (ref # refs)" "n \<in> set ns" for ref' n
    proof (cases "ref' = ref")
      case True
      then show ?thesis using that(2) ns(1) here by blast
    next
      case False
      then have "served evs ref' n" using that ns(3) by simp
      then show ?thesis by (rule served_mono) auto
    qed
    then show ?thesis using ns(1,2) sub by (cases acc) auto
  qed
  then show ?thesis using assms(1) by (simp add: chosen_def)
qed

lemma chosen_stop [simp]:
  "chosen acc (ref # refs) (Inl e) [ListFloxEnvs ns r]"
  "chosen acc (ref # refs) (Inr None) [ListFloxEnvs ns r]"
  by (simp_all add: chosen_def)

lemma eligible_nodes_emits: "emits (eligible_nodes C acc refs) (chosen acc refs)"
proof (induction refs arbitrary: acc)
  case Nil
  show ?case unfolding eligible_nodes.simps
    by (intro emits_intros) (auto simp: chosen_def split: option.splits)
next
  case (Cons ref refs)
  show ?case
    unfolding eligible_nodes.simps resolveFloxEnv_def list_envs_def Let_def
    by (intro emits_intros emits_mono [OF Cons.IH])
      (auto split: sum.splits intro: chosen_Cons [OF _ _ find_matches refl])
qed

text \<open>The whole pass: it only ever writes the pod, as its last act.\<close>

definition gate_trace :: "objkey \<Rightarrow> outcome \<Rightarrow> event list \<Rightarrow> bool" where
  "gate_trace req out evs \<longleftrightarrow>
     (\<exists>got. evs = [GetPod req got] \<and> (case got of Inl e \<Rightarrow> out = (done_result, IgnoreNotFound e)
        | Inr pod \<Rightarrow> \<not> hasGate pod \<and> out = (done_result, None))) \<or>
     (\<exists>pod listings x. hasGate pod \<and>
        chosen None (RefsFromAnnotations (pd_annotations pod)) x listings \<and>
        (case x of
           Inl e \<Rightarrow> evs = GetPod req (Inr pod) # listings \<and> out = (done_result, Some e)
         | Inr None \<Rightarrow> evs = GetPod req (Inr pod) # listings \<and> out = (done_result, None)
         | Inr (Some eligible) \<Rightarrow> \<exists>r. evs = GetPod req (Inr pod) # listings @ [UpdatePod (released pod eligible) r] \<and>
             out = (done_result, r)))"

lemma release_emits:
  "emits (release C pod eligible) (\<lambda>out evs. \<exists>r. evs = [UpdatePod (released pod eligible) r] \<and> out = (done_result, r))"
  unfolding release_def update_pod_def by (intro emits_intros) simp

lemma gate_read:
  "(case got of Inl e \<Rightarrow> out = (done_result, IgnoreNotFound e)
     | Inr pod \<Rightarrow> \<not> hasGate pod \<and> out = (done_result, None)) \<Longrightarrow> gate_trace req out [GetPod req got]"
  unfolding gate_trace_def by blast

lemma gate_decided:
  assumes "hasGate pod" "chosen None (RefsFromAnnotations (pd_annotations pod)) x listings"
    and "case x of
           Inl e \<Rightarrow> rest = [] \<and> out = (done_result, Some e)
         | Inr None \<Rightarrow> rest = [] \<and> out = (done_result, None)
         | Inr (Some eligible) \<Rightarrow> \<exists>r. rest = [UpdatePod (released pod eligible) r] \<and> out = (done_result, r)"
  shows "gate_trace req out (GetPod req (Inr pod) # listings @ rest)"
  unfolding gate_trace_def
  by (intro disjI2 exI [of _ pod] exI [of _ listings] exI [of _ x]) (use assms in \<open>auto split: sum.splits option.splits\<close>)

lemma gate_stopped:
  assumes "hasGate pod"
  shows "chosen None (RefsFromAnnotations (pd_annotations pod)) (Inl e) listings \<Longrightarrow>
      gate_trace req (done_result, Some e) (GetPod req (Inr pod) # listings)"
    and "chosen None (RefsFromAnnotations (pd_annotations pod)) (Inr None) listings \<Longrightarrow>
      gate_trace req (done_result, None) (GetPod req (Inr pod) # listings)"
  using gate_decided [OF assms, of "Inl e" listings "[]"] gate_decided [OF assms, of "Inr None" listings "[]"]
  by simp_all

lemma PodGate_Reconcile_emits: "emits (PodGate_Reconcile C req) (gate_trace req)"
proof -
  have decide: "emits (State_Monad.bind (eligible_nodes C None (RefsFromAnnotations (pd_annotations pod)))
      (\<lambda>x. case x of Inl e \<Rightarrow> State_Monad.return (done_result, Some e)
        | Inr decision \<Rightarrow> (case decision of None \<Rightarrow> State_Monad.return (done_result, None)
          | Some eligible \<Rightarrow> release C pod eligible)))
      (\<lambda>out evs. gate_trace req out (GetPod req (Inr pod) # evs))" if "hasGate pod" for pod
    by (rule emits_bind [OF eligible_nodes_emits], intro emits_intros emits_mono [OF release_emits])
      (auto intro: gate_decided [OF that] gate_stopped [OF that])
  have direct: "emits (release C pod []) (\<lambda>out evs. gate_trace req out (GetPod req (Inr pod) # evs))"
    if "hasGate pod" "RefsFromAnnotations (pd_annotations pod) = []" for pod
  proof (rule emits_mono [OF release_emits])
    fix out evs
    assume "\<exists>r. evs = [UpdatePod (released pod []) r] \<and> out = (done_result, r)"
    then show "gate_trace req out (GetPod req (Inr pod) # evs)"
      using gate_decided [OF that(1), of "Inr (Some [])" "[]" evs out req] that(2) by (simp add: chosen_def)
  qed
  show ?thesis
    unfolding PodGate_Reconcile_def get_pod_def Let_def
    by (intro emits_intros) (auto intro: gate_read decide direct)
qed

lemma gate_write:
  assumes "UpdatePod p r \<in> set (trace_of (PodGate_Reconcile C req) w)"
  shows "\<exists>pod pre eligible.
    trace_of (PodGate_Reconcile C req) w = GetPod req (Inr pod) # pre @ [UpdatePod p r] \<and>
    outcome_of (PodGate_Reconcile C req) w = (done_result, r) \<and>
    hasGate pod \<and> p = released pod eligible \<and>
    (eligible = [] \<longrightarrow> RefsFromAnnotations (pd_annotations pod) = []) \<and>
    (\<forall>ref \<in> set (RefsFromAnnotations (pd_annotations pod)). \<forall>n \<in> set eligible.
       \<exists>envs env. ListFloxEnvs None (Inr envs) \<in> set pre \<and> env \<in> set envs \<and>
         effectiveFolder env = ref_folder ref \<and> fe_name env = ref_name ref \<and> realised_on n env)"
proof -
  let ?evs = "trace_of (PodGate_Reconcile C req) w" and ?out = "outcome_of (PodGate_Reconcile C req) w"
  have no: "UpdatePod p r \<notin> set listings" if "chosen acc refs x listings" for acc refs x listings
    using that by (fastforce simp: chosen_def list_all_iff)
  have "gate_trace req ?out ?evs" by (rule emits_run [OF PodGate_Reconcile_emits])
  then show ?thesis
    unfolding gate_trace_def
  proof (elim disjE exE conjE)
    fix pod pre x
    assume t: "hasGate pod" "chosen None (RefsFromAnnotations (pd_annotations pod)) x pre"
      and c: "case x of
           Inl e \<Rightarrow> ?evs = GetPod req (Inr pod) # pre \<and> ?out = (done_result, Some e)
         | Inr None \<Rightarrow> ?evs = GetPod req (Inr pod) # pre \<and> ?out = (done_result, None)
         | Inr (Some eligible) \<Rightarrow> \<exists>r. ?evs = GetPod req (Inr pod) # pre @ [UpdatePod (released pod eligible) r] \<and>
             ?out = (done_result, r)"
    then obtain eligible where "x = Inr (Some eligible)" "p = released pod eligible"
        "?evs = GetPod req (Inr pod) # pre @ [UpdatePod p r]" "?out = (done_result, r)"
      using assms no [OF t(2)] by (cases x rule: sum.exhaust [case_product option.exhaust [of "projr x"]])
        (auto split: sum.splits option.splits)
    with t show ?thesis
      by (intro exI [of _ pod] exI [of _ pre] exI [of _ eligible]) (auto simp: chosen_def served_def)
  next
    fix got
    assume "?evs = [GetPod req got]"
    then show ?thesis using assms by simp
  qed
qed

text \<open>
  C2: A pod loses its gate only onto nodes that hold everything it needs. The one write of a pass is
  its last act; the pod it writes is the gated pod it read with the gate removed and narrowed to
  nodes on each of which every referenced env was listed, in this pass, as realised at its current
  generation. There is at least one such node unless the pod references no env at all.
\<close>

theorem released_onto_realised_nodes:
  assumes "UpdatePod p r \<in> set (trace_of (PodGate_Reconcile C req) w)"
  shows "\<exists>pod pre eligible.
    trace_of (PodGate_Reconcile C req) w = GetPod req (Inr pod) # pre @ [UpdatePod p r] \<and>
    outcome_of (PodGate_Reconcile C req) w = (done_result, r) \<and>
    hasGate pod \<and> p = released pod eligible \<and>
    (eligible = [] \<longrightarrow> RefsFromAnnotations (pd_annotations pod) = []) \<and>
    (\<forall>ref \<in> set (RefsFromAnnotations (pd_annotations pod)). \<forall>n \<in> set eligible.
       \<exists>envs env. ListFloxEnvs None (Inr envs) \<in> set pre \<and> env \<in> set envs \<and>
         effectiveFolder env = ref_folder ref \<and> fe_name env = ref_name ref \<and> realised_on n env)"
  by (rule gate_write [OF assms])

text \<open>A pod that consumes the env \<open>web\<close>, and that env as realised on one node.\<close>

definition gated_pod :: pod where
  "gated_pod = \<lparr> pd_meta = (plain_meta ''p'')\<lparr> om_annotations := [(''flox.seedmatic.io/environment.app'', ''ns/web'')] \<rparr>,
     pd_node_name = [], pd_gates = [''flox.seedmatic.io/env-ready''], pd_init = [],
     pd_containers = [\<lparr> ct_name = ''app'', ct_env = [], ct_mounts = [] \<rparr>], pd_volumes = [], pd_affinity = None \<rparr>"

definition held_env :: floxenv where
  "held_env = (pinned_env ''web'')\<lparr> fe_status := (fe_status (pinned_env ''web''))\<lparr> st_realized :=
     [\<lparr> nr_node = ''n1'', nr_ready = True, nr_store_path = ''/nix/store/a'', nr_env_path = ''/envs/web'',
        nr_gcroot_path = ''/gc/web'', nr_observed = 1 \<rparr>] \<rparr> \<rparr>"

definition gate_store :: store where
  "gate_store = \<lparr> so_envs = [held_env], so_catalogs = [], so_workloads = [], so_pods = [gated_pod] \<rparr>"

abbreviation pod_p :: objkey where "pod_p \<equiv> ObjKey ''ns'' ''p''"

lemma gated_refs: "RefsFromAnnotations (pd_annotations gated_pod) = [EnvRef ''ns'' ''web'']"
  by (simp add: gated_pod_def plain_meta_def RefsFromAnnotations_def AnnotationPrefix_def HasPrefix_def ref_of_value_def)

lemma gate_trace_sample:
  "trace_of (PodGate_Reconcile store_client pod_p) gate_store =
    [GetPod pod_p (Inr gated_pod), ListFloxEnvs None (Inr [held_env]), UpdatePod (released gated_pod [''n1'']) None]"
proof -
  have "hasGate gated_pod" by (simp add: gated_pod_def hasGate_def SchedulingGateName_def)
  then show ?thesis
    by (simp add: PodGate_Reconcile_def go_defs gate_store_def gated_refs resolveFloxEnv_def matches_ref_def
        held_env_def effectiveFolder_def readyNodesForEnv_def release_def Let_def)
      (simp add: gated_pod_def plain_meta_def)
qed

theorem released_onto_realised_nodes_witness:
  "\<exists>pod pre eligible.
    trace_of (PodGate_Reconcile store_client pod_p) gate_store =
      GetPod pod_p (Inr pod) # pre @ [UpdatePod (released gated_pod [''n1'']) None] \<and>
    outcome_of (PodGate_Reconcile store_client pod_p) gate_store = (done_result, None) \<and>
    hasGate pod \<and> released gated_pod [''n1''] = released pod eligible \<and>
    (eligible = [] \<longrightarrow> RefsFromAnnotations (pd_annotations pod) = []) \<and>
    (\<forall>ref \<in> set (RefsFromAnnotations (pd_annotations pod)). \<forall>n \<in> set eligible.
       \<exists>envs env. ListFloxEnvs None (Inr envs) \<in> set pre \<and> env \<in> set envs \<and>
         effectiveFolder env = ref_folder ref \<and> fe_name env = ref_name ref \<and> realised_on n env)"
  by (rule released_onto_realised_nodes) (simp add: gate_trace_sample)

subsection \<open>The decision\<close>

text \<open>The nodes on which every ref resolves and is realised, against one listing of the FloxEnvs.\<close>

definition eligible_set :: "floxenv list \<Rightarrow> env_ref list \<Rightarrow> string set" where
  "eligible_set envs refs = {n. \<forall>ref \<in> set refs. \<exists>env. List.find (matches_ref ref) envs = Some env \<and> realised_on n env}"

lemma eligible_set_Cons:
  "eligible_set envs (ref # refs) =
     (case List.find (matches_ref ref) envs of None \<Rightarrow> {} | Some env \<Rightarrow> set (readyNodesForEnv env) \<inter> eligible_set envs refs)"
  by (auto simp: eligible_set_def set_readyNodesForEnv split: option.splits)

definition acc_set :: "string list option \<Rightarrow> string set" where
  "acc_set acc = (case acc of None \<Rightarrow> UNIV | Some ns \<Rightarrow> set ns)"

lemma acc_set_simps: "acc_set None = UNIV" "acc_set (Some ns) = set ns"
  by (simp_all add: acc_set_def)

lemma eligible_nodes_decision:
  assumes "\<And>v. cl_list_envs C None v = (Inr envs, v)"
    and "refs \<noteq> [] \<or> (\<exists>ns. acc = Some ns \<and> ns \<noteq> [])"
  shows "\<exists>d. fst (run_state (eligible_nodes C acc refs) s) = Inr d \<and> world (snd (run_state (eligible_nodes C acc refs) s)) = world s \<and>
    (case d of None \<Rightarrow> eligible_set envs refs \<inter> acc_set acc = {}
       | Some ns \<Rightarrow> ns \<noteq> [] \<and> set ns = eligible_set envs refs \<inter> acc_set acc)"
  using assms(2)
proof (induction refs arbitrary: acc s)
  case Nil
  then show ?case by (auto simp: eligible_set_def acc_set_def)
next
  case (Cons ref refs)
  let ?s = "s\<lparr> trace := trace s @ [ListFloxEnvs None (Inr envs)] \<rparr>"
  show ?case
  proof (cases "List.find (matches_ref ref) envs")
    case None
    then show ?thesis
      by (simp add: resolveFloxEnv_def list_envs_def assms(1) eligible_set_Cons)
  next
    case (Some env)
    define el where "el = (case acc of None \<Rightarrow> readyNodesForEnv env | Some ns \<Rightarrow> intersect ns (readyNodesForEnv env))"
    have el: "set el = set (readyNodesForEnv env) \<inter> acc_set acc"
      by (auto simp: el_def acc_set_def split: option.splits)
    have sets: "eligible_set envs (ref # refs) \<inter> acc_set acc = eligible_set envs refs \<inter> set el"
      by (auto simp: eligible_set_Cons Some el)
    have run: "run_state (eligible_nodes C acc (ref # refs)) s =
        (if el = [] then (Inr None, ?s) else run_state (eligible_nodes C (Some el) refs) ?s)"
      by (simp add: resolveFloxEnv_def list_envs_def assms(1) Some Let_def el_def)
    show ?thesis
    proof (cases "el = []")
      case True
      then show ?thesis unfolding run sets by simp
    next
      case False
      then show ?thesis
        using Cons.IH [of "Some el" ?s] unfolding run sets acc_set_simps by simp
    qed
  qed
qed

text \<open>
  C16: The gate decision, in full, against a cluster that answers every listing with the same
  FloxEnvs. A gated pod that references envs is released exactly when some node has every one of
  them realised at its current generation, and then it is narrowed to exactly those nodes; else it
  stays gated, nothing is written and no error is reported.
\<close>

theorem gate_decision:
  assumes "\<And>v. cl_list_envs C None v = (Inr envs, v)"
    and "cl_get_pod C req w = (Inr pod, w')" and "hasGate pod"
    and "RefsFromAnnotations (pd_annotations pod) \<noteq> []"
  shows "if eligible_set envs (RefsFromAnnotations (pd_annotations pod)) = {}
    then outcome_of (PodGate_Reconcile C req) w = (done_result, None) \<and> world_after (PodGate_Reconcile C req) w = w'
    else \<exists>ns. set ns = eligible_set envs (RefsFromAnnotations (pd_annotations pod)) \<and>
      outcome_of (PodGate_Reconcile C req) w = (done_result, fst (cl_update_pod C (released pod ns) w')) \<and>
      world_after (PodGate_Reconcile C req) w = snd (cl_update_pod C (released pod ns) w')"
proof -
  let ?refs = "RefsFromAnnotations (pd_annotations pod)"
  let ?s = "\<lparr> world = w', trace = [GetPod req (Inr pod)] \<rparr>"
  obtain d where d: "fst (run_state (eligible_nodes C None ?refs) ?s) = Inr d"
      "world (snd (run_state (eligible_nodes C None ?refs) ?s)) = w'"
      "case d of None \<Rightarrow> eligible_set envs ?refs = {} | Some ns \<Rightarrow> ns \<noteq> [] \<and> set ns = eligible_set envs ?refs"
    using eligible_nodes_decision [OF assms(1), of ?refs None ?s] assms(4) unfolding acc_set_simps Int_UNIV_right by auto
  obtain s' where run: "run_state (eligible_nodes C None ?refs) ?s = (Inr d, s')" "world s' = w'"
    using d(1,2) by (metis prod.collapse)
  have "run_state (PodGate_Reconcile C req) (start w) =
      (case d of None \<Rightarrow> ((done_result, None), s') | Some ns \<Rightarrow> run_state (release C pod ns) s')"
    using assms(2-4) run by (simp add: PodGate_Reconcile_def get_pod_def start_def Let_def split: option.split)
  then show ?thesis
    using d(3) run(2)
    by (cases d) (auto simp: outcome_of_def world_after_def release_def update_pod_def split: prod.splits)
qed

theorem gate_decision_witness:
  "if eligible_set [held_env] (RefsFromAnnotations (pd_annotations gated_pod)) = {}
    then outcome_of (PodGate_Reconcile (store_client\<lparr> cl_list_envs := \<lambda>ns v. (Inr [held_env], v) \<rparr>) pod_p) gate_store =
        (done_result, None) \<and>
      world_after (PodGate_Reconcile (store_client\<lparr> cl_list_envs := \<lambda>ns v. (Inr [held_env], v) \<rparr>) pod_p) gate_store = gate_store
    else \<exists>ns. set ns = eligible_set [held_env] (RefsFromAnnotations (pd_annotations gated_pod)) \<and>
      outcome_of (PodGate_Reconcile (store_client\<lparr> cl_list_envs := \<lambda>ns v. (Inr [held_env], v) \<rparr>) pod_p) gate_store =
        (done_result, fst (cl_update_pod (store_client\<lparr> cl_list_envs := \<lambda>ns v. (Inr [held_env], v) \<rparr>)
          (released gated_pod ns) gate_store)) \<and>
      world_after (PodGate_Reconcile (store_client\<lparr> cl_list_envs := \<lambda>ns v. (Inr [held_env], v) \<rparr>) pod_p) gate_store =
        snd (cl_update_pod (store_client\<lparr> cl_list_envs := \<lambda>ns v. (Inr [held_env], v) \<rparr>) (released gated_pod ns) gate_store)"
proof (rule gate_decision)
  show "cl_get_pod (store_client\<lparr> cl_list_envs := \<lambda>ns v. (Inr [held_env], v) \<rparr>) pod_p gate_store = (Inr gated_pod, gate_store)"
    by (simp add: go_defs gate_store_def) (simp add: gated_pod_def plain_meta_def)
  show "hasGate gated_pod" by (simp add: gated_pod_def hasGate_def SchedulingGateName_def)
qed (simp_all add: gated_refs)

subsection \<open>Narrowing and release\<close>

text \<open>
  Whether a node may run a pod as far as required node affinity goes: the terms are alternatives, a
  term asks for all its requirements, and a term without any matches no node. What one requirement
  asks of the node (\<open>sat\<close> of its labels, \<open>fsat\<close> of its fields) is the scheduler's affair.
\<close>

definition term_matches :: "(requirement \<Rightarrow> bool) \<Rightarrow> (requirement \<Rightarrow> bool) \<Rightarrow> selector_term \<Rightarrow> bool" where
  "term_matches sat fsat t \<longleftrightarrow> (tm_expressions t \<noteq> [] \<or> tm_fields t \<noteq> []) \<and>
     list_all sat (tm_expressions t) \<and> list_all fsat (tm_fields t)"

definition required_terms :: "pod \<Rightarrow> selector_term list option" where
  "required_terms pod = (case pd_affinity pod of None \<Rightarrow> None
     | Some a \<Rightarrow> (case af_node a of None \<Rightarrow> None | Some na \<Rightarrow> na_required na))"

definition node_allowed :: "(requirement \<Rightarrow> bool) \<Rightarrow> (requirement \<Rightarrow> bool) \<Rightarrow> pod \<Rightarrow> bool" where
  "node_allowed sat fsat pod = (case required_terms pod of None \<Rightarrow> True
     | Some terms \<Rightarrow> if terms = [] then True else list_ex (term_matches sat fsat) terms)"

lemma required_narrowed: "required_terms (narrowToNodes pod nodes) = Some (narrow_terms (hostname_in nodes) (required_terms pod))"
  by (simp add: required_terms_def narrowToNodes_def Let_def no_affinity_def no_node_affinity_def split: option.split)

lemma hasRequirement_iff: "hasRequirement exprs req \<longleftrightarrow> req \<in> set exprs"
proof -
  have eqI: "rq_key a = rq_key b \<Longrightarrow> rq_operator a = rq_operator b \<Longrightarrow> rq_values a = rq_values b \<Longrightarrow> a = b"
    for a b :: requirement
    by (cases a, cases b) simp
  then show ?thesis by (auto simp: hasRequirement_def list_ex_iff dest: eqI)
qed

lemma add_requirement_matches:
  "tm_expressions t \<noteq> [] \<or> tm_fields t \<noteq> [] \<Longrightarrow>
    term_matches sat fsat (add_requirement req t) \<longleftrightarrow> term_matches sat fsat t \<and> sat req"
  by (auto simp: term_matches_def add_requirement_def hasRequirement_iff list_all_iff)

lemma list_ex_add_requirement:
  "list_all (\<lambda>t. tm_expressions t \<noteq> [] \<or> tm_fields t \<noteq> []) terms \<Longrightarrow>
    list_ex (term_matches sat fsat) (map (add_requirement req) terms) \<longleftrightarrow>
      list_ex (term_matches sat fsat) terms \<and> sat req"
  by (induction terms) (auto simp: add_requirement_matches)

text \<open>
  C37: Narrowing narrows. A node may run the narrowed pod exactly when it could run the pod before
  and is one of the given nodes by its host name, provided every required term the pod came with
  asks for something; preferred node affinity and pod affinity are kept.
\<close>

theorem narrowing_conjoins:
  assumes "\<forall>terms. required_terms pod = Some terms \<longrightarrow> list_all (\<lambda>t. tm_expressions t \<noteq> [] \<or> tm_fields t \<noteq> []) terms"
  shows "node_allowed sat fsat (narrowToNodes pod nodes) \<longleftrightarrow>
    node_allowed sat fsat pod \<and>
    sat \<lparr> rq_key = ''kubernetes.io/hostname'', rq_operator = OpIn, rq_values = nodes \<rparr>"
proof (cases "required_terms pod")
  case None
  then show ?thesis
    by (simp add: node_allowed_def required_narrowed narrow_terms_def term_matches_def hostname_in_def hostnameLabel_def)
next
  case (Some terms)
  show ?thesis
  proof (cases "terms = []")
    case True
    then show ?thesis
      by (simp add: node_allowed_def required_narrowed Some narrow_terms_def term_matches_def hostname_in_def hostnameLabel_def)
  next
    case False
    then show ?thesis
      using assms Some list_ex_add_requirement [of terms sat fsat "hostname_in nodes"]
      by (simp add: node_allowed_def required_narrowed narrow_terms_def hostname_in_def hostnameLabel_def)
  qed
qed

theorem narrowing_conjoins_witness:
  "node_allowed (\<lambda>r. rq_values r = [''n1'']) (\<lambda>_. True) (narrowToNodes gated_pod [''n1'']) \<longleftrightarrow>
    node_allowed (\<lambda>r. rq_values r = [''n1'']) (\<lambda>_. True) gated_pod \<and>
    rq_values \<lparr> rq_key = ''kubernetes.io/hostname'', rq_operator = OpIn, rq_values = [''n1''] \<rparr> = [''n1'']"
  by (rule narrowing_conjoins) (simp add: required_terms_def gated_pod_def)

text \<open>A required term that asks for nothing matches no node, and narrowing makes it match some.\<close>

definition empty_term_pod :: "pod \<Rightarrow> pod" where
  "empty_term_pod pod = pod\<lparr> pd_affinity := Some (no_affinity\<lparr> af_node :=
     Some (no_node_affinity\<lparr> na_required := Some [\<lparr> tm_expressions = [], tm_fields = [] \<rparr>] \<rparr>) \<rparr>) \<rparr>"

lemma narrowing_widens_empty_term:
  "\<not> node_allowed (\<lambda>_. True) (\<lambda>_. True) (empty_term_pod pod) \<and>
   node_allowed (\<lambda>_. True) (\<lambda>_. True) (narrowToNodes (empty_term_pod pod) nodes)"
  by (simp add: node_allowed_def required_narrowed narrow_terms_def)
    (simp add: empty_term_pod_def required_terms_def term_matches_def add_requirement_def hasRequirement_def)

text \<open>
  A release removes the env-ready gate and nothing else: the other gates keep their order, and
  apart from gates and affinity the pod is as it was.
\<close>

theorem release_removes_only_the_gate:
  "\<not> hasGate (released pod nodes) \<and>
   pd_gates (released pod nodes) = filter (\<lambda>g. g \<noteq> ''flox.seedmatic.io/env-ready'') (pd_gates pod) \<and>
   (released pod nodes)\<lparr> pd_gates := pd_gates pod, pd_affinity := pd_affinity pod \<rparr> = pod \<and>
   pd_affinity (released pod []) = pd_affinity pod"
  by (simp add: released_def narrowToNodes_def Let_def hasGate_def list_ex_iff SchedulingGateName_def)

subsection \<open>The watch\<close>

lemma target_eq: "ref = env_target env \<longleftrightarrow> matches_ref ref env"
  by (cases ref) (auto simp: env_target_def matches_ref_def)

text \<open>
  A change of a FloxEnv wakes exactly the pods it concerns: of the pods listed, those still
  gated with a ref that the decision would resolve to this env, in the order of the listing; a
  listing that fails wakes none.
\<close>

theorem watch_wakes_consumers:
  "\<exists>r. trace_of (gatedPodsForEnv C env) w = [ListPods r] \<and>
    outcome_of (gatedPodsForEnv C env) w =
      (case r of Inl e \<Rightarrow> []
       | Inr pods \<Rightarrow> map pod_key (filter (\<lambda>p. hasGate p \<and>
           list_ex (\<lambda>ref. matches_ref ref env) (RefsFromAnnotations (pd_annotations p))) pods))"
proof -
  have "emits (gatedPodsForEnv C env) (\<lambda>out evs. \<exists>r. evs = [ListPods r] \<and>
      out = (case r of Inl e \<Rightarrow> []
       | Inr pods \<Rightarrow> map pod_key (filter (\<lambda>p. hasGate p \<and>
           list_ex (\<lambda>ref. matches_ref ref env) (RefsFromAnnotations (pd_annotations p))) pods)))"
    unfolding gatedPodsForEnv_def list_pods_def target_eq by (intro emits_intros) simp
  from emits_run [OF this] show ?thesis .
qed

end
