(* ===== verification/PodFlox.thy ===== *)
theory PodFlox
  imports Kube
begin

text \<open>
  \<open>internal/webhook/podflox.go\<close>: the pod mutator. Two independent concerns, each driven by
  per-container annotations: the scheduling gate with the flox settings, and the nix-build claim
  with its mount. The lists \<open>envOf\<close> and \<open>targets\<close> are the Go maps built from the annotations, in
  the order their \<open>range\<close> loops visit them.
\<close>

definition nixBuildAnnotationPrefix :: string where
  "nixBuildAnnotationPrefix = ''flox.seedmatic.io/nix-build.''"

definition nixBuildStoreMount :: string where
  "nixBuildStoreMount = ''/var/lib/flox-nri/nix-build-store''"

text \<open>The mutator; \<open>mu_client = None\<close> is the nil client.\<close>

record 'w mutator =
  mu_client :: "'w client option"
  mu_env_namespace :: string
  mu_store_class :: string
  mu_store_size :: string

subsection \<open>Upserts\<close>

definition add_env :: "env_var \<Rightarrow> env_var list \<Rightarrow> env_var list" where
  "add_env v env = (if list_ex (\<lambda>existing. ev_name existing = ev_name v) env then env else env @ [v])"

definition upsertEnv :: "env_var \<Rightarrow> container \<Rightarrow> container" where
  "upsertEnv v c = c\<lparr> ct_env := add_env v (ct_env c) \<rparr>"

definition hasVolume :: "volume list \<Rightarrow> string \<Rightarrow> bool" where
  "hasVolume volumes name \<longleftrightarrow> list_ex (\<lambda>v. vol_name v = name) volumes"

definition injectedEnvVar :: "injected_env \<Rightarrow> env_var" where
  "injectedEnvVar ie =
     (case ie_secret ie of
        Some ref \<Rightarrow> \<lparr> ev_name = ie_name ie, ev_value = [], ev_from = Some (SecretKeyRef ref) \<rparr>
      | None \<Rightarrow> \<lparr> ev_name = ie_name ie, ev_value = ie_value ie, ev_from = None \<rparr>)"

definition envName :: "string \<Rightarrow> string" where
  "envName v = (case LastIndexByte v (CHR ''/'') of Some i \<Rightarrow> drop (i + 1) v | None \<Rightarrow> v)"

subsection \<open>Flox settings and spec.inject\<close>

text \<open>Annotations with a prefix and a non-empty value, keyed by the rest of the annotation's key.\<close>

definition per_container :: "string \<Rightarrow> strmap \<Rightarrow> strmap" where
  "per_container p m =
     List.map_filter (\<lambda>(k, v). if HasPrefix k p \<and> v \<noteq> [] then Some (TrimPrefix k p, v) else None) m"

definition env_of :: "strmap \<Rightarrow> strmap" where
  "env_of annotations = map (\<lambda>(c, v). (c, envName v)) (per_container AnnotationPrefix annotations)"

type_synonym injects = "(string \<times> injected_env list) list"

fun resolve_each :: "'w client \<Rightarrow> string \<Rightarrow> string list \<Rightarrow> injects \<Rightarrow> ('w st, injects) state" where
  "resolve_each C ns [] out = State_Monad.return out"
| "resolve_each C ns (name # names) out =
     (case map_of out name of
        Some _ \<Rightarrow> resolve_each C ns names out
      | None \<Rightarrow> do {
          r \<leftarrow> get_env C (ObjKey ns name);
          resolve_each C ns names (AList.update name
            (case r of Inl _ \<Rightarrow> [] | Inr env \<Rightarrow> sp_inject (fe_spec env)) out)
        })"

definition resolveInjects :: "'w mutator \<Rightarrow> strmap \<Rightarrow> ('w st, injects) state" where
  "resolveInjects M envOf =
     (case mu_client M of
        None \<Rightarrow> State_Monad.return []
      | Some C \<Rightarrow> if mu_env_namespace M = [] then State_Monad.return []
          else resolve_each C (mu_env_namespace M) (map snd envOf) [])"

definition setting_var :: "setting \<Rightarrow> env_var" where
  "setting_var s = \<lparr> ev_name = se_name s, ev_value = se_value s, ev_from = None \<rparr>"

definition injects_for :: "injects \<Rightarrow> string \<Rightarrow> injected_env list" where
  "injects_for injects name = (case map_of injects name of None \<Rightarrow> [] | Some ies \<Rightarrow> ies)"

definition injectFloxEnvInto :: "strmap \<Rightarrow> injects \<Rightarrow> container \<Rightarrow> container" where
  "injectFloxEnvInto envOf injects c =
     (case map_of envOf (ct_name c) of
        None \<Rightarrow> c
      | Some name \<Rightarrow>
          fold upsertEnv (map injectedEnvVar (injects_for injects name))
            (fold upsertEnv (map setting_var Settings) c))"

definition injectFloxEnv :: "'w mutator \<Rightarrow> pod \<Rightarrow> ('w st, pod) state" where
  "injectFloxEnv M pod = (
     let envOf = env_of (pd_annotations pod)
     in do {
       injects \<leftarrow> resolveInjects M envOf;
       State_Monad.return (pod\<lparr> pd_init := map (injectFloxEnvInto envOf injects) (pd_init pod),
         pd_containers := map (injectFloxEnvInto envOf injects) (pd_containers pod) \<rparr>)
     })"

definition add_gate :: "string \<Rightarrow> string list \<Rightarrow> string list" where
  "add_gate g gates = (if list_ex (\<lambda>h. h = g) gates then gates else gates @ [g])"

definition injectFloxWait :: "'w mutator \<Rightarrow> pod \<Rightarrow> ('w st, pod) state" where
  "injectFloxWait M pod =
     (if RefsFromAnnotations (pd_annotations pod) = [] then State_Monad.return pod
      else do {
        pod' \<leftarrow> injectFloxEnv M pod;
        State_Monad.return
          (if pd_node_name pod' \<noteq> [] then pod'
           else pod'\<lparr> pd_gates := add_gate SchedulingGateName (pd_gates pod') \<rparr>)
      })"

subsection \<open>The nix-build store\<close>

definition add_mount :: "volume_mount \<Rightarrow> volume_mount list \<Rightarrow> volume_mount list" where
  "add_mount m ms = (if list_ex (\<lambda>x. vm_name x = vm_name m) ms then ms else ms @ [m])"

definition nix_config_var :: env_var where
  "nix_config_var = \<lparr> ev_name = ''NIX_CONFIG'', ev_value = NixConfig, ev_from = None \<rparr>"

definition mountNixStore :: "string \<Rightarrow> container \<Rightarrow> container" where
  "mountNixStore volumeName c =
     upsertEnv nix_config_var
       (c\<lparr> ct_mounts := add_mount \<lparr> vm_name = volumeName, vm_path = nixBuildStoreMount \<rparr> (ct_mounts c) \<rparr>)"

definition store_claim :: "'w mutator \<Rightarrow> string \<Rightarrow> string \<Rightarrow> volume_claim" where
  "store_claim M ns name =
     \<lparr> vc_key = ObjKey ns name,
       vc_class = (if mu_store_class M \<noteq> [] then Some (mu_store_class M) else None),
       vc_size = (if mu_store_size M = [] then ''30Gi'' else mu_store_size M) \<rparr>"

definition ensureNixStorePVC :: "'w mutator \<Rightarrow> string \<Rightarrow> string \<Rightarrow> ('w st, go_error option) state" where
  "ensureNixStorePVC M ns name =
     (case mu_client M of
        None \<Rightarrow> State_Monad.return None
      | Some C \<Rightarrow> do {
          r \<leftarrow> create_claim C (store_claim M ns name);
          State_Monad.return (case r of
            Some e \<Rightarrow> if \<not> IsAlreadyExists e
              then Some (WrapErr (''ensure nix-store PVC '' @ ns @ ''/'' @ name) e) else None
          | None \<Rightarrow> None)
        })"

definition add_volume :: "volume \<Rightarrow> volume list \<Rightarrow> volume list" where
  "add_volume v vs = (if hasVolume vs (vol_name v) then vs else vs @ [v])"

definition claim_volume :: "string \<Rightarrow> volume" where
  "claim_volume name = \<lparr> vol_name = name, vol_source = PersistentVolumeClaim name \<rparr>"

fun ensure_each ::
  "'w mutator \<Rightarrow> string \<Rightarrow> string list \<Rightarrow> string list \<Rightarrow> volume list \<Rightarrow>
     ('w st, go_error option \<times> volume list) state" where
  "ensure_each M ns [] ensured vols = State_Monad.return (None, vols)"
| "ensure_each M ns (pvc # pvcs) ensured vols =
     (if List.member ensured pvc then ensure_each M ns pvcs ensured vols
      else do {
        err \<leftarrow> ensureNixStorePVC M ns pvc;
        case err of
          Some e \<Rightarrow> State_Monad.return (Some e, vols)
        | None \<Rightarrow> ensure_each M ns pvcs (pvc # ensured) (add_volume (claim_volume pvc) vols)
      })"

definition mount_targets :: "strmap \<Rightarrow> container \<Rightarrow> container" where
  "mount_targets targets c =
     (case map_of targets (ct_name c) of None \<Rightarrow> c | Some pvc \<Rightarrow> mountNixStore pvc c)"

definition injectNixBuild :: "'w mutator \<Rightarrow> pod \<Rightarrow> ('w st, go_error option \<times> pod) state" where
  "injectNixBuild M pod = (
     let targets = per_container nixBuildAnnotationPrefix (pd_annotations pod)
     in if targets = [] then State_Monad.return (None, pod)
        else do {
          x \<leftarrow> ensure_each M (om_namespace (pd_meta pod)) (map snd targets) [] (pd_volumes pod);
          let pod' = pod\<lparr> pd_volumes := snd x \<rparr>;
          case fst x of
            Some e \<Rightarrow> State_Monad.return (Some e, pod')
          | None \<Rightarrow> State_Monad.return (None,
              pod'\<lparr> pd_init := map (mount_targets targets) (pd_init pod'),
                pd_containers := map (mount_targets targets) (pd_containers pod') \<rparr>)
        })"

text \<open>The admission entry point, on an object that is a pod.\<close>

definition Default :: "'w mutator \<Rightarrow> pod \<Rightarrow> ('w st, go_error option \<times> pod) state" where
  "Default M pod = do {
     pod' \<leftarrow> injectFloxWait M pod;
     injectNixBuild M pod'
   }"

subsection \<open>The upserts insert by key\<close>

interpretation env_vars: keyed_insert ev_name add_env
  by unfold_locales (auto simp: add_env_def list_ex_iff image_iff)

interpretation mounts: keyed_insert vm_name add_mount
  by unfold_locales (auto simp: add_mount_def list_ex_iff image_iff)

interpretation volumes: keyed_insert vol_name add_volume
  by unfold_locales (auto simp: add_volume_def hasVolume_def list_ex_iff image_iff)

interpretation gates: keyed_insert "\<lambda>g. g" add_gate
  by unfold_locales (auto simp: add_gate_def list_ex_iff)

lemma fold_upsertEnv: "fold upsertEnv vs c = c\<lparr> ct_env := fold add_env vs (ct_env c) \<rparr>"
  by (induction vs arbitrary: c) (simp_all add: upsertEnv_def)

end
