(* ===== verification/PodFloxProperties.thy ===== *)
theory PodFloxProperties
  imports PodFlox Examples
begin

text \<open>
  What the pod mutator promises. \<open>admitted\<close> says in one expression what an admission makes of a pod,
  given what the FloxEnvs inject; the mutator is shown to implement it, and the properties (what the
  author wrote wins, admission is idempotent, who is gated, what an opted-in container gets) follow.
\<close>

subsection \<open>The admitted pod\<close>

definition flox_vars :: "injects \<Rightarrow> strmap \<Rightarrow> string \<Rightarrow> env_var list" where
  "flox_vars injects annotations c = (case map_of (env_of annotations) c of None \<Rightarrow> []
     | Some name \<Rightarrow> map setting_var Settings @ map injectedEnvVar (injects_for injects name))"

definition store_of_container :: "strmap \<Rightarrow> string \<Rightarrow> string option" where
  "store_of_container annotations c = map_of (per_container nixBuildAnnotationPrefix annotations) c"

definition flox_container :: "injects \<Rightarrow> strmap \<Rightarrow> container \<Rightarrow> container" where
  "flox_container injects annotations c =
     c\<lparr> ct_env := fold add_env (flox_vars injects annotations (ct_name c)) (ct_env c) \<rparr>"

definition build_container :: "strmap \<Rightarrow> container \<Rightarrow> container" where
  "build_container annotations c = (case store_of_container annotations (ct_name c) of None \<Rightarrow> c
     | Some pvc \<Rightarrow> c\<lparr> ct_env := add_env nix_config_var (ct_env c),
         ct_mounts := add_mount \<lparr> vm_name = pvc, vm_path = nixBuildStoreMount \<rparr> (ct_mounts c) \<rparr>)"

definition gates_of :: "pod \<Rightarrow> string list" where
  "gates_of pod = (if RefsFromAnnotations (pd_annotations pod) \<noteq> [] \<and> pd_node_name pod = []
     then add_gate SchedulingGateName (pd_gates pod) else pd_gates pod)"

definition stores_of :: "pod \<Rightarrow> string list" where
  "stores_of pod = map snd (per_container nixBuildAnnotationPrefix (pd_annotations pod))"

definition floxed :: "injects \<Rightarrow> pod \<Rightarrow> pod" where
  "floxed injects pod = pod\<lparr> pd_init := map (flox_container injects (pd_annotations pod)) (pd_init pod),
     pd_containers := map (flox_container injects (pd_annotations pod)) (pd_containers pod),
     pd_gates := gates_of pod \<rparr>"

definition with_stores :: "string list \<Rightarrow> pod \<Rightarrow> pod" where
  "with_stores pvcs pod = pod\<lparr> pd_volumes := fold add_volume (map claim_volume pvcs) (pd_volumes pod) \<rparr>"

definition admitted :: "injects \<Rightarrow> pod \<Rightarrow> pod" where
  "admitted injects pod = (let p = with_stores (stores_of pod) (floxed injects pod)
     in p\<lparr> pd_init := map (build_container (pd_annotations pod)) (pd_init p),
          pd_containers := map (build_container (pd_annotations pod)) (pd_containers p) \<rparr>)"

subsection \<open>The mutator computes it\<close>

lemma per_container_simps [simp]:
  "per_container p [] = []"
  "per_container p ((k, v) # m) =
     (if HasPrefix k p \<and> v \<noteq> [] then (TrimPrefix k p, v) # per_container p m else per_container p m)"
  by (auto simp: per_container_def List.map_filter_simps)

lemma per_container_Nil_iff: "per_container p m = [] \<longleftrightarrow> (\<forall>(k, v) \<in> set m. \<not> (HasPrefix k p \<and> v \<noteq> []))"
  by (induction m) (auto split: if_splits)

lemma env_of_Nil_iff: "env_of m = [] \<longleftrightarrow> RefsFromAnnotations m = []"
  by (auto simp: env_of_def per_container_Nil_iff RefsFromAnnotations_Nil_iff env_annotations_def)

lemma flox_container_eq: "injectFloxEnvInto (env_of annotations) injects = flox_container injects annotations"
  by (rule ext)
    (simp add: injectFloxEnvInto_def flox_container_def flox_vars_def fold_upsertEnv comp_def split: option.split)

lemma build_container_eq: "mount_targets (per_container nixBuildAnnotationPrefix annotations) = build_container annotations"
  by (rule ext) (simp add: mount_targets_def build_container_def store_of_container_def mountNixStore_def
      upsertEnv_def split: option.split)

lemma flox_container_none: "RefsFromAnnotations m = [] \<Longrightarrow> flox_container injects m = (\<lambda>c. c)"
  by (rule ext) (simp add: flox_container_def flox_vars_def env_of_Nil_iff [symmetric])

lemma build_container_none: "per_container nixBuildAnnotationPrefix m = [] \<Longrightarrow> build_container m = (\<lambda>c. c)"
  by (rule ext) (simp add: build_container_def store_of_container_def)

text \<open>The requests of the two concerns.\<close>

fun env_read :: "event \<Rightarrow> bool" where
  "env_read (GetFloxEnv k r) = True"
| "env_read _ = False"

fun claim_request :: "event \<Rightarrow> bool" where
  "claim_request (CreateClaim v r) = True"
| "claim_request _ = False"

text \<open>What a read FloxEnv contributes, and injects that come from the reads of a trace.\<close>

definition injected_by :: "go_error + floxenv \<Rightarrow> injected_env list" where
  "injected_by r = (case r of Inl _ \<Rightarrow> [] | Inr env \<Rightarrow> sp_inject (fe_spec env))"

definition injects_read :: "string \<Rightarrow> injects \<Rightarrow> event list \<Rightarrow> bool" where
  "injects_read ns injects evs \<longleftrightarrow>
     (\<forall>(name, ies) \<in> set injects. \<exists>r. GetFloxEnv (ObjKey ns name) r \<in> set evs \<and> ies = injected_by r)"

lemma injects_read_mono: "injects_read ns injects evs \<Longrightarrow> set evs \<subseteq> set evs' \<Longrightarrow> injects_read ns injects evs'"
  unfolding injects_read_def by blast

lemma set_update_new: "map_of out name = None \<Longrightarrow> set (AList.update name v out) = insert (name, v) (set out)"
  by (induction out) (auto split: if_splits)

lemma resolve_each_emits:
  "emits (resolve_each C ns names out) (\<lambda>injects evs. list_all env_read evs \<and>
     (\<forall>p \<in> set injects - set out. injects_read ns [p] evs) \<and>
     fst ` set injects = fst ` set out \<union> set names)"
proof (induction names arbitrary: out)
  case Nil
  show ?case unfolding resolve_each.simps by (intro emits_intros) simp
next
  case (Cons name names)
  show ?case
  proof (cases "map_of out name")
    case None
    have name: "name \<notin> fst ` set out" using None by (simp add: map_of_eq_None_iff)
    have step: "(\<forall>p \<in> set injects - set out. injects_read ns [p] (GetFloxEnv (ObjKey ns name) r # es))"
      if "\<forall>p \<in> set injects - set (AList.update name (injected_by r) out). injects_read ns [p] es" for injects r es
    proof
      fix p assume p: "p \<in> set injects - set out"
      show "injects_read ns [p] (GetFloxEnv (ObjKey ns name) r # es)"
      proof (cases "p = (name, injected_by r)")
        case True
        then show ?thesis by (auto simp: injects_read_def)
      next
        case False
        then have "injects_read ns [p] es" using p that by (simp add: set_update_new [OF None])
        then show ?thesis by (rule injects_read_mono) auto
      qed
    qed
    show ?thesis
      unfolding resolve_each.simps None option.case get_env_def injected_by_def [symmetric]
      by (intro emits_intros emits_mono [OF Cons.IH])
        (auto simp del: fun_upd_apply simp: step set_update_new [OF None])
  next
    case (Some v)
    then have "name \<in> fst ` set out" by (force dest: map_of_SomeD)
    then show ?thesis
      unfolding resolve_each.simps Some option.case
      by (intro emits_mono [OF Cons.IH]) auto
  qed
qed

definition injects_ok :: "'w mutator \<Rightarrow> strmap \<Rightarrow> injects \<Rightarrow> event list \<Rightarrow> bool" where
  "injects_ok M annotations injects evs \<longleftrightarrow> list_all env_read evs \<and>
     injects_read (mu_env_namespace M) injects evs \<and>
     fst ` set injects = (if mu_client M = None \<or> mu_env_namespace M = [] then {} else snd ` set (env_of annotations))"

lemma injects_read_all: "(\<forall>p \<in> set injects. injects_read ns [p] evs) \<longleftrightarrow> injects_read ns injects evs"
  by (auto simp: injects_read_def)

lemma resolveInjects_emits: "emits (resolveInjects M (env_of annotations)) (injects_ok M annotations)"
proof (cases "mu_client M")
  case None
  then show ?thesis
    by (auto simp: resolveInjects_def injects_ok_def injects_read_def intro!: emits_intros)
next
  case (Some C)
  have "emits (resolve_each C (mu_env_namespace M) (map snd (env_of annotations)) []) (injects_ok M annotations)"
    if "mu_env_namespace M \<noteq> []"
    using that Some by (intro emits_mono [OF resolve_each_emits]) (simp add: injects_ok_def injects_read_all)
  then show ?thesis
    by (auto simp: resolveInjects_def Some injects_ok_def injects_read_def intro!: emits_intros)
qed

lemma floxed_same: "RefsFromAnnotations (pd_annotations pod) = [] \<Longrightarrow> floxed injects pod = pod"
  by (simp add: floxed_def flox_container_none gates_of_def)

lemma injectFloxWait_emits:
  "emits (injectFloxWait M pod) (\<lambda>pod' evs. \<exists>injects. list_all env_read evs \<and> pod' = floxed injects pod \<and>
     (RefsFromAnnotations (pd_annotations pod) \<noteq> [] \<longrightarrow> injects_ok M (pd_annotations pod) injects evs))"
proof -
  have gates: "(if pd_node_name p \<noteq> [] then p else p\<lparr> pd_gates := add_gate SchedulingGateName (pd_gates p) \<rparr>) = floxed injects pod"
    if "RefsFromAnnotations (pd_annotations pod) \<noteq> []"
      "p = pod\<lparr> pd_init := map (flox_container injects (pd_annotations pod)) (pd_init pod),
        pd_containers := map (flox_container injects (pd_annotations pod)) (pd_containers pod) \<rparr>" for p injects
    using that by (simp add: floxed_def gates_of_def)
  have inject: "emits (injectFloxEnv M pod) (\<lambda>p evs. \<exists>injects. injects_ok M (pd_annotations pod) injects evs \<and>
      p = pod\<lparr> pd_init := map (flox_container injects (pd_annotations pod)) (pd_init pod),
        pd_containers := map (flox_container injects (pd_annotations pod)) (pd_containers pod) \<rparr>)"
    unfolding injectFloxEnv_def Let_def flox_container_eq
    by (rule emits_bind [OF resolveInjects_emits], rule emits_return) auto
  show ?thesis
  proof (cases "RefsFromAnnotations (pd_annotations pod) = []")
    case True
    then show ?thesis by (auto simp: injectFloxWait_def floxed_same intro!: emits_intros)
  next
    case False
    show ?thesis
      unfolding injectFloxWait_def if_not_P [OF False]
      by (rule emits_bind [OF inject], rule emits_return)
        (use gates [OF False] False in \<open>auto simp: injects_ok_def\<close>)
  qed
qed

text \<open>The claims: each ensured once, in order, up to the first that can not be.\<close>

definition claims_ok :: "'w mutator \<Rightarrow> string \<Rightarrow> string list \<Rightarrow> event list \<Rightarrow> bool" where
  "claims_ok M ns pvcs evs \<longleftrightarrow> (mu_client M \<noteq> None \<longrightarrow> (\<forall>pvc \<in> set pvcs. \<exists>r. CreateClaim (store_claim M ns pvc) r \<in> set evs \<and>
     (case r of None \<Rightarrow> True | Some e \<Rightarrow> IsAlreadyExists e)))"

definition claim_refused :: "'w mutator \<Rightarrow> string \<Rightarrow> go_error \<Rightarrow> event list \<Rightarrow> bool" where
  "claim_refused M ns e evs \<longleftrightarrow> (\<exists>pvc e'. CreateClaim (store_claim M ns pvc) (Some e') \<in> set evs \<and>
     \<not> IsAlreadyExists e' \<and> e = WrapErr (''ensure nix-store PVC '' @ ns @ ''/'' @ pvc) e')"

lemma claims_ok_mono: "claims_ok M ns pvcs evs \<Longrightarrow> set evs \<subseteq> set evs' \<Longrightarrow> claims_ok M ns pvcs evs'"
  unfolding claims_ok_def by blast

lemma claim_refused_mono: "claim_refused M ns e evs \<Longrightarrow> set evs \<subseteq> set evs' \<Longrightarrow> claim_refused M ns e evs'"
  unfolding claim_refused_def by blast

lemma ensureNixStorePVC_emits:
  "emits (ensureNixStorePVC M ns pvc) (\<lambda>r evs. list_all claim_request evs \<and>
     (case r of None \<Rightarrow> claims_ok M ns [pvc] evs | Some e \<Rightarrow> claim_refused M ns e evs))"
proof (cases "mu_client M")
  case None
  then show ?thesis by (auto simp: ensureNixStorePVC_def claims_ok_def intro!: emits_intros)
next
  case (Some C)
  show ?thesis
    unfolding ensureNixStorePVC_def Some option.case create_claim_def
    by (intro emits_intros) (auto simp: claims_ok_def claim_refused_def split: option.split)
qed

definition ensured_run ::
  "'w mutator \<Rightarrow> string \<Rightarrow> string list \<Rightarrow> string list \<Rightarrow> volume list \<Rightarrow> go_error option \<times> volume list \<Rightarrow> event list \<Rightarrow> bool" where
  "ensured_run M ns pvcs ensured vols x evs \<longleftrightarrow> list_all claim_request evs \<and>
     (\<exists>k. snd x = fold add_volume (map claim_volume (take k pvcs)) vols \<and>
        (fst x = None \<longrightarrow> length pvcs \<le> k) \<and>
        (fst x = None \<longrightarrow> claims_ok M ns (filter (\<lambda>p. p \<notin> set ensured) pvcs) evs) \<and>
        (\<forall>e. fst x = Some e \<longrightarrow> claim_refused M ns e evs))"

lemma ensured_runI:
  assumes "list_all claim_request evs" "snd x = fold add_volume (map claim_volume (take k pvcs)) vols"
    and "fst x = None \<Longrightarrow> length pvcs \<le> k" "fst x = None \<Longrightarrow> claims_ok M ns (filter (\<lambda>p. p \<notin> set ensured) pvcs) evs"
    and "\<And>e. fst x = Some e \<Longrightarrow> claim_refused M ns e evs"
  shows "ensured_run M ns pvcs ensured vols x evs"
  unfolding ensured_run_def by (intro conjI exI [of _ k] impI allI) (rule assms; assumption?)+

lemma ensured_runE:
  assumes "ensured_run M ns pvcs ensured vols x evs"
  obtains k where "list_all claim_request evs" "snd x = fold add_volume (map claim_volume (take k pvcs)) vols"
    "fst x = None \<longrightarrow> length pvcs \<le> k" "fst x = None \<longrightarrow> claims_ok M ns (filter (\<lambda>p. p \<notin> set ensured) pvcs) evs"
    "\<forall>e. fst x = Some e \<longrightarrow> claim_refused M ns e evs"
  using assms unfolding ensured_run_def by (elim conjE exE) (rule that; assumption)

lemma ensured_run_skip:
  assumes "pvc \<in> set ensured" "add_volume (claim_volume pvc) vols = vols" "ensured_run M ns pvcs ensured vols x evs"
  shows "ensured_run M ns (pvc # pvcs) ensured vols x evs"
proof (rule ensured_runE [OF assms(3)])
  fix k
  assume *: "list_all claim_request evs" "snd x = fold add_volume (map claim_volume (take k pvcs)) vols"
    "fst x = None \<longrightarrow> length pvcs \<le> k" "fst x = None \<longrightarrow> claims_ok M ns (filter (\<lambda>p. p \<notin> set ensured) pvcs) evs"
    "\<forall>e. fst x = Some e \<longrightarrow> claim_refused M ns e evs"
  show ?thesis
    by (rule ensured_runI [where k = "Suc k"]) (use * assms(1,2) in simp_all)
qed

lemma claims_ok_Cons:
  assumes "claims_ok M ns [pvc] evs0" "claims_ok M ns (filter (\<lambda>p. p \<notin> set (pvc # ensured)) pvcs) evs"
  shows "claims_ok M ns (filter (\<lambda>p. p \<notin> set ensured) (pvc # pvcs)) (evs0 @ evs)"
  unfolding claims_ok_def
proof (intro impI ballI)
  fix p assume client: "mu_client M \<noteq> None" and p: "p \<in> set (filter (\<lambda>p. p \<notin> set ensured) (pvc # pvcs))"
  show "\<exists>r. CreateClaim (store_claim M ns p) r \<in> set (evs0 @ evs) \<and> (case r of None \<Rightarrow> True | Some e \<Rightarrow> IsAlreadyExists e)"
  proof (cases "p = pvc")
    case True
    then show ?thesis using assms(1) client unfolding claims_ok_def by auto
  next
    case False
    then have "p \<in> set (filter (\<lambda>p. p \<notin> set (pvc # ensured)) pvcs)" using p by (auto split: if_splits)
    then obtain r where "CreateClaim (store_claim M ns p) r \<in> set evs"
        "case r of None \<Rightarrow> True | Some e \<Rightarrow> IsAlreadyExists e"
      using assms(2) client unfolding claims_ok_def by blast
    then show ?thesis by auto
  qed
qed

lemma ensured_run_step:
  assumes "list_all claim_request evs0" "claims_ok M ns [pvc] evs0"
    and "ensured_run M ns pvcs (pvc # ensured) (add_volume (claim_volume pvc) vols) x evs"
  shows "ensured_run M ns (pvc # pvcs) ensured vols x (evs0 @ evs)"
proof (rule ensured_runE [OF assms(3)])
  fix k
  assume *: "list_all claim_request evs" "snd x = fold add_volume (map claim_volume (take k pvcs)) (add_volume (claim_volume pvc) vols)"
    "fst x = None \<longrightarrow> length pvcs \<le> k"
    "fst x = None \<longrightarrow> claims_ok M ns (filter (\<lambda>p. p \<notin> set (pvc # ensured)) pvcs) evs"
    "\<forall>e. fst x = Some e \<longrightarrow> claim_refused M ns e evs"
  have "claim_refused M ns e (evs0 @ evs)" if "fst x = Some e" for e
    using that *(5) claim_refused_mono [of M ns e evs "evs0 @ evs"] by auto
  then show ?thesis
    by (intro ensured_runI [where k = "Suc k"] claims_ok_Cons [OF assms(2)]) (use * assms(1) in simp_all)
qed

lemma ensured_run_refused:
  "list_all claim_request evs \<Longrightarrow> claim_refused M ns e evs \<Longrightarrow> ensured_run M ns pvcs ensured vols (Some e, vols) evs"
  unfolding ensured_run_def by (intro conjI exI [of _ 0]) auto

lemma ensure_each_emits:
  assumes "vol_name ` claim_volume ` set ensured \<subseteq> vol_name ` set vols"
  shows "emits (ensure_each M ns pvcs ensured vols) (ensured_run M ns pvcs ensured vols)"
  using assms
proof (induction pvcs arbitrary: ensured vols)
  case Nil
  show ?case unfolding ensure_each.simps by (intro emits_intros) (simp add: claims_ok_def ensured_run_def)
next
  case (Cons pvc pvcs)
  show ?case
  proof (cases "pvc \<in> set ensured")
    case True
    then have "add_volume (claim_volume pvc) vols = vols"
      using Cons.prems by (auto intro!: volumes.ins_present)
    with True Cons.IH [OF Cons.prems] show ?thesis
      by (auto elim!: emits_mono intro: ensured_run_skip)
  next
    case False
    have "vol_name ` claim_volume ` set (pvc # ensured) \<subseteq> vol_name ` set (add_volume (claim_volume pvc) vols)"
      using Cons.prems by (auto simp: volumes.keys_ins)
    note IH = Cons.IH [OF this]
    have "ensure_each M ns (pvc # pvcs) ensured vols = State_Monad.bind (ensureNixStorePVC M ns pvc)
        (\<lambda>err. case err of Some e \<Rightarrow> State_Monad.return (Some e, vols)
          | None \<Rightarrow> ensure_each M ns pvcs (pvc # ensured) (add_volume (claim_volume pvc) vols))"
      using False by simp
    then show ?thesis
      by (simp only:) (rule emits_bind [OF ensureNixStorePVC_emits], intro emits_intros emits_mono [OF IH],
        auto intro: ensured_run_step ensured_run_refused)
  qed
qed

text \<open>The admission as a whole.\<close>

definition admission :: "'w mutator \<Rightarrow> pod \<Rightarrow> go_error option \<times> pod \<Rightarrow> event list \<Rightarrow> bool" where
  "admission M pod x evs \<longleftrightarrow> (\<exists>injects reads claims. evs = reads @ claims \<and>
     list_all env_read reads \<and> list_all claim_request claims \<and>
     (RefsFromAnnotations (pd_annotations pod) \<noteq> [] \<longrightarrow> injects_ok M (pd_annotations pod) injects reads) \<and>
     (case fst x of
        None \<Rightarrow> snd x = admitted injects pod \<and> claims_ok M (om_namespace (pd_meta pod)) (stores_of pod) claims
      | Some e \<Rightarrow> (\<exists>k. snd x = with_stores (take k (stores_of pod)) (floxed injects pod)) \<and>
          claim_refused M (om_namespace (pd_meta pod)) e claims))"

lemma floxed_simps [simp]:
  "pd_meta (floxed injects pod) = pd_meta pod" "pd_volumes (floxed injects pod) = pd_volumes pod"
  by (simp_all add: floxed_def)

lemma admitted_no_store:
  "per_container nixBuildAnnotationPrefix (pd_annotations pod) = [] \<Longrightarrow> admitted injects pod = floxed injects pod"
  by (simp add: admitted_def stores_of_def with_stores_def build_container_none Let_def)

lemma injectNixBuild_emits:
  "emits (injectNixBuild M (floxed injects pod)) (\<lambda>x evs. list_all claim_request evs \<and>
     (case fst x of
        None \<Rightarrow> snd x = admitted injects pod \<and> claims_ok M (om_namespace (pd_meta pod)) (stores_of pod) evs
      | Some e \<Rightarrow> (\<exists>k. snd x = with_stores (take k (stores_of pod)) (floxed injects pod)) \<and>
          claim_refused M (om_namespace (pd_meta pod)) e evs))"
proof (cases "per_container nixBuildAnnotationPrefix (pd_annotations pod) = []")
  case True
  then show ?thesis
    by (auto simp: injectNixBuild_def Let_def admitted_no_store claims_ok_def stores_of_def intro!: emits_intros)
next
  case False
  have run: "emits (ensure_each M (om_namespace (pd_meta pod)) (stores_of pod) [] (pd_volumes pod))
      (ensured_run M (om_namespace (pd_meta pod)) (stores_of pod) [] (pd_volumes pod))"
    by (rule ensure_each_emits) simp
  show ?thesis
    unfolding injectNixBuild_def Let_def floxed_simps if_not_P [OF False] stores_of_def [symmetric] build_container_eq
    by (rule emits_bind [OF run], intro emits_intros)
      (auto simp: ensured_run_def with_stores_def admitted_def Let_def)
qed

lemma Default_emits: "emits (Default M pod) (admission M pod)"
  unfolding Default_def
  by (rule emits_bind [OF injectFloxWait_emits], elim exE conjE, hypsubst, rule emits_mono [OF injectNixBuild_emits])
    (auto simp: admission_def)

lemmas admission_run = emits_run [OF Default_emits]

text \<open>A container's name never changes, and what is done to it depends on its name only.\<close>

lemma ct_name_simps [simp]:
  "ct_name (flox_container injects annotations c) = ct_name c"
  "ct_name (build_container annotations c) = ct_name c"
  by (simp_all add: flox_container_def build_container_def split: option.split)

definition admit_container :: "injects \<Rightarrow> strmap \<Rightarrow> container \<Rightarrow> container" where
  "admit_container injects annotations c = build_container annotations (flox_container injects annotations c)"

lemma admitted_simps:
  "pd_meta (admitted injects pod) = pd_meta pod"
  "pd_node_name (admitted injects pod) = pd_node_name pod"
  "pd_affinity (admitted injects pod) = pd_affinity pod"
  "pd_init (admitted injects pod) = map (admit_container injects (pd_annotations pod)) (pd_init pod)"
  "pd_containers (admitted injects pod) = map (admit_container injects (pd_annotations pod)) (pd_containers pod)"
  "pd_gates (admitted injects pod) = gates_of pod"
  "pd_volumes (admitted injects pod) = fold add_volume (map claim_volume (stores_of pod)) (pd_volumes pod)"
  by (simp_all add: admitted_def with_stores_def floxed_def admit_container_def Let_def)

lemma partial_simps:
  "pd_meta (with_stores pvcs (floxed injects pod)) = pd_meta pod"
  "pd_node_name (with_stores pvcs (floxed injects pod)) = pd_node_name pod"
  "pd_affinity (with_stores pvcs (floxed injects pod)) = pd_affinity pod"
  "pd_init (with_stores pvcs (floxed injects pod)) = map (flox_container injects (pd_annotations pod)) (pd_init pod)"
  "pd_containers (with_stores pvcs (floxed injects pod)) = map (flox_container injects (pd_annotations pod)) (pd_containers pod)"
  "pd_gates (with_stores pvcs (floxed injects pod)) = gates_of pod"
  "pd_volumes (with_stores pvcs (floxed injects pod)) = fold add_volume (map claim_volume pvcs) (pd_volumes pod)"
  by (simp_all add: with_stores_def floxed_def)

lemma admission_cases:
  obtains (ok) injects where "outcome_of (Default M pod) w = (None, admitted injects pod)"
  | (refused) e injects pvcs where "outcome_of (Default M pod) w = (Some e, with_stores pvcs (floxed injects pod))"
proof -
  obtain err p where out: "outcome_of (Default M pod) w = (err, p)" by fastforce
  then show thesis
    using admission_run [of M pod w] ok refused unfolding admission_def out by (cases err) auto
qed

subsection \<open>The author wins\<close>

text \<open>What an author wrote stays: new entries come after it and take none of its keys.\<close>

definition extends_by :: "('a \<Rightarrow> 'k) \<Rightarrow> 'a list \<Rightarrow> 'a list \<Rightarrow> bool" where
  "extends_by key xs ys \<longleftrightarrow> (\<exists>zs. ys = xs @ zs \<and> key ` set zs \<inter> key ` set xs = {} \<and> distinct (map key zs))"

lemma extends_refl [simp]: "extends_by key xs xs"
  by (simp add: extends_by_def)

lemma extends_trans: "extends_by key xs ys \<Longrightarrow> extends_by key ys zs \<Longrightarrow> extends_by key xs zs"
  unfolding extends_by_def by fastforce

lemma extends_folds:
  "extends_by ev_name env (fold add_env vs env)" "extends_by vol_name vols (fold add_volume ws vols)"
  "extends_by vm_name ms (fold add_mount ns ms)"
  unfolding extends_by_def by (rule env_vars.fold_fresh volumes.fold_fresh mounts.fold_fresh)+

lemma extends_one:
  "extends_by ev_name env (add_env v env)" "extends_by vm_name ms (add_mount m ms)" "extends_by (\<lambda>g. g) gs (add_gate g gs)"
  using extends_folds(1) [of env "[v]"] extends_folds(3) [of ms "[m]"]
  by (auto simp: extends_by_def add_gate_def list_ex_iff)

definition extends_container :: "strmap \<Rightarrow> container \<Rightarrow> container \<Rightarrow> bool" where
  "extends_container annotations c c' \<longleftrightarrow> ct_name c' = ct_name c \<and>
     extends_by ev_name (ct_env c) (ct_env c') \<and> extends_by vm_name (ct_mounts c) (ct_mounts c') \<and>
     ((\<forall>v. (AnnotationPrefix @ ct_name c, v) \<notin> set annotations \<and>
           (nixBuildAnnotationPrefix @ ct_name c, v) \<notin> set annotations) \<longrightarrow> c' = c)"

lemma per_container_key: "map_of (per_container p m) c = Some v \<Longrightarrow> (p @ c, v) \<in> set m"
  by (induction m) (auto split: if_splits simp: HasPrefix_iff)

lemma flox_vars_none:
  assumes "\<forall>v. (AnnotationPrefix @ c, v) \<notin> set annotations"
  shows "flox_vars injects annotations c = []"
proof -
  have "map_of (env_of annotations) c = map_option envName (map_of (per_container AnnotationPrefix annotations) c)"
    by (simp add: env_of_def map_of_map)
  moreover have "map_of (per_container AnnotationPrefix annotations) c = None"
    using assms per_container_key by (metis not_Some_eq)
  ultimately show ?thesis by (simp add: flox_vars_def)
qed

lemma flox_extends: "extends_container annotations c (flox_container injects annotations c)"
  by (auto simp: extends_container_def flox_container_def extends_folds flox_vars_none)

lemma build_extends: "extends_container annotations c (build_container annotations c)"
proof -
  have "build_container annotations c = c" if "\<forall>v. (nixBuildAnnotationPrefix @ ct_name c, v) \<notin> set annotations"
    using that per_container_key [of nixBuildAnnotationPrefix annotations "ct_name c"]
    by (auto simp: build_container_def store_of_container_def split: option.split)
  then show ?thesis
    by (auto simp: extends_container_def build_container_def extends_one split: option.split)
qed

lemma extends_container_trans:
  "extends_container m a b \<Longrightarrow> extends_container m b c \<Longrightarrow> extends_container m a c"
  unfolding extends_container_def by (metis extends_trans)

lemma admit_extends: "extends_container annotations c (admit_container injects annotations c)"
  unfolding admit_container_def by (rule extends_container_trans [OF flox_extends build_extends])

text \<open>
  C26: What the pod's author wrote wins, on every path. An admission, failed or not, keeps the
  containers in place and by name, every environment variable, volume mount, volume and gate they
  had, in order and first; what it adds takes no name that was taken and no name twice; a container
  without an annotation of its own is not touched, nor is anything else in the pod.
\<close>

theorem author_wins:
  "list_all2 (extends_container (pd_annotations pod)) (pd_init pod) (pd_init (snd (outcome_of (Default M pod) w))) \<and>
   list_all2 (extends_container (pd_annotations pod)) (pd_containers pod) (pd_containers (snd (outcome_of (Default M pod) w))) \<and>
   extends_by vol_name (pd_volumes pod) (pd_volumes (snd (outcome_of (Default M pod) w))) \<and>
   extends_by (\<lambda>g. g) (pd_gates pod) (pd_gates (snd (outcome_of (Default M pod) w))) \<and>
   pd_meta (snd (outcome_of (Default M pod) w)) = pd_meta pod \<and>
   pd_node_name (snd (outcome_of (Default M pod) w)) = pd_node_name pod \<and>
   pd_affinity (snd (outcome_of (Default M pod) w)) = pd_affinity pod"
proof -
  have gates: "extends_by (\<lambda>g. g) (pd_gates pod) (gates_of pod)" by (simp add: gates_of_def extends_one)
  show ?thesis
  proof (cases rule: admission_cases [of M pod w])
    case (ok injects)
    then show ?thesis
      by (simp add: admitted_simps list_all2_map2 list.rel_refl_strong admit_extends extends_folds gates
          list_all2_same)
  next
    case (refused e injects pvcs)
    then show ?thesis
      by (simp add: partial_simps list_all2_map2 flox_extends extends_folds gates list_all2_same)
  qed
qed

text \<open>
  C24: A pod is gated exactly when it should wait. The gate is appended when the pod consumes an env,
  no node was chosen for it yet and it is not gated already; otherwise the gates stay as they are.
  A failed admission decides the same.
\<close>

theorem gated_iff_consumes:
  "pd_gates (snd (outcome_of (Default M pod) w)) =
     (if RefsFromAnnotations (pd_annotations pod) \<noteq> [] \<and> pd_node_name pod = [] \<and>
         ''flox.seedmatic.io/env-ready'' \<notin> set (pd_gates pod)
      then pd_gates pod @ [''flox.seedmatic.io/env-ready''] else pd_gates pod)"
  by (cases rule: admission_cases [of M pod w])
    (auto simp: admitted_simps partial_simps gates_of_def add_gate_def list_ex_iff SchedulingGateName_def)

subsection \<open>Idempotence\<close>

lemma admit_container_eq:
  "admit_container injects annotations c = c\<lparr>
     ct_env := fold add_env (flox_vars injects annotations (ct_name c) @
       (if store_of_container annotations (ct_name c) = None then [] else [nix_config_var])) (ct_env c),
     ct_mounts := fold add_mount (case store_of_container annotations (ct_name c) of None \<Rightarrow> []
       | Some pvc \<Rightarrow> [\<lparr> vm_name = pvc, vm_path = nixBuildStoreMount \<rparr>]) (ct_mounts c) \<rparr>"
  by (simp add: admit_container_def flox_container_def build_container_def split: option.split)

lemma admit_container_idem:
  "admit_container injects annotations (admit_container injects annotations c) = admit_container injects annotations c"
  unfolding admit_container_eq by (simp add: env_vars.fold_idem mounts.fold_idem del: fold_append)

lemma flox_admit_container:
  "flox_container injects annotations (admit_container injects annotations c) = admit_container injects annotations c"
proof -
  have "fold add_env vs (fold add_env (vs @ ws) env) = fold add_env (vs @ ws) env" for vs ws env
    by (rule env_vars.fold_present) (auto simp: env_vars.keys_fold simp del: fold_append)
  then show ?thesis unfolding admit_container_eq flox_container_def by (simp del: fold_append)
qed

lemma gates_of_idem: "pd_annotations q = pd_annotations p \<Longrightarrow> pd_node_name q = pd_node_name p \<Longrightarrow>
    pd_gates q = gates_of p \<Longrightarrow> gates_of q = pd_gates q"
  by (simp add: gates_of_def gates.ins_idem)

lemma pod_eqI:
  "pd_meta p = pd_meta q \<Longrightarrow> pd_node_name p = pd_node_name q \<Longrightarrow> pd_gates p = pd_gates q \<Longrightarrow>
    pd_init p = pd_init q \<Longrightarrow> pd_containers p = pd_containers q \<Longrightarrow> pd_volumes p = pd_volumes q \<Longrightarrow>
    pd_affinity p = pd_affinity q \<Longrightarrow> p = (q :: pod)"
  by (cases p, cases q) simp

lemma stores_present:
  "fold add_volume (map claim_volume (take k pvcs)) (fold add_volume (map claim_volume pvcs) vols) =
     fold add_volume (map claim_volume pvcs) vols"
  by (rule volumes.fold_present) (auto simp: volumes.keys_fold dest: in_set_takeD)

lemma admitted_idem: "admitted injects (admitted injects pod) = admitted injects pod"
proof (rule pod_eqI)
  show "pd_gates (admitted injects (admitted injects pod)) = pd_gates (admitted injects pod)"
    using gates_of_idem [of "admitted injects pod" pod] by (simp add: admitted_simps)
  show "pd_volumes (admitted injects (admitted injects pod)) = pd_volumes (admitted injects pod)"
    using stores_present [of "length (stores_of pod)" "stores_of pod"] by (simp add: admitted_simps stores_of_def)
qed (simp_all add: admitted_simps admit_container_idem)

lemma partial_admitted: "with_stores (take k (stores_of pod)) (floxed injects (admitted injects pod)) = admitted injects pod"
proof (rule pod_eqI)
  show "pd_gates (with_stores (take k (stores_of pod)) (floxed injects (admitted injects pod))) = pd_gates (admitted injects pod)"
    using gates_of_idem [of "admitted injects pod" pod] by (simp add: admitted_simps partial_simps)
qed (simp_all add: admitted_simps partial_simps flox_admit_container stores_present)

text \<open>The injects matter only through what they say for the envs named by the annotations.\<close>

lemma flox_vars_cong:
  assumes "\<And>name. name \<in> snd ` set (env_of annotations) \<Longrightarrow> injects_for i name = injects_for j name"
  shows "flox_vars i annotations c = flox_vars j annotations c"
  using assms by (auto simp: flox_vars_def split: option.split dest!: map_of_SomeD) (metis image_eqI snd_conv)

lemma flox_container_cong:
  "(\<And>c. flox_vars i annotations c = flox_vars j annotations c) \<Longrightarrow> flox_container i annotations = flox_container j annotations"
  by (rule ext) (simp add: flox_container_def)

lemma injects_agree:
  assumes "injects_ok M annotations i evs" "injects_ok M annotations j evs'"
    and "\<And>k r r'. GetFloxEnv k r \<in> set evs \<Longrightarrow> GetFloxEnv k r' \<in> set evs' \<Longrightarrow> injected_by r = injected_by r'"
    and "name \<in> snd ` set (env_of annotations)"
  shows "injects_for i name = injects_for j name"
proof (cases "mu_client M = None \<or> mu_env_namespace M = []")
  case True
  then have "i = []" "j = []" using assms(1,2) by (simp_all add: injects_ok_def)
  then show ?thesis by simp
next
  case False
  then have "name \<in> fst ` set i" "name \<in> fst ` set j" using assms(1,2,4) by (auto simp: injects_ok_def)
  then obtain a b where a: "map_of i name = Some a" and b: "map_of j name = Some b"
    by (metis map_of_eq_None_iff not_Some_eq)
  from map_of_SomeD [OF a] map_of_SomeD [OF b] obtain r r' where
      "GetFloxEnv (ObjKey (mu_env_namespace M) name) r \<in> set evs" "a = injected_by r"
      "GetFloxEnv (ObjKey (mu_env_namespace M) name) r' \<in> set evs'" "b = injected_by r'"
    using assms(1,2) by (force simp: injects_ok_def injects_read_def)
  then show ?thesis using assms(3) a b by (auto simp: injects_for_def)
qed

lemma admission_shape:
  assumes "admission M pod x evs"
  shows "\<exists>injects reads claims. evs = reads @ claims \<and>
    (RefsFromAnnotations (pd_annotations pod) \<noteq> [] \<longrightarrow> injects_ok M (pd_annotations pod) injects reads) \<and>
    ((\<exists>k. snd x = with_stores (take k (stores_of pod)) (floxed injects pod)) \<or> snd x = admitted injects pod)"
  using assms unfolding admission_def by (cases "fst x") auto

text \<open>
  C27: Admission is idempotent. Admitting again a pod that was admitted, with the FloxEnvs answering
  the same injects, leaves it exactly as it is, even when the second admission fails.
\<close>

theorem admission_idempotent:
  assumes "outcome_of (Default M pod) w = (None, pod1)"
    and "\<And>k r r'. GetFloxEnv k r \<in> set (trace_of (Default M pod) w) \<Longrightarrow>
      GetFloxEnv k r' \<in> set (trace_of (Default M pod1) w2) \<Longrightarrow> injected_by r = injected_by r'"
  shows "snd (outcome_of (Default M pod1) w2) = pod1"
proof -
  let ?m = "pd_annotations pod"
  obtain i reads claims where i: "trace_of (Default M pod) w = reads @ claims"
      "RefsFromAnnotations ?m \<noteq> [] \<longrightarrow> injects_ok M ?m i reads" "pod1 = admitted i pod"
    using admission_run [of M pod w] assms(1) unfolding admission_def by auto
  have m1: "pd_annotations pod1 = ?m" by (simp add: i(3) admitted_simps)
  obtain j reads' claims' where j: "trace_of (Default M pod1) w2 = reads' @ claims'"
      "RefsFromAnnotations ?m \<noteq> [] \<longrightarrow> injects_ok M ?m j reads'"
      "(\<exists>k. snd (outcome_of (Default M pod1) w2) = with_stores (take k (stores_of pod1)) (floxed j pod1)) \<or>
        snd (outcome_of (Default M pod1) w2) = admitted j pod1"
    using admission_shape [OF admission_run [of M pod1 w2]] unfolding m1 by blast
  have "injects_for i name = injects_for j name" if name: "name \<in> snd ` set (env_of ?m)" for name
  proof -
    have "RefsFromAnnotations ?m \<noteq> []" using name by (auto simp: env_of_Nil_iff [symmetric])
    then have "injects_ok M ?m i reads" "injects_ok M ?m j reads'" using i(2) j(2) by simp_all
    then show ?thesis
    proof (rule injects_agree [OF _ _ _ name])
      fix k r r'
      assume "GetFloxEnv k r \<in> set reads" "GetFloxEnv k r' \<in> set reads'"
      then show "injected_by r = injected_by r'" by (intro assms(2) [of k]) (simp_all add: i(1) j(1))
    qed
  qed
  then have flox: "flox_container i ?m = flox_container j ?m"
    by (intro flox_container_cong flox_vars_cong)
  then have floxed: "floxed j pod1 = floxed i pod1" by (simp add: floxed_def m1)
  then have "admitted j pod1 = admitted i pod1" by (simp add: admitted_def)
  moreover have "stores_of pod1 = stores_of pod" by (simp add: stores_of_def m1)
  ultimately show ?thesis
    using j(3) floxed admitted_idem partial_admitted unfolding i(3) by metis
qed

subsection \<open>What an annotated container gets\<close>

lemma per_container_lookup:
  "distinct (map fst m) \<Longrightarrow> (p @ c, v) \<in> set m \<Longrightarrow> v \<noteq> [] \<Longrightarrow> map_of (per_container p m) c = Some v"
proof (induction m)
  case (Cons a m)
  obtain k u where a: "a = (k, u)" by (cases a)
  show ?case
  proof (cases "k = p @ c")
    case True
    then have "u = v" using Cons.prems by (force simp: a)
    then show ?thesis using True Cons.prems(3) by (simp add: a)
  next
    case False
    then have "TrimPrefix k p \<noteq> c \<or> \<not> HasPrefix k p" using TrimPrefix_inverse [of k p] by auto
    then show ?thesis using False Cons by (auto simp: a)
  qed
qed simp

lemma setting_vars: "map setting_var Settings = map (\<lambda>(n, x). \<lparr> ev_name = n, ev_value = x, ev_from = None \<rparr>)
    [(''_FLOX_TESTING_DISABLE_BG_SIDE_EFFECTS'', ''true''), (''FLOX_DISABLE_METRICS'', ''true''),
     (''FLOX_NO_TELEMETRY'', ''1''), (''FLOX_NONINTERACTIVE'', ''1'')]"
  by (simp add: Settings_def setting_var_def)

lemma injected_vars: "injectedEnvVar = (\<lambda>ie. \<lparr> ev_name = ie_name ie,
    ev_value = (if ie_secret ie = None then ie_value ie else []), ev_from = map_option SecretKeyRef (ie_secret ie) \<rparr>)"
  by (rule ext) (simp add: injectedEnvVar_def split: option.split)

lemma admitted_pair:
  assumes "(c0, c) \<in> set (zip (pd_init pod @ pd_containers pod) (pd_init (admitted i pod) @ pd_containers (admitted i pod)))"
  shows "c = admit_container i (pd_annotations pod) c0"
  using assms by (auto simp: admitted_simps zip_append set_zip)

lemma admitted_env:
  "lookup_by ev_name n (ct_env (admit_container i m c)) = lookup_by ev_name n (ct_env c @ flox_vars i m (ct_name c) @
     (if store_of_container m (ct_name c) = None then [] else [nix_config_var]))"
  by (simp add: admit_container_eq env_vars.lookup_fold del: fold_append)

text \<open>What a FloxEnv read in the admission injects into the containers that name it.\<close>

lemma injects_read_for:
  assumes "injects_ok M m i reads" "map_of (env_of m) c = Some name"
  shows "if mu_client M = None \<or> mu_env_namespace M = [] then injects_for i name = []
    else \<exists>r. GetFloxEnv (ObjKey (mu_env_namespace M) name) r \<in> set reads \<and> injects_for i name = injected_by r"
proof (cases "mu_client M = None \<or> mu_env_namespace M = []")
  case True
  then show ?thesis using assms(1) by (simp add: injects_ok_def injects_for_def)
next
  case False
  have "name \<in> snd ` set (env_of m)" using map_of_SomeD [OF assms(2)] by force
  then have "name \<in> fst ` set i" using assms(1) False by (simp add: injects_ok_def)
  then obtain a where a: "map_of i name = Some a" by (metis map_of_eq_None_iff not_Some_eq)
  obtain r where "GetFloxEnv (ObjKey (mu_env_namespace M) name) r \<in> set reads" "a = injected_by r"
    using assms(1) map_of_SomeD [OF a] unfolding injects_ok_def injects_read_def by blast
  then show ?thesis using False a by (auto simp: injects_for_def)
qed

text \<open>
  C25: What a container that opts into an env gets, variable by variable. When an admission succeeds, the
  value of every variable but \<open>NIX_CONFIG\<close> in the container is the author's, or else that of the flox
  setting of that name, or else what the FloxEnv injects first under that name: its literal, or a
  reference to its secret. The FloxEnv is the one the admission read in the env namespace under the name
  after the last slash of the annotation; when it could not be read the pod is admitted all the same, with
  the settings only.
\<close>

theorem opted_in_container_is_complete:
  assumes "outcome_of (Default M pod) w = (None, pod')"
    and "(c0, c) \<in> set (zip (pd_init pod @ pd_containers pod) (pd_init pod' @ pd_containers pod'))"
    and "distinct (map fst (pd_annotations pod))"
    and "(''flox.seedmatic.io/environment.'' @ ct_name c0, v) \<in> set (pd_annotations pod)" "v \<noteq> []"
  shows "\<exists>injects.
    (if mu_client M = None \<or> mu_env_namespace M = [] then injects = []
     else \<exists>r. GetFloxEnv (ObjKey (mu_env_namespace M) (envName v)) r \<in> set (trace_of (Default M pod) w) \<and>
       injects = (case r of Inl e \<Rightarrow> [] | Inr env \<Rightarrow> sp_inject (fe_spec env))) \<and>
    (\<forall>n. n \<noteq> ''NIX_CONFIG'' \<longrightarrow> lookup_by ev_name n (ct_env c) = lookup_by ev_name n (ct_env c0 @
       map (\<lambda>(n, x). \<lparr> ev_name = n, ev_value = x, ev_from = None \<rparr>)
         [(''_FLOX_TESTING_DISABLE_BG_SIDE_EFFECTS'', ''true''), (''FLOX_DISABLE_METRICS'', ''true''),
          (''FLOX_NO_TELEMETRY'', ''1''), (''FLOX_NONINTERACTIVE'', ''1'')] @
       map (\<lambda>ie. \<lparr> ev_name = ie_name ie, ev_value = (if ie_secret ie = None then ie_value ie else []),
         ev_from = map_option SecretKeyRef (ie_secret ie) \<rparr>) injects))"
proof -
  let ?m = "pd_annotations pod"
  have "(AnnotationPrefix @ ct_name c0, v) \<in> set ?m" using assms(4) by (simp add: AnnotationPrefix_def)
  from per_container_lookup [OF assms(3) this assms(5)]
  have of_c: "map_of (env_of ?m) (ct_name c0) = Some (envName v)" by (simp add: env_of_def map_of_map)
  then have refs: "RefsFromAnnotations ?m \<noteq> []" by (auto simp: env_of_Nil_iff [symmetric])
  obtain i reads claims where i: "trace_of (Default M pod) w = reads @ claims" "injects_ok M ?m i reads"
      "pod' = admitted i pod"
    using admission_run [of M pod w] assms(1) refs unfolding admission_def by auto
  have c: "c = admit_container i ?m c0" using admitted_pair assms(2) unfolding i(3) by blast
  have "lookup_by ev_name n (ct_env c) =
      lookup_by ev_name n (ct_env c0 @ map setting_var Settings @ map injectedEnvVar (injects_for i (envName v)))"
    if "n \<noteq> ''NIX_CONFIG''" for n
    using that by (auto simp: c admitted_env flox_vars_def of_c lookup_by_append nix_config_var_def split: option.split)
  moreover note injects_read_for [OF i(2) of_c]
  ultimately show ?thesis
    unfolding setting_vars injected_vars injected_by_def i(1)
    by (intro exI [of _ "injects_for i (envName v)"]) (auto split: if_splits)
qed

text \<open>
  C38: A container that asks for a nix-build store gets one. When an admission succeeds, the claim named by
  the annotation was created in the pod's namespace by this admission, of the configured class and size, or
  the server said it exists; the pod has a volume of that name, the claim's unless the author had one of
  that name; the container mounts the volume of that name, at the path of the store unless the author mounts
  it already; and \<open>NIX_CONFIG\<close> is the author's, or else what the container's env injects under that name,
  or else the configuration of a single-user nix.
\<close>

theorem nix_build_store_is_ready:
  assumes "outcome_of (Default M pod) w = (None, pod')"
    and "(c0, c) \<in> set (zip (pd_init pod @ pd_containers pod) (pd_init pod' @ pd_containers pod'))"
    and "distinct (map fst (pd_annotations pod))"
    and "(''flox.seedmatic.io/nix-build.'' @ ct_name c0, pvc) \<in> set (pd_annotations pod)" "pvc \<noteq> []"
  shows "(mu_client M \<noteq> None \<longrightarrow> (\<exists>r. CreateClaim \<lparr> vc_key = ObjKey (om_namespace (pd_meta pod)) pvc,
         vc_class = (if mu_store_class M = [] then None else Some (mu_store_class M)),
         vc_size = (if mu_store_size M = [] then ''30Gi'' else mu_store_size M) \<rparr> r \<in> set (trace_of (Default M pod) w) \<and>
       (case r of None \<Rightarrow> True | Some e \<Rightarrow> IsAlreadyExists e))) \<and>
    lookup_by vol_name pvc (pd_volumes pod') =
      lookup_by vol_name pvc (pd_volumes pod @ [\<lparr> vol_name = pvc, vol_source = PersistentVolumeClaim pvc \<rparr>]) \<and>
    ct_mounts c = (if pvc \<in> vm_name ` set (ct_mounts c0) then ct_mounts c0
      else ct_mounts c0 @ [\<lparr> vm_name = pvc, vm_path = ''/var/lib/flox-nri/nix-build-store'' \<rparr>]) \<and>
    (\<exists>injected. lookup_by ev_name ''NIX_CONFIG'' (ct_env c) = lookup_by ev_name ''NIX_CONFIG'' (ct_env c0 @ injected @
         [\<lparr> ev_name = ''NIX_CONFIG'', ev_value = NixConfig, ev_from = None \<rparr>]) \<and>
       ((\<forall>v. (''flox.seedmatic.io/environment.'' @ ct_name c0, v) \<notin> set (pd_annotations pod)) \<longrightarrow> injected = []))"
proof -
  let ?m = "pd_annotations pod"
  have "(nixBuildAnnotationPrefix @ ct_name c0, pvc) \<in> set ?m" using assms(4) by (simp add: nixBuildAnnotationPrefix_def)
  from per_container_lookup [OF assms(3) this assms(5)] have store: "store_of_container ?m (ct_name c0) = Some pvc"
    by (simp add: store_of_container_def)
  then have wanted: "pvc \<in> set (stores_of pod)"
    by (force simp: stores_of_def store_of_container_def dest: map_of_SomeD)
  obtain i reads claims where i: "trace_of (Default M pod) w = reads @ claims" "pod' = admitted i pod"
      "claims_ok M (om_namespace (pd_meta pod)) (stores_of pod) claims"
    using admission_run [of M pod w] assms(1) unfolding admission_def by auto
  have c: "c = admit_container i ?m c0" using admitted_pair assms(2) unfolding i(2) by blast
  have claim: "store_claim M (om_namespace (pd_meta pod)) pvc = \<lparr> vc_key = ObjKey (om_namespace (pd_meta pod)) pvc,
         vc_class = (if mu_store_class M = [] then None else Some (mu_store_class M)),
         vc_size = (if mu_store_size M = [] then ''30Gi'' else mu_store_size M) \<rparr>"
    by (simp add: store_claim_def)
  have "mu_client M \<noteq> None \<longrightarrow> (\<exists>r. CreateClaim (store_claim M (om_namespace (pd_meta pod)) pvc) r \<in> set (trace_of (Default M pod) w) \<and>
       (case r of None \<Rightarrow> True | Some e \<Rightarrow> IsAlreadyExists e))"
    using i(1,3) wanted unfolding claims_ok_def by auto
  note this [unfolded claim]
  moreover have "lookup_by vol_name pvc (map claim_volume pvcs) =
      (if pvc \<in> set pvcs then Some \<lparr> vol_name = pvc, vol_source = PersistentVolumeClaim pvc \<rparr> else None)" for pvcs
    by (induction pvcs) (auto simp: claim_volume_def)
  then have "lookup_by vol_name pvc (pd_volumes pod') =
      lookup_by vol_name pvc (pd_volumes pod @ [\<lparr> vol_name = pvc, vol_source = PersistentVolumeClaim pvc \<rparr>])"
    using wanted by (simp add: i(2) admitted_simps volumes.lookup_fold lookup_by_append split: option.split)
  moreover have "ct_mounts c = (if pvc \<in> vm_name ` set (ct_mounts c0) then ct_mounts c0
      else ct_mounts c0 @ [\<lparr> vm_name = pvc, vm_path = ''/var/lib/flox-nri/nix-build-store'' \<rparr>])"
    by (auto simp: c admit_container_eq store add_mount_def list_ex_iff nixBuildStoreMount_def)
  moreover have "lookup_by ev_name ''NIX_CONFIG'' (ct_env c) = lookup_by ev_name ''NIX_CONFIG'' (ct_env c0 @
      flox_vars i ?m (ct_name c0) @ [\<lparr> ev_name = ''NIX_CONFIG'', ev_value = NixConfig, ev_from = None \<rparr>])"
    by (simp add: c admitted_env store nix_config_var_def)
  moreover have "flox_vars i ?m (ct_name c0) = []"
    if "\<forall>v. (''flox.seedmatic.io/environment.'' @ ct_name c0, v) \<notin> set ?m"
    using that by (intro flox_vars_none) (simp add: AnnotationPrefix_def)
  ultimately show ?thesis by blast
qed

text \<open>
  An admission fails only over a claim: its error names a claim the server refused to create
  for another reason than that it exists, and no container has had a store mounted.
\<close>

theorem admission_fails_on_refused_claim:
  assumes "outcome_of (Default M pod) w = (Some e, pod')"
  shows "\<exists>pvc e'. CreateClaim (store_claim M (om_namespace (pd_meta pod)) pvc) (Some e') \<in> set (trace_of (Default M pod) w) \<and>
    \<not> IsAlreadyExists e' \<and>
    e = WrapErr (''ensure nix-store PVC '' @ om_namespace (pd_meta pod) @ ''/'' @ pvc) e' \<and>
    map ct_mounts (pd_init pod' @ pd_containers pod') = map ct_mounts (pd_init pod @ pd_containers pod)"
proof -
  obtain i reads claims k where "trace_of (Default M pod) w = reads @ claims"
      "pod' = with_stores (take k (stores_of pod)) (floxed i pod)" "claim_refused M (om_namespace (pd_meta pod)) e claims"
    using admission_run [of M pod w] assms unfolding admission_def by auto
  then show ?thesis
    unfolding claim_refused_def by (auto simp: partial_simps flox_container_def comp_def)
qed

subsection \<open>A pod that uses both concerns\<close>

definition web_pod :: pod where
  "web_pod = \<lparr> pd_meta = (plain_meta ''p'')\<lparr> om_annotations :=
       [(''flox.seedmatic.io/environment.app'', ''ns/web''), (''flox.seedmatic.io/nix-build.app'', ''cache'')] \<rparr>,
     pd_node_name = [], pd_gates = [], pd_init = [],
     pd_containers = [\<lparr> ct_name = ''app'', ct_env = [], ct_mounts = [] \<rparr>], pd_volumes = [], pd_affinity = None \<rparr>"

definition web_mutator :: "store mutator" where
  "web_mutator = \<lparr> mu_client = Some store_client, mu_env_namespace = ''ns'', mu_store_class = [], mu_store_size = [] \<rparr>"

definition refusing_mutator :: "store mutator" where
  "refusing_mutator = web_mutator\<lparr> mu_client := Some (store_client\<lparr> cl_create_claim := \<lambda>v w. (Some (OtherErr ''quota''), w) \<rparr>) \<rparr>"

definition web_env :: floxenv where
  "web_env = (pinned_env ''web'')\<lparr> fe_spec := (fe_spec (pinned_env ''web''))\<lparr> sp_inject :=
     [\<lparr> ie_name = ''TOKEN'', ie_value = ''t'', ie_secret = None \<rparr>] \<rparr> \<rparr>"

definition web_container :: container where
  "web_container = \<lparr> ct_name = ''app'',
     ct_env = map setting_var Settings @ [\<lparr> ev_name = ''TOKEN'', ev_value = ''t'', ev_from = None \<rparr>, nix_config_var],
     ct_mounts = [\<lparr> vm_name = ''cache'', vm_path = nixBuildStoreMount \<rparr>] \<rparr>"

definition admitted_web_pod :: pod where
  "admitted_web_pod = web_pod\<lparr> pd_gates := [SchedulingGateName], pd_containers := [web_container],
     pd_volumes := [claim_volume ''cache''] \<rparr>"

lemmas admission_defs = Default_def injectFloxWait_def injectFloxEnv_def injectNixBuild_def resolveInjects_def
  ensureNixStorePVC_def web_mutator_def refusing_mutator_def RefsFromAnnotations_def AnnotationPrefix_def
  nixBuildAnnotationPrefix_def HasPrefix_def TrimPrefix_def ref_of_value_def env_of_def envName_def
  injectFloxEnvInto_def injects_for_def Settings_def setting_var_def injectedEnvVar_def upsertEnv_def add_env_def
  mount_targets_def mountNixStore_def add_mount_def add_volume_def hasVolume_def claim_volume_def add_gate_def
  nix_config_var_def web_container_def admitted_web_pod_def web_pod_def web_env_def store_claim_def

lemma web_admission:
  "run_state (Default web_mutator web_pod) (start (store_of [web_env])) =
    ((None, admitted_web_pod), \<lparr> world = store_of [web_env],
      trace = [GetFloxEnv web (Inr web_env), CreateClaim (store_claim web_mutator ''ns'' ''cache'') None] \<rparr>)"
  by (simp add: admission_defs go_defs)

lemma web_readmission:
  "run_state (Default web_mutator admitted_web_pod) (start (store_of [web_env])) =
    ((None, admitted_web_pod), \<lparr> world = store_of [web_env],
      trace = [GetFloxEnv web (Inr web_env), CreateClaim (store_claim web_mutator ''ns'' ''cache'') None] \<rparr>)"
  by (simp add: admission_defs go_defs)

lemma web_refusal:
  "run_state (Default refusing_mutator web_pod) (start (store_of [web_env])) =
    ((Some (WrapErr ''ensure nix-store PVC ns/cache'' (OtherErr ''quota'')),
      admitted_web_pod\<lparr> pd_containers := [web_container\<lparr> ct_env := butlast (ct_env web_container), ct_mounts := [] \<rparr>],
        pd_volumes := [] \<rparr>), \<lparr> world = store_of [web_env],
      trace = [GetFloxEnv web (Inr web_env),
        CreateClaim (store_claim web_mutator ''ns'' ''cache'') (Some (OtherErr ''quota''))] \<rparr>)"
  by (simp add: admission_defs go_defs)

lemmas web_runs = web_admission web_readmission web_refusal

theorem admission_idempotent_witness:
  "snd (outcome_of (Default web_mutator admitted_web_pod) (store_of [web_env])) = admitted_web_pod"
  by (rule admission_idempotent [where M = web_mutator and pod = web_pod and w = "store_of [web_env]"])
    (auto simp: outcome_of_def trace_of_def web_runs)

lemma web_mutator_reads: "mu_client web_mutator \<noteq> None" "mu_env_namespace web_mutator \<noteq> []"
  by (simp_all add: web_mutator_def)

definition plain_container :: container where
  "plain_container = \<lparr> ct_name = ''app'', ct_env = [], ct_mounts = [] \<rparr>"

lemma web_pair:
  "outcome_of (Default web_mutator web_pod) (store_of [web_env]) = (None, admitted_web_pod)"
  "(plain_container, web_container) \<in> set (zip (pd_init web_pod @ pd_containers web_pod)
     (pd_init admitted_web_pod @ pd_containers admitted_web_pod))"
  "distinct (map fst (pd_annotations web_pod))"
  "(''flox.seedmatic.io/environment.'' @ ct_name plain_container, ''ns/web'') \<in> set (pd_annotations web_pod)"
  "(''flox.seedmatic.io/nix-build.'' @ ct_name plain_container, ''cache'') \<in> set (pd_annotations web_pod)"
proof -
  show "outcome_of (Default web_mutator web_pod) (store_of [web_env]) = (None, admitted_web_pod)"
    by (simp add: outcome_of_def web_runs)
qed (simp_all add: admitted_web_pod_def web_pod_def plain_container_def)

theorem opted_in_container_is_complete_witness:
  "\<exists>r. GetFloxEnv (ObjKey (mu_env_namespace web_mutator) (envName ''ns/web'')) r
        \<in> set (trace_of (Default web_mutator web_pod) (store_of [web_env])) \<and>
     lookup_by ev_name ''TOKEN'' (ct_env web_container) = lookup_by ev_name ''TOKEN''
       (map (\<lambda>ie. \<lparr> ev_name = ie_name ie, ev_value = (if ie_secret ie = None then ie_value ie else []),
         ev_from = map_option SecretKeyRef (ie_secret ie) \<rparr>) (case r of Inl e \<Rightarrow> [] | Inr env \<Rightarrow> sp_inject (fe_spec env)))"
proof -
  obtain injects where i: "if mu_client web_mutator = None \<or> mu_env_namespace web_mutator = [] then injects = []
      else \<exists>r. GetFloxEnv (ObjKey (mu_env_namespace web_mutator) (envName ''ns/web'')) r
          \<in> set (trace_of (Default web_mutator web_pod) (store_of [web_env])) \<and>
        injects = (case r of Inl e \<Rightarrow> [] | Inr env \<Rightarrow> sp_inject (fe_spec env))"
    and n: "\<forall>n. n \<noteq> ''NIX_CONFIG'' \<longrightarrow> lookup_by ev_name n (ct_env web_container) = lookup_by ev_name n (ct_env plain_container @
       map (\<lambda>(n, x). \<lparr> ev_name = n, ev_value = x, ev_from = None \<rparr>)
         [(''_FLOX_TESTING_DISABLE_BG_SIDE_EFFECTS'', ''true''), (''FLOX_DISABLE_METRICS'', ''true''),
          (''FLOX_NO_TELEMETRY'', ''1''), (''FLOX_NONINTERACTIVE'', ''1'')] @
       map (\<lambda>ie. \<lparr> ev_name = ie_name ie, ev_value = (if ie_secret ie = None then ie_value ie else []),
         ev_from = map_option SecretKeyRef (ie_secret ie) \<rparr>) injects)"
    using opted_in_container_is_complete [OF web_pair(1-4)] by blast
  from n [rule_format, of "''TOKEN''"] i web_mutator_reads show ?thesis
    by (auto simp: plain_container_def lookup_by_append)
qed

theorem nix_build_store_is_ready_witness:
  "(\<exists>r. CreateClaim \<lparr> vc_key = ObjKey ''ns'' ''cache'', vc_class = None, vc_size = ''30Gi'' \<rparr> r
       \<in> set (trace_of (Default web_mutator web_pod) (store_of [web_env])) \<and>
      (case r of None \<Rightarrow> True | Some e \<Rightarrow> IsAlreadyExists e)) \<and>
   lookup_by vol_name ''cache'' (pd_volumes admitted_web_pod) = Some \<lparr> vol_name = ''cache'', vol_source = PersistentVolumeClaim ''cache'' \<rparr> \<and>
   ct_mounts web_container = [\<lparr> vm_name = ''cache'', vm_path = ''/var/lib/flox-nri/nix-build-store'' \<rparr>]"
proof -
  have "om_namespace (pd_meta web_pod) = ''ns''" "pd_volumes web_pod = []" "ct_mounts plain_container = []"
    by (simp_all add: web_pod_def plain_meta_def plain_container_def)
  moreover have "mu_store_class web_mutator = []" "mu_store_size web_mutator = []" by (simp_all add: web_mutator_def)
  ultimately show ?thesis
    using nix_build_store_is_ready [OF web_pair(1-3,5)] web_mutator_reads by simp
qed

theorem admission_fails_on_refused_claim_witness:
  "\<exists>pvc e'. CreateClaim (store_claim refusing_mutator (om_namespace (pd_meta web_pod)) pvc) (Some e')
      \<in> set (trace_of (Default refusing_mutator web_pod) (store_of [web_env])) \<and>
    \<not> IsAlreadyExists e' \<and>
    WrapErr ''ensure nix-store PVC ns/cache'' (OtherErr ''quota'') =
      WrapErr (''ensure nix-store PVC '' @ om_namespace (pd_meta web_pod) @ ''/'' @ pvc) e' \<and>
    map ct_mounts (pd_init (snd (outcome_of (Default refusing_mutator web_pod) (store_of [web_env]))) @
        pd_containers (snd (outcome_of (Default refusing_mutator web_pod) (store_of [web_env])))) =
      map ct_mounts (pd_init web_pod @ pd_containers web_pod)"
  by (rule admission_fails_on_refused_claim) (simp add: outcome_of_def web_runs)

end
