(* ===== verification/PodValidity.thy ===== *)
theory PodValidity
  imports PodFloxProperties
begin

text \<open>
  Admitted pods are well formed. The API server accepts a pod only if its volumes, scheduling gates
  and containers have distinct names, and if the mounts of each container have distinct paths and name
  volumes of the pod. The mutator runs before that check, so what it adds must not break it.
\<close>

definition mounts_ok :: "volume list \<Rightarrow> container \<Rightarrow> bool" where
  "mounts_ok vols c \<longleftrightarrow> distinct (map vm_path (ct_mounts c)) \<and> vm_name ` set (ct_mounts c) \<subseteq> vol_name ` set vols"

definition pod_ok :: "pod \<Rightarrow> bool" where
  "pod_ok p \<longleftrightarrow> distinct (map vol_name (pd_volumes p)) \<and> distinct (pd_gates p) \<and>
     distinct (map ct_name (pd_init p @ pd_containers p)) \<and>
     list_all (mounts_ok (pd_volumes p)) (pd_init p @ pd_containers p)"

text \<open>
  The path of the store is free in a container, or its store is mounted already. Without a store there
  is nothing to mount.
\<close>

definition store_path_free :: "strmap \<Rightarrow> container \<Rightarrow> bool" where
  "store_path_free annotations c \<longleftrightarrow> (case map_of (per_container nixBuildAnnotationPrefix annotations) (ct_name c) of
     None \<Rightarrow> True
   | Some pvc \<Rightarrow> pvc \<in> vm_name ` set (ct_mounts c) \<or> nixBuildStoreMount \<notin> vm_path ` set (ct_mounts c))"

subsection \<open>Each addition keeps the shape\<close>

lemma mounts_ok_mono: "mounts_ok vols c \<Longrightarrow> vol_name ` set vols \<subseteq> vol_name ` set vols' \<Longrightarrow> mounts_ok vols' c"
  unfolding mounts_ok_def by blast

lemma gates_distinct: "distinct (pd_gates p) \<Longrightarrow> distinct (gates_of p)"
  using gates.distinct_ins [of "pd_gates p" SchedulingGateName] by (simp add: gates_of_def)

lemma mount_added:
  assumes "distinct (map vm_path ms)" "vm_name m \<in> vm_name ` set ms \<or> vm_path m \<notin> vm_path ` set ms"
  shows "distinct (map vm_path (add_mount m ms))"
  using assms by (cases "vm_name m \<in> vm_name ` set ms") (auto simp: mounts.ins_present mounts.ins_absent)

lemma admit_container_simps:
  "ct_name (admit_container injects annotations c) = ct_name c"
  "ct_mounts (admit_container injects annotations c) = (case store_of_container annotations (ct_name c) of
     None \<Rightarrow> ct_mounts c
   | Some pvc \<Rightarrow> add_mount \<lparr> vm_name = pvc, vm_path = nixBuildStoreMount \<rparr> (ct_mounts c))"
  by (simp_all add: admit_container_def build_container_def flox_container_def split: option.split)

lemma admitted_container_ok:
  assumes "mounts_ok vols c" "store_path_free annotations c" "vol_name ` set vols \<subseteq> vol_name ` set vols'"
    and "\<And>pvc. store_of_container annotations (ct_name c) = Some pvc \<Longrightarrow> pvc \<in> vol_name ` set vols'"
  shows "mounts_ok vols' (admit_container injects annotations c)"
proof (cases "store_of_container annotations (ct_name c)")
  case None
  then show ?thesis using mounts_ok_mono [OF assms(1,3)] by (simp add: mounts_ok_def admit_container_simps)
next
  case (Some pvc)
  let ?m = "\<lparr> vm_name = pvc, vm_path = nixBuildStoreMount \<rparr>"
  have "distinct (map vm_path (add_mount ?m (ct_mounts c)))"
    using assms(1,2) Some by (intro mount_added) (auto simp: mounts_ok_def store_path_free_def store_of_container_def)
  moreover have "vm_name ` set (add_mount ?m (ct_mounts c)) \<subseteq> vol_name ` set vols'"
    using mounts_ok_mono [OF assms(1,3)] assms(4) [OF Some] by (auto simp: mounts.keys_ins mounts_ok_def)
  ultimately show ?thesis by (simp add: mounts_ok_def admit_container_simps Some)
qed

lemma admitted_volumes:
  "vol_name ` set (pd_volumes (admitted injects p)) = set (stores_of p) \<union> vol_name ` set (pd_volumes p)"
  by (simp add: admitted_simps volumes.keys_fold claim_volume_def image_image)

lemma admitted_ok:
  assumes "pod_ok p" "list_all (store_path_free (pd_annotations p)) (pd_init p @ pd_containers p)"
  shows "pod_ok (admitted injects p)"
proof -
  have store: "pvc \<in> vol_name ` set (pd_volumes (admitted injects p))"
    if "store_of_container (pd_annotations p) n = Some pvc" for n pvc
    using that unfolding admitted_volumes by (force simp: store_of_container_def stores_of_def dest: map_of_SomeD)
  have "mounts_ok (pd_volumes (admitted injects p)) (admit_container injects (pd_annotations p) c)"
    if "c \<in> set (pd_init p @ pd_containers p)" for c
    using assms that by (intro admitted_container_ok [OF _ _ _ store])
      (auto simp: pod_ok_def list_all_iff admitted_volumes)
  moreover have "distinct (map vol_name (pd_volumes (admitted injects p)))"
    using assms(1) by (simp add: admitted_simps volumes.distinct_fold pod_ok_def)
  moreover have "distinct (pd_gates (admitted injects p))"
    using assms(1) by (simp add: admitted_simps gates_distinct pod_ok_def)
  moreover have "distinct (map ct_name (pd_init (admitted injects p) @ pd_containers (admitted injects p)))"
    using assms(1) by (simp add: admitted_simps(4,5) admit_container_simps pod_ok_def comp_def)
  ultimately show ?thesis unfolding pod_ok_def by (simp add: list_all_iff admitted_simps(4,5)) blast
qed

text \<open>
  C28: Admission hands the API server a pod it can accept. When a well-formed pod is admitted, the
  volumes, gates and containers of the result have distinct names and each mount has a path of its own
  and a volume of the pod, provided no container that asks for a nix-build store has something else
  mounted at the path of the store.
\<close>

theorem admission_keeps_pod_ok:
  assumes "pod_ok pod" "outcome_of (Default M pod) w = (None, pod')"
    and "\<forall>c \<in> set (pd_init pod @ pd_containers pod). store_path_free (pd_annotations pod) c"
  shows "pod_ok pod'"
proof -
  obtain injects where "pod' = admitted injects pod"
    using admission_run [of M pod w] assms(2) unfolding admission_def by auto
  then show ?thesis using admitted_ok [OF assms(1)] assms(3) by (simp add: list_all_iff)
qed

lemma web_pod_ok: "pod_ok web_pod" "list_all (store_path_free (pd_annotations web_pod)) (pd_init web_pod @ pd_containers web_pod)"
  by (simp_all add: pod_ok_def web_pod_def mounts_ok_def store_path_free_def split: option.split)

theorem admission_keeps_pod_ok_witness: "pod_ok admitted_web_pod"
proof (rule admission_keeps_pod_ok [OF web_pod_ok(1)])
  show "outcome_of (Default web_mutator web_pod) (store_of [web_env]) = (None, admitted_web_pod)"
    by (simp add: outcome_of_def web_runs)
  show "\<forall>c \<in> set (pd_init web_pod @ pd_containers web_pod). store_path_free (pd_annotations web_pod) c"
    using web_pod_ok(2) by (simp add: list_all_iff)
qed

text \<open>
  The proviso is needed: a container that keeps something else at the path of the store gets a second
  mount there. And a volume of the author's that happens to have the name of the claim is mounted in
  its place: no volume of the admitted pod is the claim.
\<close>

definition taken_pod :: pod where
  "taken_pod = web_pod\<lparr> pd_volumes := [\<lparr> vol_name = ''tmp'', vol_source = OtherVolume ''emptyDir'' \<rparr>],
     pd_containers := [\<lparr> ct_name = ''app'', ct_env = [],
       ct_mounts = [\<lparr> vm_name = ''tmp'', vm_path = nixBuildStoreMount \<rparr>] \<rparr>] \<rparr>"

theorem taken_store_path_breaks_pod:
  "pod_ok taken_pod \<and> (\<exists>pod'. outcome_of (Default web_mutator taken_pod) (store_of [web_env]) = (None, pod') \<and> \<not> pod_ok pod')"
proof
  show "pod_ok taken_pod" by (simp add: pod_ok_def taken_pod_def web_pod_def mounts_ok_def)
  show "\<exists>pod'. outcome_of (Default web_mutator taken_pod) (store_of [web_env]) = (None, pod') \<and> \<not> pod_ok pod'"
    by (simp add: taken_pod_def pod_ok_def mounts_ok_def admission_defs go_defs)
qed

definition homonym_pod :: pod where
  "homonym_pod = web_pod\<lparr> pd_volumes := [\<lparr> vol_name = ''cache'', vol_source = OtherVolume ''emptyDir'' \<rparr>] \<rparr>"

theorem homonym_volume_replaces_claim:
  "\<exists>pod'. outcome_of (Default web_mutator homonym_pod) (store_of [web_env]) = (None, pod') \<and>
     map vol_source (pd_volumes pod') = [OtherVolume ''emptyDir''] \<and>
     map (map vm_name \<circ> ct_mounts) (pd_containers pod') = [[''cache'']]"
  by (simp add: homonym_pod_def admission_defs go_defs)

end
