(* ===== verification/Catalog.thy ===== *)
theory Catalog
  imports FloxEnvController
begin

text \<open>
  \<open>internal/controller/floxcatalog_controller.go\<close>: a FloxCatalog resolved to a nix flake reference
  from the artifact of its Flux source, the rollup of the namespace's FloxEnvs, the propagation
  of the resolved revision as their relock token, and the watch mappings. URL parsing and
  printing, \<open>net.ParseIP\<close> and the nested-field reader of unstructured objects are parameters;
  the host and port of a URL are split and joined as packages \<open>net/url\<close> and \<open>net\<close> do.
\<close>

subsection \<open>Hosts and ports\<close>

record url =
  u_host :: string
  u_rest :: string

record net_libs =
  url_Parse :: "string \<Rightarrow> go_error + url"
  url_String :: "url \<Rightarrow> string"
  net_ParseIP :: "string \<Rightarrow> bool"
  net_Quote :: "string \<Rightarrow> string"
  NestedString :: "jobject \<Rightarrow> string list \<Rightarrow> string"

definition is_digit :: "char \<Rightarrow> bool" where
  "is_digit c \<longleftrightarrow> c \<in> set ''0123456789''"

definition validOptionalPort :: "string \<Rightarrow> bool" where
  "validOptionalPort p = (case p of [] \<Rightarrow> True | c # ds \<Rightarrow> c = CHR '':'' \<and> list_all is_digit ds)"

definition splitHostPort :: "string \<Rightarrow> string \<times> string" where
  "splitHostPort hostPort =
     (let (host, port) = (case LastIndexByte hostPort (CHR '':'') of
            Some i \<Rightarrow> if validOptionalPort (drop i hostPort) then (take i hostPort, drop (i + 1) hostPort)
                      else (hostPort, [])
          | None \<Rightarrow> (hostPort, []))
      in (if HasPrefix host ''['' \<and> HasSuffix host '']'' then butlast (tl host) else host, port))"

definition Hostname :: "url \<Rightarrow> string" where "Hostname u = fst (splitHostPort (u_host u))"
definition Port :: "url \<Rightarrow> string" where "Port u = snd (splitHostPort (u_host u))"

definition JoinHostPort :: "string \<Rightarrow> string \<Rightarrow> string" where
  "JoinHostPort host port =
     (if CHR '':'' \<in> set host then ''['' @ host @ '']:'' @ port else host @ '':'' @ port)"

definition reach_host :: "string \<Rightarrow> string \<Rightarrow> string" where
  "reach_host ip port = (if port \<noteq> [] then JoinHostPort ip port else ip)"

definition nodeReachableURL :: "net_libs \<Rightarrow> 'w client \<Rightarrow> string \<Rightarrow> ('w st, go_error + string) state" where
  "nodeReachableURL N C raw =
     (case url_Parse N raw of
        Inl e \<Rightarrow> State_Monad.return (Inl e)
      | Inr u \<Rightarrow>
          if net_ParseIP N (Hostname u) then State_Monad.return (Inr raw)
          else do {
            r \<leftarrow> lookup_host C (Hostname u);
            State_Monad.return (case r of
              Inl e \<Rightarrow> Inl (WrapErr (''resolve artifact host '' @ net_Quote N (Hostname u)) e)
            | Inr ips \<Rightarrow> (case ips of
                [] \<Rightarrow> Inl (OtherErr (''resolve artifact host '' @ net_Quote N (Hostname u) @ '': no addresses''))
              | ip # _ \<Rightarrow> Inr (url_String N (u\<lparr> u_host := reach_host ip (Port u) \<rparr>))))
          })"

subsection \<open>Rollup of the namespace's envs\<close>

fun rollup_loop :: "meta_api \<Rightarrow> floxenv list \<Rightarrow> nat \<times> nat \<times> floxenv_phase list \<Rightarrow> nat \<times> nat \<times> floxenv_phase list" where
  "rollup_loop M [] acc = acc"
| "rollup_loop M (env # envs) (ready, realizing, plan) =
     (case FindStatusCondition M (fe_conditions env) ''Ready'' of
        None \<Rightarrow> rollup_loop M envs (ready, realizing, plan @ [\<lparr> ph_name = fe_name env, ph_phase = [] \<rparr>])
      | Some c \<Rightarrow>
          rollup_loop M envs
            (if c_status c = ConditionTrue then ready + 1 else ready,
             if c_status c \<noteq> ConditionTrue \<and> c_reason c = ''Realizing'' then realizing + 1 else realizing,
             plan @ [\<lparr> ph_name = fe_name env, ph_phase = c_reason c \<rparr>]))"

definition rollup_summary :: "nat \<Rightarrow> nat \<Rightarrow> nat \<Rightarrow> string" where
  "rollup_summary ready realizing n =
     show_nat ready @ ''/'' @ show_nat n @ '' ready'' @
     (if realizing > 0 then '', '' @ show_nat realizing @ '' realizing'' else [])"

definition envsRollup :: "meta_api \<Rightarrow> 'w client \<Rightarrow> string \<Rightarrow> ('w st, string \<times> floxenv_phase list) state" where
  "envsRollup M C ns = do {
     r \<leftarrow> list_envs C (Some ns);
     State_Monad.return (case r of
       Inl e \<Rightarrow> ([], [])
     | Inr envs \<Rightarrow>
         (let (ready, realizing, plan) = rollup_loop M envs (0, 0, [])
          in (rollup_summary ready realizing (length envs), plan)))
   }"

subsection \<open>Relock propagation\<close>

definition with_relock :: "string \<Rightarrow> floxenv \<Rightarrow> floxenv" where
  "with_relock revision env = env\<lparr> fe_meta := (fe_meta env)\<lparr> om_annotations :=
     AList.update relockAnnotation revision (fe_annotations env) \<rparr> \<rparr>"

fun relock_each :: "'w client \<Rightarrow> string \<Rightarrow> floxenv list \<Rightarrow> ('w st, go_error option) state" where
  "relock_each C revision [] = State_Monad.return None"
| "relock_each C revision (env # envs) =
     (if map_get (fe_annotations env) relockAnnotation = revision then relock_each C revision envs
      else do {
        r \<leftarrow> patch_env C env (with_relock revision env);
        case r of Some e \<Rightarrow> State_Monad.return (Some e) | None \<Rightarrow> relock_each C revision envs
      })"

definition propagateRelock :: "'w client \<Rightarrow> string \<Rightarrow> string \<Rightarrow> ('w st, go_error option) state" where
  "propagateRelock C ns revision =
     (if revision = [] then State_Monad.return None
      else do {
        r \<leftarrow> list_envs C (Some ns);
        case r of Inl e \<Rightarrow> State_Monad.return (Some e) | Inr envs \<Rightarrow> relock_each C revision envs
      })"

subsection \<open>The reconcile\<close>

definition catalog_ready ::
  "meta_api \<Rightarrow> floxcatalog \<Rightarrow> condition_status \<Rightarrow> string \<Rightarrow> string \<Rightarrow> floxcatalog" where
  "catalog_ready M fc status reason msg =
     fc\<lparr> fc_status := (fc_status fc)\<lparr> ct_conditions := SetStatusCondition M (ct_conditions (fc_status fc))
       \<lparr> c_type = ''Ready'', c_status = status, c_reason = reason, c_message = msg,
         c_observed = om_generation (fc_meta fc) \<rparr> \<rparr> \<rparr>"

definition notReady ::
  "meta_api \<Rightarrow> 'w client \<Rightarrow> floxcatalog \<Rightarrow> string \<Rightarrow> go_error \<Rightarrow> ('w st, outcome) state" where
  "notReady M C flake reason cause = do {
     _ \<leftarrow> patch_catalog_status C flake (catalog_ready M flake ConditionFalse reason (error_string cause));
     State_Monad.return (done_result, Some cause)
   }"

definition source_key :: "floxcatalog \<Rightarrow> objkey" where
  "source_key flake =
     ObjKey (if sr_namespace (cs_source_ref (fc_spec flake)) = [] then om_namespace (fc_meta flake)
             else sr_namespace (cs_source_ref (fc_spec flake)))
       (sr_name (cs_source_ref (fc_spec flake)))"

definition flake_ref_of :: "floxcatalog \<Rightarrow> string \<Rightarrow> string" where
  "flake_ref_of flake reachable =
     ''tarball+'' @ reachable @
     (if cs_dir (fc_spec flake) \<noteq> [] then ''?dir='' @ cs_dir (fc_spec flake) else [])"

definition resolved_catalog ::
  "meta_api \<Rightarrow> floxcatalog \<Rightarrow> string \<Rightarrow> string \<Rightarrow> string \<Rightarrow> string \<times> floxenv_phase list \<Rightarrow> floxcatalog" where
  "resolved_catalog M flake revision url flakeRef rollup =
     catalog_ready M
       (flake\<lparr> fc_status := (fc_status flake)\<lparr> ct_revision := revision, ct_artifact_url := url,
          ct_flake_ref := flakeRef, ct_envs_summary := fst rollup, ct_envs := snd rollup \<rparr> \<rparr>)
       ConditionTrue ''Resolved''
       (''resolved from GitRepository '' @ sr_name (cs_source_ref (fc_spec flake)) @ '' at '' @ revision)"

definition FloxCatalog_Reconcile ::
  "meta_api \<Rightarrow> net_libs \<Rightarrow> 'w client \<Rightarrow> objkey \<Rightarrow> ('w st, outcome) state" where
  "FloxCatalog_Reconcile M N C req = do {
     got \<leftarrow> get_catalog C req;
     case got of
       Inl e \<Rightarrow> State_Monad.return (done_result, IgnoreNotFound e)
     | Inr flake \<Rightarrow> do {
         src \<leftarrow> get_source C (source_key flake);
         case src of
           Inl e \<Rightarrow> notReady M C flake ''SourceNotFound'' e
         | Inr obj \<Rightarrow>
             let url = NestedString N obj [''status'', ''artifact'', ''url'']
             in if url = []
                then notReady M C flake ''ArtifactNotReady''
                  (OtherErr (''GitRepository '' @ key_namespace (source_key flake) @ ''/'' @
                     sr_name (cs_source_ref (fc_spec flake)) @ '' has no status.artifact.url yet''))
                else
                  let revision = NestedString N obj [''status'', ''artifact'', ''revision'']
                  in do {
                    reach \<leftarrow> nodeReachableURL N C url;
                    case reach of
                      Inl e \<Rightarrow> notReady M C flake ''ArtifactURLUnresolvable'' e
                    | Inr reachable \<Rightarrow> do {
                        rollup \<leftarrow> envsRollup M C (om_namespace (fc_meta flake));
                        r \<leftarrow> patch_catalog_status C flake
                          (resolved_catalog M flake revision url (flake_ref_of flake reachable) rollup);
                        case r of
                          Inl e \<Rightarrow> State_Monad.return (done_result, Some e)
                        | Inr flake' \<Rightarrow> do {
                            err \<leftarrow> propagateRelock C (om_namespace (fc_meta flake')) revision;
                            State_Monad.return (done_result, err)
                          }
                      }
                  }
       }
   }"

subsection \<open>Watches\<close>

definition catalog_key :: "floxcatalog \<Rightarrow> objkey" where
  "catalog_key fc = ObjKey (om_namespace (fc_meta fc)) (om_name (fc_meta fc))"

definition catalogsForSource :: "'w client \<Rightarrow> objkey \<Rightarrow> ('w st, objkey list) state" where
  "catalogsForSource C src = do {
     r \<leftarrow> list_catalogs C None;
     State_Monad.return (case r of Inl e \<Rightarrow> []
       | Inr items \<Rightarrow> map catalog_key (filter (\<lambda>f. source_key f = src) items))
   }"

definition catalogsForEnv :: "'w client \<Rightarrow> floxenv \<Rightarrow> ('w st, objkey list) state" where
  "catalogsForEnv C env = do {
     r \<leftarrow> list_catalogs C (Some (fe_namespace env));
     State_Monad.return (case r of Inl e \<Rightarrow> [] | Inr items \<Rightarrow> map catalog_key items)
   }"

definition readiness :: "meta_api \<Rightarrow> floxenv \<Rightarrow> string" where
  "readiness M env =
     (case FindStatusCondition M (fe_conditions env) ''Ready'' of
        None \<Rightarrow> []
      | Some c \<Rightarrow> show_status (c_status c) @ ''/'' @ c_reason c)"

text \<open>\<open>None\<close> stands for an update event whose object is not a FloxEnv.\<close>

definition envReadinessChange :: "meta_api \<Rightarrow> floxenv option \<Rightarrow> floxenv option \<Rightarrow> bool" where
  "envReadinessChange M old new =
     (case (old, new) of
        (Some before, Some after) \<Rightarrow> readiness M before \<noteq> readiness M after
      | _ \<Rightarrow> True)"

end
