(* ===== verification/CatalogProperties.thy ===== *)
theory CatalogProperties
  imports Catalog Examples
begin

text \<open>
  What the FloxCatalog reconcile promises: what a resolved catalog says comes from the source read in
  the same pass, an unresolved one keeps its last good reference, an advance reaches every env of
  the namespace, the rollup counts right, and the watch predicates wake on exactly what changes it.
\<close>

subsection \<open>Relock propagation\<close>

definition stale_envs :: "string \<Rightarrow> floxenv list \<Rightarrow> floxenv list" where
  "stale_envs revision envs = filter (\<lambda>e. map_get (fe_annotations e) relockAnnotation \<noteq> revision) envs"

definition stamp_accepted :: "string \<Rightarrow> floxenv \<Rightarrow> event" where
  "stamp_accepted revision e = PatchFloxEnv e (with_relock revision e) None"

definition relock_run :: "string \<Rightarrow> floxenv list \<Rightarrow> go_error option \<Rightarrow> event list \<Rightarrow> bool" where
  "relock_run revision envs out evs \<longleftrightarrow>
     (case out of
        None \<Rightarrow> evs = map (stamp_accepted revision) (stale_envs revision envs)
      | Some err \<Rightarrow> \<exists>stamped e rest. stale_envs revision envs = stamped @ e # rest \<and>
          evs = map (stamp_accepted revision) stamped @ [PatchFloxEnv e (with_relock revision e) (Some err)])"

lemma relock_run_Cons:
  assumes "map_get (fe_annotations e) relockAnnotation \<noteq> revision" "relock_run revision envs out evs"
  shows "relock_run revision (e # envs) out (PatchFloxEnv e (with_relock revision e) None # evs)"
proof -
  have "stale_envs revision (e # envs) = e # stale_envs revision envs" using assms(1) by (simp add: stale_envs_def)
  then show ?thesis
    using assms(2) unfolding relock_run_def
    by (cases out) (simp_all add: stamp_accepted_def, metis (no_types) append_Cons list.simps(9) stamp_accepted_def)
qed

lemma relock_each_emits: "emits (relock_each C revision envs) (relock_run revision envs)"
proof (induction envs)
  case Nil
  show ?case unfolding relock_each.simps by (intro emits_intros) (simp add: relock_run_def stale_envs_def)
next
  case (Cons e envs)
  show ?case
  proof (cases "map_get (fe_annotations e) relockAnnotation = revision")
    case True
    then have "stale_envs revision (e # envs) = stale_envs revision envs" by (simp add: stale_envs_def)
    then have "relock_run revision (e # envs) = relock_run revision envs" by (intro ext) (simp only: relock_run_def)
    with True Cons.IH show ?thesis by simp
  next
    case False
    have refused: "relock_run revision (e # envs) (Some err) [PatchFloxEnv e (with_relock revision e) (Some err)]" for err
      using False by (auto simp: relock_run_def stale_envs_def intro!: exI [of _ "[]"])
    show ?thesis
      unfolding relock_each.simps if_not_P [OF False] patch_env_def
      by (intro emits_intros emits_mono [OF Cons.IH]) (auto intro: refused relock_run_Cons [OF False])
  qed
qed

text \<open>
  C22: An advance reaches the envs. Propagating a revision lists the FloxEnvs of the namespace and
  stamps the relock annotation of exactly those that do not carry the revision, in order; it stops
  at the first refused patch and returns its error. Without a revision it does nothing.
\<close>

theorem advance_reaches_envs:
  "if revision = [] then outcome_of (propagateRelock C ns revision) w = None \<and> trace_of (propagateRelock C ns revision) w = []
   else \<exists>r stamps. trace_of (propagateRelock C ns revision) w = ListFloxEnvs (Some ns) r # stamps \<and>
     (case (r, outcome_of (propagateRelock C ns revision) w) of
        (Inl e, out) \<Rightarrow> out = Some e \<and> stamps = []
      | (Inr envs, None) \<Rightarrow> stamps = map (stamp_accepted revision) (stale_envs revision envs)
      | (Inr envs, Some e) \<Rightarrow> \<exists>before env rest. stale_envs revision envs = before @ env # rest \<and>
          stamps = map (stamp_accepted revision) before @ [PatchFloxEnv env (with_relock revision env) (Some e)])"
proof -
  define Q where "Q out evs \<longleftrightarrow> (if revision = [] then out = None \<and> evs = []
      else \<exists>r stamps. evs = ListFloxEnvs (Some ns) r # stamps \<and>
        (case r of Inl e \<Rightarrow> out = Some e \<and> stamps = [] | Inr envs \<Rightarrow> relock_run revision envs out stamps))"
    for out :: "go_error option" and evs
  have "emits (propagateRelock C ns revision) Q"
    unfolding propagateRelock_def list_envs_def
    by (intro emits_intros emits_mono [OF relock_each_emits]) (auto simp: Q_def)
  then have run: "Q (outcome_of (propagateRelock C ns revision) w) (trace_of (propagateRelock C ns revision) w)"
    by (rule emits_run)
  show ?thesis
  proof (cases "revision = []")
    case True
    then show ?thesis using run by (simp add: Q_def)
  next
    case False
    then obtain r stamps where *: "trace_of (propagateRelock C ns revision) w = ListFloxEnvs (Some ns) r # stamps"
        "case r of Inl e \<Rightarrow> outcome_of (propagateRelock C ns revision) w = Some e \<and> stamps = []
          | Inr envs \<Rightarrow> relock_run revision envs (outcome_of (propagateRelock C ns revision) w) stamps"
      using run unfolding Q_def by auto
    have "case (r, outcome_of (propagateRelock C ns revision) w) of
        (Inl e, out) \<Rightarrow> out = Some e \<and> stamps = []
      | (Inr envs, None) \<Rightarrow> stamps = map (stamp_accepted revision) (stale_envs revision envs)
      | (Inr envs, Some e) \<Rightarrow> \<exists>before env rest. stale_envs revision envs = before @ env # rest \<and>
          stamps = map (stamp_accepted revision) before @ [PatchFloxEnv env (with_relock revision env) (Some e)]"
      using *(2) by (cases r; cases "outcome_of (propagateRelock C ns revision) w") (simp_all add: relock_run_def)
    with *(1) show ?thesis unfolding if_not_P [OF False] by blast
  qed
qed

subsection \<open>Reachable URLs\<close>

lemma splitHostPort_colon:
  assumes "list_all is_digit port"
  shows "splitHostPort (h @ '':'' @ port) = (if HasPrefix h ''['' \<and> HasSuffix h '']'' then butlast (tl h) else h, port)"
proof -
  have "\<not> is_digit (CHR '':'')" by (simp add: is_digit_def)
  then have "CHR '':'' \<notin> set port" using assms by (auto simp: list_all_iff)
  then have idx: "LastIndexByte (h @ '':'' @ port) (CHR '':'') = Some (length h)" by (simp add: LastIndexByte_append)
  have valid: "validOptionalPort (drop (length h) (h @ '':'' @ port))" using assms by (simp add: validOptionalPort_def)
  show ?thesis
    unfolding splitHostPort_def Let_def idx option.case if_P [OF valid] prod.case by simp
qed

text \<open>
  Putting an address back in front of a port is undone by taking it apart. Every address a
  lookup can answer, an IPv6 one with its colons included, and every decimal port come back from
  the \<open>host:port\<close> the rewrite makes of them.
\<close>

theorem host_port_roundtrip:
  assumes "port \<noteq> []" "list_all is_digit port" "CHR ''['' \<notin> set ip"
  shows "splitHostPort (reach_host ip port) = (ip, port)"
proof (cases "CHR '':'' \<in> set ip")
  case True
  have "reach_host ip port = (''['' @ ip @ '']'') @ '':'' @ port" using True assms(1) by (simp add: reach_host_def JoinHostPort_def)
  moreover have "HasPrefix (''['' @ ip @ '']'') ''[''" "HasSuffix (''['' @ ip @ '']'') '']''"
    by (simp_all add: HasPrefix_def HasSuffix_def)
  ultimately show ?thesis using splitHostPort_colon [OF assms(2), of "''['' @ ip @ '']''"] by simp
next
  case False
  have "\<not> HasPrefix ip ''[''" using assms(3) by (auto simp: HasPrefix_iff)
  then show ?thesis
    using splitHostPort_colon [OF assms(2), of ip] False assms(1) by (simp add: reach_host_def JoinHostPort_def)
qed

theorem host_port_roundtrip_witness: "splitHostPort (reach_host ''fd00::1'' ''9090'') = (''fd00::1'', ''9090'')"
  by (rule host_port_roundtrip) (simp_all add: is_digit_def)

text \<open>Without a port the address is used bare: an IPv6 address then reads as another host and a port.\<close>

lemma bare_ipv6_misread: "splitHostPort (reach_host ''fd00::1'' []) = (''fd00:'', ''1'')"
  by (simp add: reach_host_def splitHostPort_def validOptionalPort_def is_digit_def HasPrefix_def HasSuffix_def Let_def)

subsection \<open>The passes\<close>

definition reachable_from :: "net_libs \<Rightarrow> string \<Rightarrow> event list \<Rightarrow> string \<Rightarrow> bool" where
  "reachable_from N raw evs reach \<longleftrightarrow> (\<exists>u. url_Parse N raw = Inr u \<and>
     (if net_ParseIP N (Hostname u) then reach = raw
      else \<exists>ip ips. LookupHost (Hostname u) (Inr (ip # ips)) \<in> set evs \<and>
        reach = url_String N (u\<lparr> u_host := reach_host ip (Port u) \<rparr>)))"

lemma reachable_from_mono: "reachable_from N raw evs reach \<Longrightarrow> set evs \<subseteq> set evs' \<Longrightarrow> reachable_from N raw evs' reach"
  unfolding reachable_from_def by (auto split: if_splits)

fun host_lookup :: "event \<Rightarrow> bool" where
  "host_lookup (LookupHost h r) = True"
| "host_lookup _ = False"

lemma nodeReachableURL_emits:
  "emits (nodeReachableURL N C raw) (\<lambda>x evs. list_all host_lookup evs \<and> (\<forall>reach. x = Inr reach \<longrightarrow> reachable_from N raw evs reach))"
  unfolding nodeReachableURL_def lookup_host_def
  by (intro emits_intros) (auto simp: reachable_from_def split: sum.split list.split)

definition rollup_of :: "meta_api \<Rightarrow> go_error + floxenv list \<Rightarrow> string \<times> floxenv_phase list" where
  "rollup_of M r = (case r of Inl e \<Rightarrow> ([], [])
     | Inr envs \<Rightarrow> (let (ready, realizing, plan) = rollup_loop M envs (0, 0, [])
          in (rollup_summary ready realizing (length envs), plan)))"

lemma envsRollup_emits:
  "emits (envsRollup M C ns) (\<lambda>x evs. \<exists>r. evs = [ListFloxEnvs (Some ns) r] \<and> x = rollup_of M r)"
  unfolding envsRollup_def list_envs_def by (intro emits_intros) (simp add: rollup_of_def)

fun relock_event :: "string \<Rightarrow> event \<Rightarrow> bool" where
  "relock_event revision (ListFloxEnvs ns r) = True"
| "relock_event revision (PatchFloxEnv base new r) \<longleftrightarrow> new = with_relock revision base"
| "relock_event revision _ = False"

lemma propagateRelock_emits:
  "emits (propagateRelock C ns revision) (\<lambda>out evs. list_all (relock_event revision) evs)"
proof -
  have "emits (relock_each C revision envs) (\<lambda>out evs. list_all (relock_event revision) evs)" for envs
    by (rule emits_mono [OF relock_each_emits])
      (auto simp: relock_run_def list_all_iff stamp_accepted_def split: option.splits)
  then show ?thesis
    unfolding propagateRelock_def list_envs_def by (intro emits_intros) (auto elim!: emits_mono)
qed

text \<open>How a pass ends once the source was asked for.\<close>

definition unresolved_end :: "meta_api \<Rightarrow> floxcatalog \<Rightarrow> outcome \<Rightarrow> event list \<Rightarrow> bool" where
  "unresolved_end M flake out evs \<longleftrightarrow> (\<exists>reason e r. out = (done_result, Some e) \<and>
     evs = [PatchFloxCatalogStatus flake (catalog_ready M flake ConditionFalse reason (error_string e)) r])"

definition resolved_end ::
  "meta_api \<Rightarrow> net_libs \<Rightarrow> floxcatalog \<Rightarrow> jobject \<Rightarrow> event list \<Rightarrow> outcome \<Rightarrow> event list \<Rightarrow> bool" where
  "resolved_end M N flake obj lookups out evs \<longleftrightarrow> (\<exists>reach listing r rest.
     NestedString N obj [''status'', ''artifact'', ''url''] \<noteq> [] \<and>
     reachable_from N (NestedString N obj [''status'', ''artifact'', ''url'']) lookups reach \<and>
     evs = ListFloxEnvs (Some (om_namespace (fc_meta flake))) listing #
       PatchFloxCatalogStatus flake (resolved_catalog M flake (NestedString N obj [''status'', ''artifact'', ''revision''])
         (NestedString N obj [''status'', ''artifact'', ''url'']) (flake_ref_of flake reach) (rollup_of M listing)) r # rest \<and>
     list_all (relock_event (NestedString N obj [''status'', ''artifact'', ''revision''])) rest)"

definition catalog_trace :: "meta_api \<Rightarrow> net_libs \<Rightarrow> objkey \<Rightarrow> outcome \<Rightarrow> event list \<Rightarrow> bool" where
  "catalog_trace M N req out evs \<longleftrightarrow>
     (\<exists>e. evs = [GetFloxCatalog req (Inl e)] \<and> out = (done_result, IgnoreNotFound e)) \<or>
     (\<exists>flake src lookups rest. evs = GetFloxCatalog req (Inr flake) # GetSource (source_key flake) src # lookups @ rest \<and>
        list_all host_lookup lookups \<and>
        (unresolved_end M flake out rest \<or> (\<exists>obj. src = Inr obj \<and> resolved_end M N flake obj lookups out rest)))"

lemma catalog_trace_end:
  "list_all host_lookup lookups \<Longrightarrow>
    unresolved_end M flake out rest \<or> (\<exists>obj. src = Inr obj \<and> resolved_end M N flake obj lookups out rest) \<Longrightarrow>
    catalog_trace M N req out (GetFloxCatalog req (Inr flake) # GetSource (source_key flake) src # lookups @ rest)"
  unfolding catalog_trace_def by blast

lemma catalog_trace_now:
  "unresolved_end M flake out rest \<Longrightarrow>
    catalog_trace M N req out (GetFloxCatalog req (Inr flake) # GetSource (source_key flake) src # rest)"
  using catalog_trace_end [of "[]" M flake out rest src N req] by simp

lemma catalog_trace_missing: "catalog_trace M N req (done_result, IgnoreNotFound e) [GetFloxCatalog req (Inl e)]"
  by (simp add: catalog_trace_def)

lemma notReady_emits: "emits (notReady M C flake reason e) (unresolved_end M flake)"
  unfolding notReady_def patch_catalog_status_def
  by (intro emits_intros) (auto simp: unresolved_end_def)

text \<open>The end of a pass, with the reachable URL in hand.\<close>

definition publish ::
  "meta_api \<Rightarrow> net_libs \<Rightarrow> 'w client \<Rightarrow> floxcatalog \<Rightarrow> jobject \<Rightarrow> string \<Rightarrow> ('w st, outcome) state" where
  "publish M N C flake obj reachable = do {
     rollup \<leftarrow> envsRollup M C (om_namespace (fc_meta flake));
     r \<leftarrow> patch_catalog_status C flake
       (resolved_catalog M flake (NestedString N obj [''status'', ''artifact'', ''revision''])
          (NestedString N obj [''status'', ''artifact'', ''url'']) (flake_ref_of flake reachable) rollup);
     case r of
       Inl e \<Rightarrow> State_Monad.return (done_result, Some e)
     | Inr flake' \<Rightarrow> do {
         err \<leftarrow> propagateRelock C (om_namespace (fc_meta flake')) (NestedString N obj [''status'', ''artifact'', ''revision'']);
         State_Monad.return (done_result, err)
       }
   }"

lemma resolved_endI:
  assumes "NestedString N obj [''status'', ''artifact'', ''url''] \<noteq> []"
    "reachable_from N (NestedString N obj [''status'', ''artifact'', ''url'']) lookups reach"
    "list_all (relock_event (NestedString N obj [''status'', ''artifact'', ''revision''])) rest"
  shows "resolved_end M N flake obj lookups out (ListFloxEnvs (Some (om_namespace (fc_meta flake))) listing #
    PatchFloxCatalogStatus flake (resolved_catalog M flake (NestedString N obj [''status'', ''artifact'', ''revision''])
      (NestedString N obj [''status'', ''artifact'', ''url'']) (flake_ref_of flake reach) (rollup_of M listing)) r # rest)"
  unfolding resolved_end_def using assms by blast

lemma publish_emits:
  assumes "NestedString N obj [''status'', ''artifact'', ''url''] \<noteq> []"
    "reachable_from N (NestedString N obj [''status'', ''artifact'', ''url'']) lookups reach"
  shows "emits (publish M N C flake obj reach) (resolved_end M N flake obj lookups)"
  unfolding publish_def patch_catalog_status_def
  by (rule emits_bind [OF envsRollup_emits], elim exE conjE, hypsubst,
      intro emits_intros emits_bind [OF propagateRelock_emits])
    (auto intro: resolved_endI [OF assms])

lemma FloxCatalog_Reconcile_emits: "emits (FloxCatalog_Reconcile M N C req) (catalog_trace M N req)"
proof -
  have reach: "emits (State_Monad.bind (nodeReachableURL N C (NestedString N obj [''status'', ''artifact'', ''url'']))
      (\<lambda>reach. case reach of Inl e \<Rightarrow> notReady M C flake ''ArtifactURLUnresolvable'' e
        | Inr reachable \<Rightarrow> publish M N C flake obj reachable))
      (\<lambda>out evs. catalog_trace M N req out (GetFloxCatalog req (Inr flake) # GetSource (source_key flake) (Inr obj) # evs))"
    if url: "NestedString N obj [''status'', ''artifact'', ''url''] \<noteq> []" for flake obj
    by (rule emits_bind [OF nodeReachableURL_emits], intro emits_case_sum,
        rule emits_mono [OF notReady_emits], force intro: catalog_trace_end,
        elim conjE, rule emits_mono [OF publish_emits [OF url]], blast, rule catalog_trace_end, assumption, blast)
  show ?thesis
    unfolding FloxCatalog_Reconcile_def get_catalog_def get_source_def Let_def publish_def [symmetric]
    by (intro emits_intros emits_mono [OF notReady_emits]) (auto intro: catalog_trace_now catalog_trace_missing reach)
qed

lemma catalog_ready_find:
  assumes "meta_laws M"
  shows "FindStatusCondition M (ct_conditions (fc_status (catalog_ready M fc status reason msg))) ''Ready'' =
    Some \<lparr> c_type = ''Ready'', c_status = status, c_reason = reason, c_message = msg, c_observed = om_generation (fc_meta fc) \<rparr>"
proof -
  have set_find: "FindStatusCondition M (SetStatusCondition M cs c) (c_type c) = Some c" for cs c
    using assms by (simp add: meta_laws_def)
  show ?thesis
    using set_find [of _ "\<lparr> c_type = ''Ready'', c_status = status, c_reason = reason, c_message = msg,
      c_observed = om_generation (fc_meta fc) \<rparr>"] by (simp add: catalog_ready_def)
qed

lemma catalog_ready_true:
  "meta_laws M \<Longrightarrow> IsStatusConditionTrue M (ct_conditions (fc_status (catalog_ready M fc status reason msg))) ''Ready''
    \<longleftrightarrow> status = ConditionTrue"
  using catalog_ready_find [of M fc status reason msg] by (auto simp: meta_laws_def)

lemma catalog_ready_status [simp]:
  "ct_revision (fc_status (catalog_ready M fc status reason msg)) = ct_revision (fc_status fc)"
  "ct_artifact_url (fc_status (catalog_ready M fc status reason msg)) = ct_artifact_url (fc_status fc)"
  "ct_flake_ref (fc_status (catalog_ready M fc status reason msg)) = ct_flake_ref (fc_status fc)"
  "ct_envs (fc_status (catalog_ready M fc status reason msg)) = ct_envs (fc_status fc)"
  by (simp_all add: catalog_ready_def)

text \<open>The one status write of a pass.\<close>

lemma catalog_write:
  assumes "PatchFloxCatalogStatus base new r \<in> set (trace_of (FloxCatalog_Reconcile M N C req) w)"
  obtains (unresolved) reason e where
      "new = catalog_ready M base ConditionFalse reason (error_string e)"
      "outcome_of (FloxCatalog_Reconcile M N C req) w = (done_result, Some e)"
  | (resolved) obj lookups listing rest reach where
      "trace_of (FloxCatalog_Reconcile M N C req) w = GetFloxCatalog req (Inr base) # GetSource (source_key base) (Inr obj) #
         lookups @ ListFloxEnvs (Some (om_namespace (fc_meta base))) listing # PatchFloxCatalogStatus base new r # rest"
      "NestedString N obj [''status'', ''artifact'', ''url''] \<noteq> []"
      "reachable_from N (NestedString N obj [''status'', ''artifact'', ''url'']) lookups reach"
      "new = resolved_catalog M base (NestedString N obj [''status'', ''artifact'', ''revision''])
         (NestedString N obj [''status'', ''artifact'', ''url'']) (flake_ref_of base reach) (rollup_of M listing)"
      "list_all (relock_event (NestedString N obj [''status'', ''artifact'', ''revision''])) rest"
proof -
  let ?evs = "trace_of (FloxCatalog_Reconcile M N C req) w" and ?out = "outcome_of (FloxCatalog_Reconcile M N C req) w"
  have "catalog_trace M N req ?out ?evs" by (rule emits_run [OF FloxCatalog_Reconcile_emits])
  then show thesis
    unfolding catalog_trace_def
  proof (elim disjE exE conjE)
    fix e assume "?evs = [GetFloxCatalog req (Inl e)]"
    then show thesis using assms by simp
  next
    fix flake src lookups fin
    assume evs: "?evs = GetFloxCatalog req (Inr flake) # GetSource (source_key flake) src # lookups @ fin"
      and lookups: "list_all host_lookup lookups" and "unresolved_end M flake ?out fin"
    then obtain reason e r' where fin: "fin = [PatchFloxCatalogStatus flake (catalog_ready M flake ConditionFalse reason (error_string e)) r']"
        "?out = (done_result, Some e)"
      unfolding unresolved_end_def by blast
    have "PatchFloxCatalogStatus base new r \<notin> set lookups" using lookups by (auto simp: list_all_iff)
    then show thesis using assms fin unresolved [of reason e] by (auto simp: evs)
  next
    fix flake src lookups fin obj
    assume evs: "?evs = GetFloxCatalog req (Inr flake) # GetSource (source_key flake) src # lookups @ fin"
      and lookups: "list_all host_lookup lookups" and src: "src = Inr obj" and "resolved_end M N flake obj lookups ?out fin"
    then obtain reach listing r' rest where fin:
        "NestedString N obj [''status'', ''artifact'', ''url''] \<noteq> []"
        "reachable_from N (NestedString N obj [''status'', ''artifact'', ''url'']) lookups reach"
        "fin = ListFloxEnvs (Some (om_namespace (fc_meta flake))) listing #
         PatchFloxCatalogStatus flake (resolved_catalog M flake (NestedString N obj [''status'', ''artifact'', ''revision''])
           (NestedString N obj [''status'', ''artifact'', ''url'']) (flake_ref_of flake reach) (rollup_of M listing)) r' # rest"
        "list_all (relock_event (NestedString N obj [''status'', ''artifact'', ''revision''])) rest"
      unfolding resolved_end_def by blast
    have "PatchFloxCatalogStatus base new r \<notin> set lookups" "PatchFloxCatalogStatus base new r \<notin> set rest"
      using lookups fin(4) by (auto simp: list_all_iff)
    then have "flake = base" "r' = r" and new: "new = resolved_catalog M base (NestedString N obj [''status'', ''artifact'', ''revision''])
         (NestedString N obj [''status'', ''artifact'', ''url'']) (flake_ref_of base reach) (rollup_of M listing)"
      using assms by (auto simp: evs fin(3))
    then show thesis by (intro resolved [OF _ fin(1,2) new fin(4)]) (simp add: evs src fin(3))
  qed
qed

text \<open>
  C36: A catalog declared Ready says what its source says. The write is of the catalog read in this
  pass; its revision and artifact URL are those of the source read in this pass under the catalog's
  source reference, and its flake reference is a tarball of that URL, with the host as it is when it
  is an address and otherwise the first address looked up for it, and with the catalog's directory.
\<close>

theorem ready_catalog_is_its_source:
  assumes "meta_laws M"
    and "PatchFloxCatalogStatus base new r \<in> set (trace_of (FloxCatalog_Reconcile M N C req) w)"
    and "IsStatusConditionTrue M (ct_conditions (fc_status new)) ''Ready''"
  shows "\<exists>obj pre post reach.
    trace_of (FloxCatalog_Reconcile M N C req) w = GetFloxCatalog req (Inr base) # GetSource (source_key base) (Inr obj) #
      pre @ PatchFloxCatalogStatus base new r # post \<and>
    ct_artifact_url (fc_status new) = NestedString N obj [''status'', ''artifact'', ''url''] \<and>
    ct_artifact_url (fc_status new) \<noteq> [] \<and>
    ct_revision (fc_status new) = NestedString N obj [''status'', ''artifact'', ''revision''] \<and>
    reachable_from N (ct_artifact_url (fc_status new)) pre reach \<and>
    ct_flake_ref (fc_status new) = ''tarball+'' @ reach @
      (if cs_dir (fc_spec base) = [] then [] else ''?dir='' @ cs_dir (fc_spec base))"
  using assms(2)
proof (cases rule: catalog_write)
  case (unresolved reason e)
  then show ?thesis using assms(1,3) by (simp add: catalog_ready_true)
next
  case (resolved obj lookups listing rest reach)
  let ?pre = "lookups @ [ListFloxEnvs (Some (om_namespace (fc_meta base))) listing]"
  have "reachable_from N (NestedString N obj [''status'', ''artifact'', ''url'']) ?pre reach"
    by (rule reachable_from_mono [OF resolved(3)]) auto
  then show ?thesis
    using resolved(1,2) unfolding resolved(4)
    by (intro exI [of _ obj] exI [of _ ?pre] exI [of _ rest] exI [of _ reach])
      (simp add: resolved_catalog_def flake_ref_of_def)
qed

text \<open>
  A catalog that cannot be resolved keeps what it last resolved to and is retried. A write that
  does not declare it Ready changes its conditions and nothing else, so FloxEnvs go on resolving to
  the last good reference, and the pass returns the error it recorded.
\<close>

theorem unresolved_catalog_keeps_reference:
  assumes "meta_laws M"
    and "PatchFloxCatalogStatus base new r \<in> set (trace_of (FloxCatalog_Reconcile M N C req) w)"
    and "\<not> IsStatusConditionTrue M (ct_conditions (fc_status new)) ''Ready''"
  shows "new\<lparr> fc_status := (fc_status new)\<lparr> ct_conditions := ct_conditions (fc_status base) \<rparr> \<rparr> = base \<and>
    (\<exists>e c. outcome_of (FloxCatalog_Reconcile M N C req) w = (done_result, Some e) \<and>
       FindStatusCondition M (ct_conditions (fc_status new)) ''Ready'' = Some c \<and> c_status c = ConditionFalse \<and>
       c_message c = error_string e)"
  using assms(2)
proof (cases rule: catalog_write)
  case (unresolved reason e)
  have "new\<lparr> fc_status := (fc_status new)\<lparr> ct_conditions := ct_conditions (fc_status base) \<rparr> \<rparr> = base"
    unfolding unresolved(1) by (simp add: catalog_ready_def)
  moreover note catalog_ready_find [OF assms(1), of base ConditionFalse reason "error_string e", folded unresolved(1)]
  ultimately show ?thesis using unresolved(2)
    by (intro conjI exI [of _ e] exI) (assumption | simp only: condition.select_convs)+
next
  case (resolved obj lookups listing rest reach)
  then have "IsStatusConditionTrue M (ct_conditions (fc_status new)) ''Ready''"
    using assms(1) by (simp add: resolved_catalog_def catalog_ready_true)
  then show ?thesis using assms(3) by simp
qed

text \<open>Two passes over the sample catalog: with its source at revision r2, and without a source.\<close>

definition sample_net :: net_libs where
  "sample_net = \<lparr> url_Parse = (\<lambda>s. Inr \<lparr> u_host = ''src:9090'', u_rest = ''/a.tgz'' \<rparr>),
     url_String = (\<lambda>u. ''http://'' @ u_host u @ u_rest u), net_ParseIP = (\<lambda>h. False), net_Quote = (\<lambda>s. s),
     NestedString = (\<lambda>obj path. case map_of obj (last path) of Some (JString s) \<Rightarrow> s | _ \<Rightarrow> []) \<rparr>"

definition r2_source :: jobject where
  "r2_source = [(''url'', JString ''http://src:9090/a.tgz''), (''revision'', JString ''r2'')]"

definition sourced_client :: "store client" where
  "sourced_client = store_client\<lparr> cl_get_source := \<lambda>k w. (Inr r2_source, w) \<rparr>"

abbreviation tools :: objkey where "tools \<equiv> ObjKey ''ns'' ''tools''"

definition r2_catalog :: floxcatalog where
  "r2_catalog = resolved_catalog list_meta tools_catalog ''r2'' ''http://src:9090/a.tgz''
     ''tarball+http://10.0.0.1:9090/a.tgz'' (''0/0 ready'', [])"

definition missing_catalog :: floxcatalog where
  "missing_catalog = catalog_ready list_meta tools_catalog ConditionFalse ''SourceNotFound'' ''not found''"

lemma show_zero: "show_nat 0 = ''0''"
  by code_simp

lemmas catalog_run_defs = FloxCatalog_Reconcile_def notReady_def nodeReachableURL_def envsRollup_def propagateRelock_def
  rollup_summary_def show_zero source_key_def flake_ref_of_def Hostname_def Port_def splitHostPort_def
  validOptionalPort_def is_digit_def reach_host_def JoinHostPort_def HasPrefix_def HasSuffix_def
  sample_net_def r2_source_def sourced_client_def r2_catalog_def missing_catalog_def resolved_catalog_def catalog_ready_def

lemma resolved_run:
  "trace_of (FloxCatalog_Reconcile list_meta sample_net sourced_client tools) catalog_store =
    [GetFloxCatalog tools (Inr tools_catalog), GetSource (ObjKey ''ns'' ''src'') (Inr r2_source),
     LookupHost ''src'' (Inr [''10.0.0.1'']), ListFloxEnvs (Some ''ns'') (Inr []),
     PatchFloxCatalogStatus tools_catalog r2_catalog (Inr r2_catalog), ListFloxEnvs (Some ''ns'') (Inr [])]"
  by (simp add: catalog_run_defs go_defs)

lemma missing_run:
  "trace_of (FloxCatalog_Reconcile list_meta sample_net store_client tools) catalog_store =
    [GetFloxCatalog tools (Inr tools_catalog), GetSource (ObjKey ''ns'' ''src'') (Inl not_found),
     PatchFloxCatalogStatus tools_catalog missing_catalog (Inr missing_catalog)]"
  by (simp add: catalog_run_defs go_defs)

theorem ready_catalog_is_its_source_witness:
  "\<exists>obj pre post reach.
    trace_of (FloxCatalog_Reconcile list_meta sample_net sourced_client tools) catalog_store =
      GetFloxCatalog tools (Inr tools_catalog) # GetSource (source_key tools_catalog) (Inr obj) #
      pre @ PatchFloxCatalogStatus tools_catalog r2_catalog (Inr r2_catalog) # post \<and>
    ct_artifact_url (fc_status r2_catalog) = NestedString sample_net obj [''status'', ''artifact'', ''url''] \<and>
    ct_artifact_url (fc_status r2_catalog) \<noteq> [] \<and>
    ct_revision (fc_status r2_catalog) = NestedString sample_net obj [''status'', ''artifact'', ''revision''] \<and>
    reachable_from sample_net (ct_artifact_url (fc_status r2_catalog)) pre reach \<and>
    ct_flake_ref (fc_status r2_catalog) = ''tarball+'' @ reach @
      (if cs_dir (fc_spec tools_catalog) = [] then [] else ''?dir='' @ cs_dir (fc_spec tools_catalog))"
  by (rule ready_catalog_is_its_source [OF meta_laws_list])
    (simp add: resolved_run, simp add: r2_catalog_def resolved_catalog_def catalog_ready_true [OF meta_laws_list])

theorem unresolved_catalog_keeps_reference_witness:
  "missing_catalog\<lparr> fc_status := (fc_status missing_catalog)\<lparr> ct_conditions := ct_conditions (fc_status tools_catalog) \<rparr> \<rparr>
      = tools_catalog \<and>
    (\<exists>e c. outcome_of (FloxCatalog_Reconcile list_meta sample_net store_client tools) catalog_store = (done_result, Some e) \<and>
       FindStatusCondition list_meta (ct_conditions (fc_status missing_catalog)) ''Ready'' = Some c \<and>
       c_status c = ConditionFalse \<and> c_message c = error_string e)"
  by (rule unresolved_catalog_keeps_reference [OF meta_laws_list])
    (simp add: missing_run, simp add: missing_catalog_def catalog_ready_true [OF meta_laws_list])

subsection \<open>The rollup\<close>

definition env_phase :: "meta_api \<Rightarrow> floxenv \<Rightarrow> floxenv_phase" where
  "env_phase M env = \<lparr> ph_name = fe_name env, ph_phase =
     (case FindStatusCondition M (fe_conditions env) ''Ready'' of None \<Rightarrow> [] | Some c \<Rightarrow> c_reason c) \<rparr>"

definition env_ready :: "meta_api \<Rightarrow> floxenv \<Rightarrow> bool" where
  "env_ready M env \<longleftrightarrow> (case FindStatusCondition M (fe_conditions env) ''Ready'' of None \<Rightarrow> False
     | Some c \<Rightarrow> c_status c = ConditionTrue)"

definition env_realizing :: "meta_api \<Rightarrow> floxenv \<Rightarrow> bool" where
  "env_realizing M env \<longleftrightarrow> (case FindStatusCondition M (fe_conditions env) ''Ready'' of None \<Rightarrow> False
     | Some c \<Rightarrow> c_status c \<noteq> ConditionTrue \<and> c_reason c = ''Realizing'')"

lemma rollup_loop_eq:
  "rollup_loop M envs (a, b, plan) =
     (a + length (filter (env_ready M) envs), b + length (filter (env_realizing M) envs), plan @ map (env_phase M) envs)"
  by (induction envs arbitrary: a b plan)
    (simp_all add: env_ready_def env_realizing_def env_phase_def split: option.split)

text \<open>
  The rollup counts right. Of the FloxEnvs listed it reports, in the listing's order, each with
  the reason of its Ready condition (blank before the first), the number Ready, the number of all,
  and the number realizing when there are any; a failed listing reports nothing.
\<close>

theorem rollup_counts:
  "\<exists>r. trace_of (envsRollup M C ns) w = [ListFloxEnvs (Some ns) r] \<and>
    outcome_of (envsRollup M C ns) w =
      (case r of Inl e \<Rightarrow> ([], [])
       | Inr envs \<Rightarrow> (show_nat (length (filter (env_ready M) envs)) @ ''/'' @ show_nat (length envs) @ '' ready'' @
             (if list_ex (env_realizing M) envs
              then '', '' @ show_nat (length (filter (env_realizing M) envs)) @ '' realizing'' else []),
           map (env_phase M) envs))"
proof -
  obtain r where r: "trace_of (envsRollup M C ns) w = [ListFloxEnvs (Some ns) r]"
      "outcome_of (envsRollup M C ns) w = rollup_of M r"
    using emits_run [OF envsRollup_emits [of M C ns], of w] by blast
  have "0 < length (filter (env_realizing M) envs) \<longleftrightarrow> list_ex (env_realizing M) envs" for envs
    by (auto simp: list_ex_iff filter_empty_conv)
  then show ?thesis
    unfolding r(2) by (intro exI [of _ r] conjI r(1))
      (simp add: rollup_of_def rollup_loop_eq rollup_summary_def split: sum.split)
qed

subsection \<open>Watches\<close>

lemma readiness_inject:
  "show_status s @ CHR ''/'' # r = show_status t @ CHR ''/'' # q \<longleftrightarrow> s = t \<and> r = q"
  by (cases s; cases t) simp_all

text \<open>
  The catalog looks again at an env exactly when its readiness changed: an update passes the
  watch predicate if and only if the Ready condition appeared, went away, or changed its status or
  its reason; no message, no per-node entry and no annotation wakes it.
\<close>

theorem readiness_watch_exact:
  "envReadinessChange M (Some before) (Some after) \<longleftrightarrow>
     map_option (\<lambda>c. (c_status c, c_reason c)) (FindStatusCondition M (fe_conditions before) ''Ready'') \<noteq>
     map_option (\<lambda>c. (c_status c, c_reason c)) (FindStatusCondition M (fe_conditions after) ''Ready'')"
proof -
  show ?thesis
    by (auto simp: envReadinessChange_def readiness_def readiness_inject split: option.splits)
qed

text \<open>
  An artifact of a source wakes the catalogs that resolve from it: of the catalogs of the whole
  cluster exactly those whose source reference, with the catalog's own namespace by default, names it.
\<close>

theorem source_watch_exact:
  "\<exists>r. trace_of (catalogsForSource C src) w = [ListFloxCatalogs None r] \<and>
    outcome_of (catalogsForSource C src) w = (case r of Inl e \<Rightarrow> []
      | Inr items \<Rightarrow> map catalog_key (filter (\<lambda>c. ObjKey
           (if sr_namespace (cs_source_ref (fc_spec c)) = [] then om_namespace (fc_meta c)
            else sr_namespace (cs_source_ref (fc_spec c))) (sr_name (cs_source_ref (fc_spec c))) = src) items))"
proof -
  have "emits (catalogsForSource C src) (\<lambda>out evs. \<exists>r. evs = [ListFloxCatalogs None r] \<and>
      out = (case r of Inl e \<Rightarrow> [] | Inr items \<Rightarrow> map catalog_key (filter (\<lambda>c. source_key c = src) items)))"
    unfolding catalogsForSource_def list_catalogs_def by (intro emits_intros) simp
  from emits_run [OF this, of w] obtain r where "trace_of (catalogsForSource C src) w = [ListFloxCatalogs None r]"
      "outcome_of (catalogsForSource C src) w =
        (case r of Inl e \<Rightarrow> [] | Inr items \<Rightarrow> map catalog_key (filter (\<lambda>c. source_key c = src) items))"
    by blast
  then show ?thesis by (intro exI [of _ r] conjI) (simp_all only: source_key_def)
qed

end
