(* ===== verification/Carrier.thy ===== *)
theory Carrier
  imports Kube
begin

text \<open>
  \<open>internal/carrier\<close>: the base carrier FloxEnv the controller provides for itself on startup. YAML
  decoding is a library: \<open>EnsureBase\<close> takes its result on the embedded file, and \<open>base_carrier\<close>
  is the object \<open>base-carrier.yaml\<close> spells (its manifest, raw JSON there, is a parameter).
\<close>

definition managedByLabel :: string where "managedByLabel = ''app.kubernetes.io/managed-by''"
definition managedByValue :: string where "managedByValue = ''flox-controller''"

definition base_carrier :: "string \<Rightarrow> floxenv" where
  "base_carrier manifest =
    \<lparr> fe_meta = \<lparr> om_name = ''carrier'', om_namespace = [], om_generation = 0, om_annotations = [],
        om_labels = [] \<rparr>,
      fe_spec = \<lparr> sp_consumption = ''image'', sp_manifest = Some manifest,
        sp_update = Some \<lparr> up_mode = ''Manual'' \<rparr>, sp_folder = ''flox-system'', sp_depends_on = [],
        sp_inject = [] \<rparr>,
      fe_status = \<lparr> st_lock = [], st_relock_token = [], st_resolved = [], st_realized = [],
        st_conditions = [] \<rparr> \<rparr>"

definition desired_carrier :: "string \<Rightarrow> floxenv \<Rightarrow> floxenv" where
  "desired_carrier ns parsed =
     parsed\<lparr> fe_meta := (fe_meta parsed)\<lparr> om_namespace := ns,
       om_labels := AList.update managedByLabel managedByValue (om_labels (fe_meta parsed)) \<rparr> \<rparr>"

definition EnsureBase :: "'w client \<Rightarrow> go_error + floxenv \<Rightarrow> string \<Rightarrow> ('w st, go_error option) state" where
  "EnsureBase C parsed ns =
     (case parsed of
        Inl e \<Rightarrow> State_Monad.return (Some (WrapErr ''parse embedded base carrier'' e))
      | Inr p \<Rightarrow>
          let desired = desired_carrier ns p
          in do {
            got \<leftarrow> get_env C (ObjKey ns (fe_name desired));
            case got of
              Inl e \<Rightarrow>
                if IsNotFound e
                then do {
                  r \<leftarrow> create_env C desired;
                  State_Monad.return (map_option (WrapErr ''create base carrier'') r)
                }
                else State_Monad.return (Some (WrapErr ''get base carrier'' e))
            | Inr existing \<Rightarrow>
                if map_get (om_labels (fe_meta existing)) managedByLabel \<noteq> managedByValue
                then State_Monad.return None
                else do {
                  r \<leftarrow> update_env C (existing\<lparr> fe_spec := fe_spec desired \<rparr>);
                  State_Monad.return (map_option (WrapErr ''update base carrier'') r)
                }
          })"

subsection \<open>What a start writes\<close>

definition managed :: "floxenv \<Rightarrow> bool" where
  "managed env \<longleftrightarrow> map_get (om_labels (fe_meta env)) managedByLabel = managedByValue"

lemma managed_desired: "managed (desired_carrier ns parsed)"
  by (simp add: managed_def desired_carrier_def)

text \<open>
  C39: The base carrier never clobbers an operator's. Whatever the cluster answers, a start reads the
  carrier of its namespace and then writes at most once: it creates a carrier marked as managed when
  there is none, and updates a marked one, in its spec and nothing else; a carrier without the mark,
  or one that could not be read, is not written.
\<close>

theorem carrier_never_clobbered:
  "\<exists>got writes. trace_of (EnsureBase C (Inr parsed) ns) w = GetFloxEnv (ObjKey ns (fe_name parsed)) got # writes \<and>
    (case got of
       Inl e \<Rightarrow>
         if IsNotFound e
         then \<exists>env r. writes = [CreateFloxEnv env r] \<and> managed env \<and> fe_spec env = fe_spec parsed \<and>
           fe_name env = fe_name parsed \<and> fe_namespace env = ns \<and>
           outcome_of (EnsureBase C (Inr parsed) ns) w = map_option (WrapErr ''create base carrier'') r
         else writes = [] \<and> outcome_of (EnsureBase C (Inr parsed) ns) w = Some (WrapErr ''get base carrier'' e)
     | Inr existing \<Rightarrow>
         if managed existing
         then \<exists>r. writes = [UpdateFloxEnv (existing\<lparr> fe_spec := fe_spec parsed \<rparr>) r] \<and>
           outcome_of (EnsureBase C (Inr parsed) ns) w = map_option (WrapErr ''update base carrier'') r
         else writes = [] \<and> outcome_of (EnsureBase C (Inr parsed) ns) w = None)"
proof -
  have desired: "managed (desired_carrier ns parsed)" "fe_spec (desired_carrier ns parsed) = fe_spec parsed"
      "fe_name (desired_carrier ns parsed) = fe_name parsed" "fe_namespace (desired_carrier ns parsed) = ns"
    using managed_desired by (simp_all add: desired_carrier_def)
  define Q where "Q out evs \<longleftrightarrow> (\<exists>got writes. evs = GetFloxEnv (ObjKey ns (fe_name parsed)) got # writes \<and>
    (case got of
       Inl e \<Rightarrow>
         if IsNotFound e
         then \<exists>env r. writes = [CreateFloxEnv env r] \<and> managed env \<and> fe_spec env = fe_spec parsed \<and>
           fe_name env = fe_name parsed \<and> fe_namespace env = ns \<and> out = map_option (WrapErr ''create base carrier'') r
         else writes = [] \<and> out = Some (WrapErr ''get base carrier'' e)
     | Inr existing \<Rightarrow>
         if managed existing
         then \<exists>r. writes = [UpdateFloxEnv (existing\<lparr> fe_spec := fe_spec parsed \<rparr>) r] \<and>
           out = map_option (WrapErr ''update base carrier'') r
         else writes = [] \<and> out = None))" for out :: "go_error option" and evs
  have "emits (EnsureBase C (Inr parsed) ns) Q"
    unfolding EnsureBase_def sum.case Let_def get_env_def create_env_def update_env_def desired(2,3)
    by (intro emits_intros) (use desired in \<open>auto simp: Q_def managed_def\<close>)
  from emits_run [OF this, of w] show ?thesis unfolding Q_def .
qed

end
