(* ===== verification/HostFS.thy ===== *)
theory HostFS
  imports Kube
begin

text \<open>
  What package \<open>os\<close> and \<open>path/filepath\<close> do for the provisioner: absolute clean paths as lists of
  components, a file system of directories, files and symbolic links, and the calls the code makes
  on it, in a state monad over the node. A path is looked up as it stands: no call here goes through
  a symbolic link in the middle of a path, and reading or writing a file that is itself a link fails, where
  \<open>os\<close> would follow it. Every call may also fail for a reason of its own (disk,
  permissions): the node carries the list of such failures to come, and a call that fails so leaves
  the file system as it was.
\<close>

subsection \<open>Paths\<close>

type_synonym path = "string list"

fun split_slash :: "string \<Rightarrow> string \<Rightarrow> string list" where
  "split_slash acc [] = [acc]"
| "split_slash acc (c # cs) = (if c = CHR ''/'' then acc # split_slash [] cs else split_slash (acc @ [c]) cs)"

text \<open>\<open>filepath.Join\<close> with an absolute clean first element, cleaning as it goes.\<close>

definition clean_step :: "string \<Rightarrow> path \<Rightarrow> path" where
  "clean_step c p = (if c = [] \<or> c = ''.'' then p else if c = ''..'' then butlast p else p @ [c])"

definition path_join :: "path \<Rightarrow> string list \<Rightarrow> path" where
  "path_join base elems = fold clean_step (concat (map (split_slash []) elems)) base"

definition path_string :: "path \<Rightarrow> string" where
  "path_string p = concat (map (\<lambda>c. CHR ''/'' # c) p)"

text \<open>\<open>path + suffix\<close> as strings, on a path that is not the root.\<close>

definition add_suffix :: "path \<Rightarrow> string \<Rightarrow> path" where
  "add_suffix p ext = butlast p @ [last p @ ext]"

definition is_space :: "char \<Rightarrow> bool" where
  "is_space c \<longleftrightarrow> c \<in> {CHR '' '', CHR 0x09, CHR 0x0A, CHR 0x0B, CHR 0x0C, CHR 0x0D}"

definition TrimSpace :: "string \<Rightarrow> string" where
  "TrimSpace s = rev (dropWhile is_space (rev (dropWhile is_space s)))"

subsection \<open>The node\<close>

datatype node = DirNode | FileNode string | LinkNode string

type_synonym fs = "(path \<times> node) list"

text \<open>A command that was run: its argument vector, its environment, and the files it found.\<close>

record ran =
  ran_argv :: "string list"
  ran_env :: "string list"
  ran_fs :: fs

record 'w host =
  h_fs :: fs
  h_faults :: "go_error option list"
  h_outside :: 'w
  h_ran :: "ran list"

definition faulty :: "('w host \<Rightarrow> (go_error + 'a) \<times> fs) \<Rightarrow> ('w host, go_error + 'a) state" where
  "faulty f = State (\<lambda>s. case h_faults s of
       Some e # fl \<Rightarrow> (Inl e, s\<lparr> h_faults := fl \<rparr>)
     | None # fl \<Rightarrow> (case f s of (r, files) \<Rightarrow> (r, s\<lparr> h_fs := files, h_faults := fl \<rparr>))
     | [] \<Rightarrow> (case f s of (r, files) \<Rightarrow> (r, s\<lparr> h_fs := files \<rparr>)))"

definition is_dir :: "fs \<Rightarrow> path \<Rightarrow> bool" where
  "is_dir files p \<longleftrightarrow> p = [] \<or> map_of files p = Some DirNode"

definition parents :: "path \<Rightarrow> path list" where
  "parents p = map (\<lambda>i. take (Suc i) p) [0..<length p]"

definition os_error :: "string \<Rightarrow> go_error" where "os_error m = OtherErr m"

definition MkdirAll :: "path \<Rightarrow> ('w host, go_error + unit) state" where
  "MkdirAll p = faulty (\<lambda>s.
     if list_all (\<lambda>q. map_of (h_fs s) q \<in> {None, Some DirNode}) (parents p)
     then (Inr (), fold (\<lambda>q files. AList.update q DirNode files) (parents p) (h_fs s))
     else (Inl (os_error ''not a directory''), h_fs s))"

definition WriteFile :: "path \<Rightarrow> string \<Rightarrow> ('w host, go_error + unit) state" where
  "WriteFile p content = faulty (\<lambda>s.
     if \<not> is_dir (h_fs s) (butlast p) then (Inl (NotFoundErr ''no such file or directory''), h_fs s)
     else (case map_of (h_fs s) p of
         Some DirNode \<Rightarrow> (Inl (os_error ''is a directory''), h_fs s)
       | Some (LinkNode t) \<Rightarrow> (Inl (os_error ''is a symbolic link''), h_fs s)
       | _ \<Rightarrow> (Inr (), AList.update p (FileNode content) (h_fs s))))"

definition ReadFile :: "path \<Rightarrow> ('w host, go_error + string) state" where
  "ReadFile p = faulty (\<lambda>s. (case map_of (h_fs s) p of
       Some (FileNode c) \<Rightarrow> Inr c
     | _ \<Rightarrow> Inl (NotFoundErr ''no such file or directory''), h_fs s))"

definition below :: "path \<Rightarrow> path \<Rightarrow> bool" where
  "below p q \<longleftrightarrow> take (length p) q = p"

definition RemoveAll :: "path \<Rightarrow> ('w host, go_error + unit) state" where
  "RemoveAll p = faulty (\<lambda>s. (Inr (), filter (\<lambda>(q, n). \<not> below p q) (h_fs s)))"

definition Remove :: "path \<Rightarrow> ('w host, go_error + unit) state" where
  "Remove p = faulty (\<lambda>s.
     if map_of (h_fs s) p = None then (Inl (NotFoundErr ''no such file or directory''), h_fs s)
     else if list_ex (\<lambda>(q, n). below p q \<and> q \<noteq> p) (h_fs s) then (Inl (os_error ''directory not empty''), h_fs s)
     else (Inr (), AList.delete p (h_fs s)))"

definition Symlink :: "string \<Rightarrow> path \<Rightarrow> ('w host, go_error + unit) state" where
  "Symlink target p = faulty (\<lambda>s.
     if \<not> is_dir (h_fs s) (butlast p) then (Inl (NotFoundErr ''no such file or directory''), h_fs s)
     else if map_of (h_fs s) p \<noteq> None then (Inl (AlreadyExistsErr ''file exists''), h_fs s)
     else (Inr (), AList.update p (LinkNode target) (h_fs s)))"

text \<open>A rename of what is no directory, over what is no directory either.\<close>

definition Rename :: "path \<Rightarrow> path \<Rightarrow> ('w host, go_error + unit) state" where
  "Rename p q = faulty (\<lambda>s. (case map_of (h_fs s) p of
       None \<Rightarrow> (Inl (NotFoundErr ''no such file or directory''), h_fs s)
     | Some n \<Rightarrow>
         if n = DirNode \<or> map_of (h_fs s) q = Some DirNode then (Inl (os_error ''file exists''), h_fs s)
         else (Inr (), AList.update q n (AList.delete p (h_fs s)))))"

definition Readlink :: "path \<Rightarrow> ('w host, go_error + string) state" where
  "Readlink p = faulty (\<lambda>s. (case map_of (h_fs s) p of
       Some (LinkNode t) \<Rightarrow> Inr t
     | _ \<Rightarrow> Inl (os_error ''invalid argument''), h_fs s))"

text \<open>The names in a directory, sorted.\<close>

definition entries_of :: "fs \<Rightarrow> path \<Rightarrow> string list" where
  "entries_of files p = sort (remdups (List.map_filter (\<lambda>(q, n).
     if q \<noteq> [] \<and> butlast q = p then Some (last q) else None) files))"

definition ReadDir :: "path \<Rightarrow> ('w host, go_error + string list) state" where
  "ReadDir p = faulty (\<lambda>s.
     (if is_dir (h_fs s) p then Inr (entries_of (h_fs s) p)
      else Inl (NotFoundErr ''no such file or directory''), h_fs s))"

subsection \<open>Commands and errors\<close>

text \<open>What the node's tools do is a parameter: any answer, any change to the files and the rest.\<close>

record 'w host_tools =
  ht_run :: "string list \<Rightarrow> string list \<Rightarrow> fs \<times> 'w \<Rightarrow> (go_error + string) \<times> (fs \<times> 'w)"
  ht_environ :: "string list"
  ht_quote :: "string \<Rightarrow> string"

definition run_command :: "'w host_tools \<Rightarrow> string list \<Rightarrow> string list \<Rightarrow> ('w host, go_error + string) state" where
  "run_command T argv env = State (\<lambda>s. case ht_run T argv env (h_fs s, h_outside s) of
     (r, (files, w)) \<Rightarrow> (r, s\<lparr> h_fs := files, h_outside := w,
        h_ran := h_ran s @ [\<lparr> ran_argv = argv, ran_env = env, ran_fs = h_fs s \<rparr>] \<rparr>))"

text \<open>\<open>if err != nil { return wrap(err) }\<close>, then go on with the result.\<close>

definition attempt ::
  "('s, go_error + 'a) state \<Rightarrow> (go_error \<Rightarrow> go_error) \<Rightarrow> ('a \<Rightarrow> ('s, go_error + 'b) state) \<Rightarrow> ('s, go_error + 'b) state" where
  "attempt m wrap k = do { r \<leftarrow> m; case r of Inl e \<Rightarrow> State_Monad.return (Inl (wrap e)) | Inr x \<Rightarrow> k x }"

end
