(* ===== verification/ExecProvisioner.thy ===== *)
theory ExecProvisioner
  imports HostFS
begin

text \<open>
  \<open>internal/provisioner/exec.go\<close>: the provisioner that materialises an env on the node and drives
  the node's flox, nix and containerd. Paths of the record are absolute, as the flags of
  \<open>cmd/flox-controller/main.go\<close> have them.
\<close>

record exec_provisioner =
  xp_env_root :: path
  xp_gcroot_base :: path
  xp_ctr_bin :: string
  xp_containerd_address :: string
  xp_nsenter :: string
  xp_systemd_run :: string

subsection \<open>Command lines and paths\<close>

definition command :: "exec_provisioner \<Rightarrow> string \<Rightarrow> string list \<Rightarrow> string list" where
  "command X name args =
     (if xp_nsenter X \<noteq> []
      then xp_nsenter X # [''--target'', ''1'', ''--mount'', ''--pid'', ''--net'', ''--'', name] @ args
      else name # args)"

definition hostScopedCommand :: "exec_provisioner \<Rightarrow> string \<Rightarrow> string list \<Rightarrow> string list" where
  "hostScopedCommand X name args =
     (if xp_nsenter X = [] \<or> xp_systemd_run X = [] then command X name args
      else xp_nsenter X # [''--target'', ''1'', ''--mount'', ''--pid'', ''--net'', ''--'',
        xp_systemd_run X, ''--scope'', ''--quiet'', ''--collect'', ''--'', name] @ args)"

definition envDir :: "exec_provisioner \<Rightarrow> env_ref \<Rightarrow> path" where
  "envDir X ref = path_join (xp_env_root X) [ref_folder ref, ref_name ref]"

definition gcrootPath :: "exec_provisioner \<Rightarrow> env_ref \<Rightarrow> path" where
  "gcrootPath X ref = path_join (xp_gcroot_base X) [ref_folder ref, ref_name ref]"

definition activationGcrootPath :: "exec_provisioner \<Rightarrow> env_ref \<Rightarrow> path" where
  "activationGcrootPath X ref =
     path_join (butlast (xp_gcroot_base X)) [''activation'', ref_folder ref, ref_name ref]"

subsection \<open>The environment of a command\<close>

definition Getenv :: "string list \<Rightarrow> string \<Rightarrow> string" where
  "Getenv environ key = (case List.find (\<lambda>e. HasPrefix e (key @ ''='')) environ of
     None \<Rightarrow> [] | Some e \<Rightarrow> TrimPrefix e (key @ ''=''))"

definition readGithubToken :: "'w host_tools \<Rightarrow> ('w host, string) state" where
  "readGithubToken T = (
     let file = Getenv (ht_environ T) ''GITHUB_ACCESS_TOKEN_FILE''
     in if file = [] then State_Monad.return []
        else do {
          r \<leftarrow> ReadFile (path_join [] [file]);
          State_Monad.return (case r of Inl e \<Rightarrow> [] | Inr b \<Rightarrow> TrimSpace b)
        })"

definition with_token :: "string list \<Rightarrow> string \<Rightarrow> string \<Rightarrow> string list" where
  "with_token env nixConfig token =
     filter (\<lambda>e. \<not> HasPrefix e ''NIX_CONFIG='') env @
     [''NIX_CONFIG='' @ (if nixConfig \<noteq> [] then nixConfig @ [CHR 0x0A] else nixConfig) @
        ''access-tokens = github.com='' @ token]"

definition floxCommandEnv :: "'w host_tools \<Rightarrow> ('w host, string list) state" where
  "floxCommandEnv T = do {
     token \<leftarrow> readGithubToken T;
     let env = ht_environ T @ Environ;
     State_Monad.return (if token = [] then env else with_token env (Getenv (ht_environ T) ''NIX_CONFIG'') token)
   }"

subsection \<open>Building\<close>

text \<open>The loop over the run links: the answer, or the last store path seen.\<close>

fun select_run :: "path \<Rightarrow> string \<Rightarrow> string list \<Rightarrow> string \<Rightarrow> ('w host, string + string) state" where
  "select_run runDir mode [] fallback = State_Monad.return (Inr fallback)"
| "select_run runDir mode (e # es) fallback =
     (if HasPrefix e ''.'' then select_run runDir mode es fallback
      else do {
        r \<leftarrow> Readlink (path_join runDir [e]);
        case r of
          Inl err \<Rightarrow> select_run runDir mode es fallback
        | Inr target \<Rightarrow>
            if \<not> HasPrefix target ''/nix/store/'' then select_run runDir mode es fallback
            else if HasSuffix e (''-'' @ mode) then State_Monad.return (Inl target)
            else select_run runDir mode es target
      })"

definition buildEnv :: "'w host_tools \<Rightarrow> exec_provisioner \<Rightarrow> path \<Rightarrow> string \<Rightarrow> ('w host, go_error + string) state" where
  "buildEnv T X dir mode = do {
     env \<leftarrow> floxCommandEnv T;
     attempt (run_command T (hostScopedCommand X ''flox''
         [''--verbose'', ''activate'', ''--mode'', mode, ''-d'', path_string dir, ''--'', ''true'']) env)
       (WrapErr (''flox activate (--mode '' @ mode @ '') '' @ path_string dir))
       (\<lambda>_. let runDir = path_join dir [''.flox'', ''run''] in
         attempt (ReadDir runDir) (WrapErr (''read '' @ path_string runDir))
           (\<lambda>entries. do {
              x \<leftarrow> select_run runDir mode entries [];
              State_Monad.return (case x of
                Inl target \<Rightarrow> Inr target
              | Inr fallback \<Rightarrow> if fallback \<noteq> [] then Inr fallback
                  else Inl (OtherErr (''no /nix/store env path under '' @ path_string runDir)))
            }))
   }"

definition copy_files :: "path \<Rightarrow> path \<Rightarrow> ('w host, go_error + unit) state" where
  "copy_files floxEnv stagingEnv =
     attempt (ReadFile (path_join floxEnv [''manifest.toml''])) (WrapErr ''read manifest.toml for subtree'') (\<lambda>b.
     attempt (WriteFile (path_join stagingEnv [''manifest.toml'']) b) (WrapErr ''write subtree manifest.toml'') (\<lambda>_.
     attempt (ReadFile (path_join floxEnv [''manifest.lock''])) (WrapErr ''read manifest.lock for subtree'') (\<lambda>b.
     attempt (WriteFile (path_join stagingEnv [''manifest.lock'']) b) (WrapErr ''write subtree manifest.lock'') (\<lambda>_.
     State_Monad.return (Inr ())))))"

definition subtree_name :: "env_ref \<Rightarrow> string" where
  "subtree_name ref = ''flox-env-'' @ ref_folder ref @ ''-'' @ ref_name ref @ ''-subtree''"

definition addEnvSubtree ::
  "'w host_tools \<Rightarrow> exec_provisioner \<Rightarrow> env_ref \<Rightarrow> path \<Rightarrow> ('w host, go_error + string) state" where
  "addEnvSubtree T X ref floxEnv = (
     let staging = path_join (envDir X ref) [subtree_name ref];
         stagingEnv = path_join staging [''env'']
     in attempt (RemoveAll staging) (WrapErr (''clean subtree staging '' @ path_string staging)) (\<lambda>_. do {
          r \<leftarrow> attempt (MkdirAll stagingEnv) (WrapErr (''mkdir subtree staging '' @ path_string stagingEnv)) (\<lambda>_.
              attempt (copy_files floxEnv stagingEnv) (\<lambda>e. e) (\<lambda>_. do {
                env \<leftarrow> floxCommandEnv T;
                attempt (run_command T (command X ''nix-store'' [''--add'', path_string staging]) env)
                  (WrapErr (''nix-store --add '' @ path_string staging))
                  (\<lambda>out. State_Monad.return (Inr (TrimSpace out)))
              }));
          _ \<leftarrow> RemoveAll staging;
          State_Monad.return r
        }))"

definition writeGcroot :: "path \<Rightarrow> string \<Rightarrow> ('w host, go_error + unit) state" where
  "writeGcroot gc storePath =
     attempt (MkdirAll (butlast gc)) (WrapErr ''mkdir gcroot dir'') (\<lambda>_. do {
       _ \<leftarrow> Remove (add_suffix gc ''.tmp'');
       attempt (Symlink storePath (add_suffix gc ''.tmp'')) (WrapErr ''symlink gcroot'') (\<lambda>_.
         attempt (Rename (add_suffix gc ''.tmp'') gc) (WrapErr ''rename gcroot'') (\<lambda>_.
           State_Monad.return (Inr ())))
     })"

definition containerizeAndImport ::
  "'w host_tools \<Rightarrow> exec_provisioner \<Rightarrow> path \<Rightarrow> ('w host, go_error + unit) state" where
  "containerizeAndImport T X dir = (
     let tar = path_string (path_join dir [''.flox'', ''containerize.tar''])
     in do {
       env \<leftarrow> floxCommandEnv T;
       attempt (run_command T (hostScopedCommand X ''flox'' [''containerize'', ''-d'', path_string dir, ''-f'', tar]) env)
         (WrapErr (''flox containerize '' @ path_string dir))
         (\<lambda>_. attempt (run_command T (command X (if xp_ctr_bin X = [] then ''ctr'' else xp_ctr_bin X)
              ((if xp_containerd_address X \<noteq> [] then [''--address'', xp_containerd_address X] else []) @
               [''-n'', ''k8s.io'', ''images'', ''import'', tar])) (ht_environ T))
            (WrapErr ''ctr images import'')
            (\<lambda>_. State_Monad.return (Inr ())))
     })"

subsection \<open>Realize\<close>

text \<open>The \<open>.flox\<close> of the env, written by hand; a lock is written only when one was asked for.\<close>

definition env_json :: "'w host_tools \<Rightarrow> string \<Rightarrow> string" where
  "env_json T name = ''{'' @ [CHR 0x22] @ ''name'' @ [CHR 0x22] @ '': '' @ ht_quote T name @ '', '' @
     [CHR 0x22] @ ''version'' @ [CHR 0x22] @ '': 1}'' @ [CHR 0x0A]"

definition materialise :: "'w host_tools \<Rightarrow> path \<Rightarrow> realize_request \<Rightarrow> ('w host, go_error + unit) state" where
  "materialise T dir req = (
     let floxDir = path_join dir [''.flox'']; floxEnv = path_join floxDir [''env'']
     in attempt (MkdirAll floxEnv) (WrapErr (''mkdir '' @ path_string floxEnv)) (\<lambda>_.
        attempt (WriteFile (path_join floxEnv [''manifest.toml'']) (rr_manifest_toml req)) (WrapErr ''write manifest.toml'') (\<lambda>_.
        attempt (WriteFile (path_join floxDir [''env.json'']) (env_json T (ref_name (rr_ref req)))) (WrapErr ''write env.json'') (\<lambda>_.
        attempt (if rr_lock req \<noteq> [] then WriteFile (path_join floxEnv [''manifest.lock'']) (rr_lock req)
          else State_Monad.return (Inr ())) (WrapErr ''write manifest.lock'') (\<lambda>_.
        State_Monad.return (Inr ()))))))"

definition Exec_Realize ::
  "'w host_tools \<Rightarrow> exec_provisioner \<Rightarrow> realize_request \<Rightarrow> ('w host, go_error + realize_result) state" where
  "Exec_Realize T X req = (
     let dir = envDir X (rr_ref req); floxEnv = path_join dir [''.flox'', ''env'']
     in attempt (materialise T dir req) (\<lambda>e. e) (\<lambda>_.
        attempt (buildEnv T X dir ''dev'') (\<lambda>e. e) (\<lambda>activation.
        attempt (addEnvSubtree T X (rr_ref req) floxEnv) (\<lambda>e. e) (\<lambda>subtree.
        attempt (writeGcroot (gcrootPath X (rr_ref req)) subtree) (\<lambda>e. e) (\<lambda>_.
        attempt (writeGcroot (activationGcrootPath X (rr_ref req)) activation) (\<lambda>e. e) (\<lambda>_.
        attempt (if rr_consumption req = ''image'' then containerizeAndImport T X dir
          else State_Monad.return (Inr ())) (\<lambda>e. e) (\<lambda>_. do {
          lock \<leftarrow> ReadFile (path_join floxEnv [''manifest.lock'']);
          State_Monad.return (Inr
            \<lparr> rs_store_path = subtree, rs_env_path = path_string dir,
              rs_gcroot_path = path_string (gcrootPath X (rr_ref req)),
              rs_lock = (case lock of Inl e \<Rightarrow> [] | Inr l \<Rightarrow> l) \<rparr>)
        })))))))"

definition Prune :: "env_ref list \<Rightarrow> ('w host, go_error option) state" where
  "Prune keep = State_Monad.return None"

end
