(* ===== verification/NodeRuns.thy ===== *)
theory NodeRuns
  imports ExecProvisioner
begin

text \<open>
  How the provisioner's runs are reasoned about: rules that walk a program over the node
  (\<open>ends\<close>), what each file-system call and each part of a realise leaves behind, the paths of an
  env, and the relations every run keeps (the locale \<open>node_relation\<close>). Nothing is assumed of the
  tools that are run.
\<close>

subsection \<open>Running on the node\<close>

text \<open>\<open>ends m s Q\<close>: run from the node state \<open>s\<close>, \<open>m\<close> ends with a result and a node state in \<open>Q\<close>.\<close>

definition ends :: "('s, 'a) state \<Rightarrow> 's \<Rightarrow> ('a \<Rightarrow> 's \<Rightarrow> bool) \<Rightarrow> bool" where
  "ends m s Q \<longleftrightarrow> Q (fst (run_state m s)) (snd (run_state m s))"

named_theorems ends_intros "rules that walk a program over the node"

lemma ends_return [ends_intros]: "Q x s \<Longrightarrow> ends (State_Monad.return x) s Q"
  by (simp add: ends_def)

lemma ends_bind: "ends m s P \<Longrightarrow> (\<And>x t. P x t \<Longrightarrow> ends (f x) t Q) \<Longrightarrow> ends (State_Monad.bind m f) s Q"
  by (simp add: ends_def split_beta)

lemma ends_mono: "ends m s P \<Longrightarrow> (\<And>x t. P x t \<Longrightarrow> Q x t) \<Longrightarrow> ends m s Q"
  by (simp add: ends_def)

lemma ends_attempt:
  "ends m s P \<Longrightarrow> (\<And>e t. P (Inl e) t \<Longrightarrow> Q (Inl (wrap e)) t) \<Longrightarrow> (\<And>x t. P (Inr x) t \<Longrightarrow> ends (k x) t Q) \<Longrightarrow>
    ends (attempt m wrap k) s Q"
  unfolding attempt_def by (erule ends_bind) (auto simp: ends_def split: sum.split)

lemma ends_faulty:
  assumes "\<And>e fl. Q (Inl e) (s\<lparr> h_faults := fl \<rparr>)"
    and "\<And>fl. Q (fst (f s)) (s\<lparr> h_fs := snd (f s), h_faults := fl \<rparr>)"
  shows "ends (faulty f) s Q"
proof -
  have "Q (fst (f s)) (s\<lparr> h_fs := snd (f s) \<rparr>)"
    using assms(2) [of "h_faults s"] by simp
  then show ?thesis
    using assms unfolding ends_def faulty_def by (auto split: list.split option.split prod.split)
qed

text \<open>A call that changes no file.\<close>

definition same_files :: "'w host \<Rightarrow> 'w host \<Rightarrow> bool" where
  "same_files s t \<longleftrightarrow> h_fs t = h_fs s \<and> h_ran t = h_ran s"

lemma same_files_refl [simp]: "same_files s s" "same_files s (s\<lparr> h_faults := fl \<rparr>)"
  by (simp_all add: same_files_def)

lemma same_files_trans: "same_files s t \<Longrightarrow> same_files t u \<Longrightarrow> same_files s u"
  by (simp add: same_files_def)

lemma ReadFile_ends:
  "ends (ReadFile p) s (\<lambda>r t. same_files s t \<and> (\<forall>c. r = Inr c \<longrightarrow> map_of (h_fs s) p = Some (FileNode c)))"
  unfolding ReadFile_def by (rule ends_faulty) (auto simp: same_files_def split: option.split node.split)

lemma floxCommandEnv_ends: "ends (floxCommandEnv T) s (\<lambda>env t. same_files s t)"
proof -
  have "ends (readGithubToken T) s (\<lambda>token t. same_files s t)"
    unfolding readGithubToken_def Let_def
    by (cases "Getenv (ht_environ T) ''GITHUB_ACCESS_TOKEN_FILE'' = []")
      (auto intro: ends_return ends_bind [OF ReadFile_ends])
  then show ?thesis
    unfolding floxCommandEnv_def Let_def by (rule ends_bind) (auto intro: ends_return)
qed

subsection \<open>GC-roots\<close>

lemma parents_length: "q \<in> set (parents p) \<Longrightarrow> length q \<le> length p"
  by (auto simp: parents_def)

lemma not_in_parents: "gc \<noteq> [] \<Longrightarrow> gc \<notin> set (parents (butlast gc))"
  using parents_length [of gc "butlast gc"] by (cases gc) auto

lemma map_of_mkdirs:
  "map_of (fold (\<lambda>q files. AList.update q DirNode files) ps files) p = (if p \<in> set ps then Some DirNode else map_of files p)"
  by (induction ps arbitrary: files) (auto simp: AList.update_conv')

lemma MkdirAll_ends:
  "ends (MkdirAll p) s (\<lambda>r t. h_ran t = h_ran s \<and>
     (\<forall>q. map_of (h_fs t) q = map_of (h_fs s) q \<or> q \<in> set (parents p) \<and> map_of (h_fs s) q = None \<and> map_of (h_fs t) q = Some DirNode) \<and>
     (\<forall>x. r = Inr x \<longrightarrow> (\<forall>q \<in> set (parents p). map_of (h_fs t) q = Some DirNode)))"
  unfolding MkdirAll_def by (rule ends_faulty) (auto simp: map_of_mkdirs list_all_iff)

lemma tmp_neq: "add_suffix gc ''.tmp'' \<noteq> gc"
  by (cases gc rule: rev_cases) (auto simp: add_suffix_def)

lemma tmp_butlast: "gc \<noteq> [] \<Longrightarrow> butlast (add_suffix gc ''.tmp'') = butlast gc"
  by (simp add: add_suffix_def)

text \<open>The state after each step of a swap, as far as other files go.\<close>

definition spares :: "path set \<Rightarrow> fs \<Rightarrow> fs \<Rightarrow> bool" where
  "spares ps files files' \<longleftrightarrow> (\<forall>q. q \<notin> ps \<and> map_of files q \<noteq> None \<longrightarrow> map_of files' q = map_of files q)"

lemma spares_trans: "spares ps a b \<Longrightarrow> spares ps b c \<Longrightarrow> spares ps a c"
  unfolding spares_def by metis

definition swapped :: "path \<Rightarrow> string \<Rightarrow> fs \<Rightarrow> go_error + unit \<Rightarrow> fs \<Rightarrow> bool" where
  "swapped gc target files r files' \<longleftrightarrow>
     map_of files' gc = (case r of Inl e \<Rightarrow> map_of files gc | Inr x \<Rightarrow> Some (LinkNode target)) \<and>
     spares {gc, add_suffix gc ''.tmp''} files files'"

lemma Remove_ends:
  "ends (Remove p) s (\<lambda>r t. h_ran t = h_ran s \<and> (\<forall>q. q \<noteq> p \<longrightarrow> map_of (h_fs t) q = map_of (h_fs s) q))"
  unfolding Remove_def by (rule ends_faulty) (auto simp: delete_conv')

lemma Symlink_ends:
  "ends (Symlink target p) s (\<lambda>r t. h_ran t = h_ran s \<and> (\<forall>q. q \<noteq> p \<longrightarrow> map_of (h_fs t) q = map_of (h_fs s) q) \<and>
     (\<forall>x. r = Inr x \<longrightarrow> map_of (h_fs t) p = Some (LinkNode target)))"
  unfolding Symlink_def by (rule ends_faulty) (auto simp: AList.update_conv')

lemma Rename_ends:
  "p \<noteq> q \<Longrightarrow> ends (Rename p q) s (\<lambda>r t. h_ran t = h_ran s \<and>
     (\<forall>x. x \<noteq> p \<and> x \<noteq> q \<longrightarrow> map_of (h_fs t) x = map_of (h_fs s) x) \<and>
     (case r of Inl e \<Rightarrow> map_of (h_fs t) q = map_of (h_fs s) q | Inr x \<Rightarrow> map_of (h_fs t) q = map_of (h_fs s) p))"
  unfolding Rename_def by (rule ends_faulty) (auto simp: AList.update_conv' delete_conv' split: option.split)

lemma writeGcroot_ends:
  fixes s :: "'w host"
  assumes "gc \<noteq> []"
  shows "ends (writeGcroot gc target) s (\<lambda>r t. h_ran t = h_ran s \<and> swapped gc target (h_fs s) r (h_fs t))"
proof -
  let ?tmp = "add_suffix gc ''.tmp''"
  have mk: "swapped gc target (h_fs s) (Inl e) (h_fs t)"
    if "\<forall>q. map_of (h_fs t) q = map_of (h_fs s) q \<or> q \<in> set (parents (butlast gc)) \<and> map_of (h_fs s) q = None \<and> map_of (h_fs t) q = Some DirNode"
    for t :: "'w host" and e
    using that not_in_parents [OF assms] unfolding swapped_def spares_def by (metis sum.case(1))
  have step: "swapped gc target (h_fs s) (Inl e') (h_fs u)"
    if "swapped gc target (h_fs s) (Inl e) (h_fs t)" "\<forall>q. q \<noteq> ?tmp \<longrightarrow> map_of (h_fs u) q = map_of (h_fs t) q"
    for t u :: "'w host" and e e'
    using that tmp_neq [of gc] by (auto simp: swapped_def spares_def)
  show ?thesis
    unfolding writeGcroot_def
  proof (rule ends_attempt [OF MkdirAll_ends])
    fix x :: unit and t :: "'w host"
    assume t: "h_ran t = h_ran s \<and> (\<forall>q. map_of (h_fs t) q = map_of (h_fs s) q \<or> q \<in> set (parents (butlast gc)) \<and>
        map_of (h_fs s) q = None \<and> map_of (h_fs t) q = Some DirNode) \<and>
      (\<forall>x'. Inr x = Inr x' \<longrightarrow> (\<forall>q \<in> set (parents (butlast gc)). map_of (h_fs t) q = Some DirNode))"
    show "ends (State_Monad.bind (Remove ?tmp) (\<lambda>_. attempt (Symlink target ?tmp) (WrapErr ''symlink gcroot'') (\<lambda>_.
         attempt (Rename ?tmp gc) (WrapErr ''rename gcroot'') (\<lambda>_. State_Monad.return (Inr ()))))) t
       (\<lambda>r u. h_ran u = h_ran s \<and> swapped gc target (h_fs s) r (h_fs u))"
    proof (rule ends_bind [OF Remove_ends], rule ends_attempt [OF Symlink_ends])
      fix y and u v :: "'w host"
      assume "h_ran u = h_ran t \<and> (\<forall>q. q \<noteq> ?tmp \<longrightarrow> map_of (h_fs u) q = map_of (h_fs t) q)"
        "h_ran v = h_ran u \<and> (\<forall>q. q \<noteq> ?tmp \<longrightarrow> map_of (h_fs v) q = map_of (h_fs u) q) \<and>
          (\<forall>x. Inr y = Inr x \<longrightarrow> map_of (h_fs v) ?tmp = Some (LinkNode target))"
      then have v: "h_ran v = h_ran s" "swapped gc target (h_fs s) (Inl undefined) (h_fs v)"
          "map_of (h_fs v) ?tmp = Some (LinkNode target)"
        using t by (auto intro: step [OF mk])
      show "ends (attempt (Rename ?tmp gc) (WrapErr ''rename gcroot'') (\<lambda>_. State_Monad.return (Inr ()))) v
         (\<lambda>r u. h_ran u = h_ran s \<and> swapped gc target (h_fs s) r (h_fs u))"
        by (rule ends_attempt [OF Rename_ends [OF tmp_neq]])
          (use v in \<open>auto intro!: ends_return simp: swapped_def spares_def\<close>)
    qed (use t in \<open>auto intro: step [OF mk]\<close>)
  qed (use mk in auto)
qed

subsection \<open>Paths\<close>

text \<open>The components a string adds to a path; a string that never climbs; a name as the API has them.\<close>

definition comps :: "string \<Rightarrow> path" where
  "comps str = filter (\<lambda>c. c \<noteq> [] \<and> c \<noteq> ''.'') (split_slash [] str)"

definition plain :: "string \<Rightarrow> bool" where
  "plain str \<longleftrightarrow> ''..'' \<notin> set (split_slash [] str)"

definition plain_name :: "string \<Rightarrow> bool" where
  "plain_name n \<longleftrightarrow> n \<noteq> [] \<and> n \<noteq> ''.'' \<and> n \<noteq> ''..'' \<and> CHR ''/'' \<notin> set n"

definition plain_ref :: "env_ref \<Rightarrow> bool" where
  "plain_ref ref \<longleftrightarrow> plain (ref_folder ref) \<and> plain_name (ref_name ref)"

lemma split_slash_name: "CHR ''/'' \<notin> set n \<Longrightarrow> split_slash acc n = [acc @ n]"
  by (induction n arbitrary: acc) auto

lemma name_comps: "plain_name n \<Longrightarrow> comps n = [n] \<and> plain n"
  by (auto simp: plain_name_def comps_def plain_def split_slash_name)

lemma fold_clean_plain:
  "''..'' \<notin> set cs \<Longrightarrow> fold clean_step cs base = base @ filter (\<lambda>c. c \<noteq> [] \<and> c \<noteq> ''.'') cs"
  by (induction cs arbitrary: base) (auto simp: clean_step_def)

lemma path_join_plain: "list_all plain elems \<Longrightarrow> path_join base elems = base @ concat (map comps elems)"
proof -
  assume "list_all plain elems"
  then have "''..'' \<notin> set (concat (map (split_slash []) elems))" by (auto simp: plain_def list_all_iff)
  from fold_clean_plain [OF this] have "path_join base elems = base @ filter (\<lambda>c. c \<noteq> [] \<and> c \<noteq> ''.'') (concat (map (split_slash []) elems))"
    by (simp add: path_join_def)
  also have "filter (\<lambda>c. c \<noteq> [] \<and> c \<noteq> ''.'') (concat (map (split_slash []) elems)) = concat (map comps elems)"
    by (induction elems) (simp_all add: comps_def)
  finally show ?thesis .
qed

lemma join_names: "list_all plain_name ns \<Longrightarrow> path_join base ns = base @ ns"
proof -
  assume ns: "list_all plain_name ns"
  then have "concat (map comps ns) = ns" by (induction ns) (simp_all add: name_comps)
  moreover have "list_all plain ns" using ns by (auto simp: list_all_iff name_comps)
  ultimately show ?thesis by (simp add: path_join_plain)
qed

lemma ref_paths:
  assumes "plain_ref ref"
  shows "envDir X ref = xp_env_root X @ comps (ref_folder ref) @ [ref_name ref]"
    and "gcrootPath X ref = xp_gcroot_base X @ comps (ref_folder ref) @ [ref_name ref]"
    and "activationGcrootPath X ref = butlast (xp_gcroot_base X) @ ''activation'' # comps (ref_folder ref) @ [ref_name ref]"
proof -
  have "plain ''activation''" "comps ''activation'' = [''activation'']" by (simp_all add: plain_def comps_def)
  then show "envDir X ref = xp_env_root X @ comps (ref_folder ref) @ [ref_name ref]"
    "gcrootPath X ref = xp_gcroot_base X @ comps (ref_folder ref) @ [ref_name ref]"
    "activationGcrootPath X ref = butlast (xp_gcroot_base X) @ ''activation'' # comps (ref_folder ref) @ [ref_name ref]"
    using assms name_comps [of "ref_name ref"]
    by (simp_all add: envDir_def gcrootPath_def activationGcrootPath_def plain_ref_def path_join_plain)
qed

lemma roots_apart:
  assumes "plain_ref ref" "xp_gcroot_base X \<noteq> []" "last (xp_gcroot_base X) \<noteq> ''activation''"
  shows "gcrootPath X ref \<noteq> activationGcrootPath X ref"
    and "gcrootPath X ref \<noteq> add_suffix (activationGcrootPath X ref) ''.tmp''"
proof -
  obtain base l where base: "xp_gcroot_base X = base @ [l]" "l \<noteq> ''activation''"
    using assms(2,3) by (metis append_butlast_last_id)
  show "gcrootPath X ref \<noteq> activationGcrootPath X ref"
    using base by (simp add: ref_paths [OF assms(1)])
  show "gcrootPath X ref \<noteq> add_suffix (activationGcrootPath X ref) ''.tmp''"
    using base by (simp add: ref_paths [OF assms(1)] add_suffix_def butlast_append)
qed

subsection \<open>A whole realise\<close>

definition store_path :: "string \<Rightarrow> bool" where
  "store_path target \<longleftrightarrow> HasPrefix target ''/nix/store/''"

lemma Readlink_ends: "ends (Readlink p) s (\<lambda>r t. same_files s t)"
  unfolding Readlink_def by (rule ends_faulty) (auto simp: same_files_def)

lemma select_run_ends:
  "fallback = [] \<or> store_path fallback \<Longrightarrow> ends (select_run runDir mode es fallback) s (\<lambda>x t.
     same_files s t \<and> (case x of Inl target \<Rightarrow> store_path target | Inr f \<Rightarrow> f = [] \<or> store_path f))"
proof (induction es arbitrary: fallback s)
  case Nil
  then show ?case by (auto intro!: ends_return)
next
  case (Cons e es)
  have go_on: "ends (select_run runDir mode es f) t (\<lambda>x u. same_files s u \<and>
      (case x of Inl target \<Rightarrow> store_path target | Inr f \<Rightarrow> f = [] \<or> store_path f))"
    if "same_files s t" "f = [] \<or> store_path f" for t f
    by (rule ends_mono [OF Cons.IH [OF that(2)]]) (auto intro: same_files_trans [OF that(1)])
  show ?case
  proof (cases "HasPrefix e ''.''")
    case True
    then show ?thesis using go_on [of s fallback] Cons.prems by simp
  next
    case False
    show ?thesis
      unfolding select_run.simps if_not_P [OF False] store_path_def [symmetric]
    proof (rule ends_bind [OF Readlink_ends])
      fix r and t :: "'a host"
      assume t: "same_files s t"
      show "ends (case r of Inl err \<Rightarrow> select_run runDir mode es fallback
          | Inr target \<Rightarrow> if \<not> store_path target then select_run runDir mode es fallback
              else if HasSuffix e (''-'' @ mode) then State_Monad.return (Inl target)
              else select_run runDir mode es target) t
        (\<lambda>x u. same_files s u \<and> (case x of Inl target \<Rightarrow> store_path target | Inr f \<Rightarrow> f = [] \<or> store_path f))"
        using go_on [OF t Cons.prems] go_on [OF t, of "projr r"] t
        by (cases r) (auto intro!: ends_return)
    qed
  qed
qed

lemma ReadDir_ends: "ends (ReadDir p) s (\<lambda>r t. same_files s t)"
  unfolding ReadDir_def by (rule ends_faulty) (auto simp: same_files_def)

definition logged :: "'w host \<Rightarrow> string list \<Rightarrow> 'w host \<Rightarrow> bool" where
  "logged s argv t \<longleftrightarrow> (\<exists>env. h_ran t = h_ran s @ [\<lparr> ran_argv = argv, ran_env = env, ran_fs = h_fs s \<rparr>])"

lemma run_command_ends: "ends (run_command T argv env) s (\<lambda>r t. logged s argv t)"
  unfolding ends_def run_command_def by (auto simp: logged_def split: prod.split)

definition activate_argv :: "exec_provisioner \<Rightarrow> path \<Rightarrow> string \<Rightarrow> string list" where
  "activate_argv X dir mode =
     hostScopedCommand X ''flox'' [''--verbose'', ''activate'', ''--mode'', mode, ''-d'', path_string dir, ''--'', ''true'']"

lemma buildEnv_ends:
  "ends (buildEnv T X dir mode) s (\<lambda>r t. (\<forall>target. r = Inr target \<longrightarrow> store_path target) \<and>
     logged s (activate_argv X dir mode) t)"
proof -
  have log: "logged s argv u" if "same_files s t" "logged t argv v" "same_files v u" for t u v :: "'a host" and argv
    using that by (auto simp: logged_def same_files_def)
  show ?thesis
    unfolding buildEnv_def Let_def activate_argv_def [symmetric]
    by (rule ends_bind [OF floxCommandEnv_ends], rule ends_attempt [OF run_command_ends], simp,
        erule (1) log, simp, rule ends_attempt [OF ReadDir_ends], simp, erule (2) log,
        rule ends_bind [OF select_run_ends], simp)
      (auto intro!: ends_return log intro: same_files_trans split: sum.split)
qed

subsection \<open>What every run does to the node\<close>

text \<open>\<open>always R m\<close>: wherever \<open>m\<close> starts, it ends in a state related to the start by \<open>R\<close>.\<close>

definition always :: "('s \<Rightarrow> 's \<Rightarrow> bool) \<Rightarrow> ('s, 'a) state \<Rightarrow> bool" where
  "always R m \<longleftrightarrow> (\<forall>s. R s (snd (run_state m s)))"

lemma ends_always: "always R m \<Longrightarrow> ends m s (\<lambda>r t. R s t)"
  by (simp add: always_def ends_def)

text \<open>
  A relation that every file-system call and every command keeps, whatever they answer, is kept by
  a whole realise: one induction over the program's text for all such relations.
\<close>

locale node_relation =
  fixes R :: "'w host \<Rightarrow> 'w host \<Rightarrow> bool"
  assumes stays: "R s s"
    and chains: "R s t \<Longrightarrow> R t u \<Longrightarrow> R s u"
    and file_call: "R s (s\<lparr> h_fs := files, h_faults := tl (h_faults s) \<rparr>)"
    and command_run: "R s (s\<lparr> h_fs := files, h_outside := w, h_ran := h_ran s @ [x] \<rparr>)"
begin

lemma always_return: "always R (State_Monad.return x)"
  by (simp add: always_def stays)

lemma always_bind: "always R m \<Longrightarrow> (\<And>x. always R (f x)) \<Longrightarrow> always R (State_Monad.bind m f)"
  unfolding always_def by (auto simp: split_beta intro: chains)

lemma always_attempt: "always R m \<Longrightarrow> (\<And>x. always R (k x)) \<Longrightarrow> always R (attempt m wrap k)"
  unfolding attempt_def by (rule always_bind) (auto split: sum.split intro: always_return)

lemma always_faulty: "always R (faulty f)"
  unfolding always_def
proof
  fix s :: "'w host"
  have "\<exists>files. snd (run_state (faulty f) s) = s\<lparr> h_fs := files, h_faults := tl (h_faults s) \<rparr>"
  proof (cases "h_faults s")
    case Nil
    then show ?thesis by (auto simp: faulty_def split: prod.split intro!: exI [of _ "snd (f s)"])
  next
    case (Cons x fl)
    then show ?thesis
    proof (cases x)
      case None
      with Cons show ?thesis by (intro exI [of _ "snd (f s)"]) (simp add: faulty_def split: prod.split)
    next
      case (Some e)
      with Cons show ?thesis by (intro exI [of _ "h_fs s"]) (simp add: faulty_def)
    qed
  qed
  then show "R s (snd (run_state (faulty f) s))" using file_call by metis
qed

lemma always_run_command: "always R (run_command T argv env)"
  unfolding always_def run_command_def by (auto split: prod.split intro: command_run)

lemma always_calls: "always R (MkdirAll p)" "always R (WriteFile p c)" "always R (ReadFile p)"
  "always R (RemoveAll p)" "always R (Remove p)" "always R (Symlink target p)" "always R (Rename p q)"
  "always R (Readlink p)" "always R (ReadDir p)"
  by (simp_all add: MkdirAll_def WriteFile_def ReadFile_def RemoveAll_def Remove_def Symlink_def Rename_def
    Readlink_def ReadDir_def always_faulty)

lemmas always_steps = always_bind always_attempt always_return always_run_command always_calls

lemma always_floxCommandEnv: "always R (floxCommandEnv T)"
  unfolding floxCommandEnv_def readGithubToken_def Let_def by (auto intro!: always_steps)

lemma always_select_run: "always R (select_run runDir mode es fallback)"
proof (induction es arbitrary: fallback)
  case Nil
  then show ?case by (simp add: always_return)
next
  case (Cons e es)
  then show ?case by (auto intro!: always_steps split: sum.split)
qed

lemma always_materialise: "always R (materialise T dir req)"
  unfolding materialise_def Let_def by (auto intro!: always_steps)

lemma always_buildEnv: "always R (buildEnv T X dir mode)"
  unfolding buildEnv_def Let_def by (intro always_steps always_floxCommandEnv always_select_run)

lemma always_addEnvSubtree: "always R (addEnvSubtree T X ref floxEnv)"
  unfolding addEnvSubtree_def Let_def copy_files_def by (intro always_steps always_floxCommandEnv)

lemma always_writeGcroot: "always R (writeGcroot gc target)"
  unfolding writeGcroot_def by (intro always_steps)

lemma always_containerizeAndImport: "always R (containerizeAndImport T X dir)"
  unfolding containerizeAndImport_def Let_def by (intro always_steps always_floxCommandEnv)

lemmas always_parts = always_steps always_materialise always_buildEnv always_addEnvSubtree always_writeGcroot
  always_containerizeAndImport

lemma always_publish:
  "always R (if wanted then containerizeAndImport T X dir else State_Monad.return (Inr ()))"
  by (simp add: always_parts)

end

interpretation log: node_relation "\<lambda>s t. \<exists>more. h_ran t = h_ran s @ more"
  by unfold_locales auto

interpretation quiet: node_relation "\<lambda>s t. h_faults s = [] \<longrightarrow> h_faults t = []"
  by unfold_locales auto

end
