(* ===== verification/ExecProvisionerProperties.thy ===== *)
theory ExecProvisionerProperties
  imports NodeRuns
begin

text \<open>
  What the provisioner promises of the node: the GC-roots the plugin reads are swapped whole, a
  realise that succeeds has published the subtree it reports, the build runs on exactly what the
  reconciler asked for, the subtree holds exactly the two manifest files, and envs do not share
  directories. The tools may do anything unless a property says otherwise.
\<close>

subsection \<open>A node to try it on\<close>

text \<open>
  A node whose \<open>flox activate\<close> locks and links the dev closure of one env, and whose \<open>nix-store\<close> prints
  a store path: the tools of the concrete runs below.
\<close>

definition demo_ref :: env_ref where "demo_ref = EnvRef ''ns'' ''web''"

definition demo_xp :: exec_provisioner where
  "demo_xp = \<lparr> xp_env_root = [''envs''], xp_gcroot_base = [''roots'', ''env''], xp_ctr_bin = [],
     xp_containerd_address = [], xp_nsenter = [], xp_systemd_run = [] \<rparr>"

definition demo_run :: "string list \<Rightarrow> string list \<Rightarrow> fs \<times> 'w \<Rightarrow> (go_error + string) \<times> (fs \<times> 'w)" where
  "demo_run argv env node = (case argv of
     tool # args \<Rightarrow> if tool = ''flox''
       then (Inr [], (AList.update [''envs'', ''ns'', ''web'', ''.flox'', ''run''] DirNode
           (AList.update [''envs'', ''ns'', ''web'', ''.flox'', ''run'', ''web-dev''] (LinkNode ''/nix/store/dev'')
           (AList.update [''envs'', ''ns'', ''web'', ''.flox'', ''env'', ''manifest.lock''] (FileNode ''lock'') (fst node))), snd node))
       else (Inr ''/nix/store/web'', node)
   | [] \<Rightarrow> (Inr [], node))"

definition demo_tools :: "'w host_tools" where
  "demo_tools = \<lparr> ht_run = demo_run, ht_environ = [''GITHUB_ACCESS_TOKEN_FILE=/token''], ht_quote = (\<lambda>n. n) \<rparr>"

definition demo_host :: "unit host" where
  "demo_host = \<lparr> h_fs = [([''token''], FileNode ''ghs'')], h_faults = [], h_outside = (), h_ran = [] \<rparr>"

definition demo_request :: realize_request where
  "demo_request = \<lparr> rr_ref = demo_ref, rr_manifest_toml = ''toml'', rr_lock = [], rr_consumption = ''mount'' \<rparr>"

lemmas demo_defs = demo_ref_def demo_xp_def demo_run_def demo_tools_def demo_host_def demo_request_def

subsection \<open>Writing the env\<close>

lemma WriteFile_ends:
  "ends (WriteFile p c) s (\<lambda>r t. h_ran t = h_ran s \<and>
     (\<forall>x. r = Inr x \<longrightarrow> map_of (h_fs t) = (map_of (h_fs s))(p \<mapsto> FileNode c)))"
  unfolding WriteFile_def
  by (rule ends_faulty) (auto simp: AList.update_conv' split: option.split node.split)

definition inputs :: "'w host_tools \<Rightarrow> path \<Rightarrow> realize_request \<Rightarrow> fs \<Rightarrow> fs \<Rightarrow> bool" where
  "inputs T dir req old files \<longleftrightarrow>
     map_of files (dir @ [''.flox'', ''env'', ''manifest.toml'']) = Some (FileNode (rr_manifest_toml req)) \<and>
     map_of files (dir @ [''.flox'', ''env.json'']) = Some (FileNode (env_json T (ref_name (rr_ref req)))) \<and>
     map_of files (dir @ [''.flox'', ''env'', ''manifest.lock'']) =
       (if rr_lock req \<noteq> [] then Some (FileNode (rr_lock req))
        else map_of old (dir @ [''.flox'', ''env'', ''manifest.lock'']))"

lemma flox_paths:
  "path_join dir [''.flox''] = dir @ [''.flox'']"
  "path_join dir [''.flox'', ''env''] = dir @ [''.flox'', ''env'']"
  "path_join dir [''env''] = dir @ [''env'']"
  "path_join dir [''manifest.toml''] = dir @ [''manifest.toml'']"
  "path_join dir [''manifest.lock''] = dir @ [''manifest.lock'']"
  "path_join dir [''env.json''] = dir @ [''env.json'']"
  by (simp_all add: join_names plain_name_def)

lemma long_path_kept: "length p < length q \<Longrightarrow> q \<notin> set (parents p)"
  using parents_length [of q p] by auto

lemma materialise_ends:
  "ends (materialise T dir req) s (\<lambda>r t. h_ran t = h_ran s \<and> (\<forall>x. r = Inr x \<longrightarrow> inputs T dir req (h_fs s) (h_fs t)))"
proof -
  let ?env = "dir @ [''.flox'', ''env'']"
  let ?lock = "dir @ [''.flox'', ''env'', ''manifest.lock'']"
  have lock: "ends (if rr_lock req \<noteq> [] then WriteFile ?lock (rr_lock req) else State_Monad.return (Inr ())) t
      (\<lambda>r u. h_ran u = h_ran t \<and> (\<forall>x. r = Inr x \<longrightarrow>
        map_of (h_fs u) = (if rr_lock req \<noteq> [] then (map_of (h_fs t))(?lock \<mapsto> FileNode (rr_lock req)) else map_of (h_fs t))))"
    for t :: "'a host"
    using WriteFile_ends [of ?lock "rr_lock req" t] by (auto intro: ends_return)
  show ?thesis
    unfolding materialise_def Let_def flox_paths append_assoc append.simps
  proof (rule ends_attempt [OF MkdirAll_ends], simp, rule ends_attempt [OF WriteFile_ends], simp,
      rule ends_attempt [OF WriteFile_ends], simp, rule ends_attempt [OF lock], simp, rule ends_return)
    fix x t y u z v and w :: unit and e :: "'a host"
    assume t: "h_ran t = h_ran s \<and> (\<forall>q. map_of (h_fs t) q = map_of (h_fs s) q \<or>
        q \<in> set (parents ?env) \<and> map_of (h_fs s) q = None \<and> map_of (h_fs t) q = Some DirNode) \<and>
      (\<forall>x'. Inr x = Inr x' \<longrightarrow> (\<forall>q \<in> set (parents ?env). map_of (h_fs t) q = Some DirNode))"
    have "map_of (h_fs t) ?lock = map_of (h_fs s) ?lock"
      using t long_path_kept [of ?env ?lock] by auto
    moreover assume "h_ran u = h_ran t \<and> (\<forall>x. Inr y = Inr x \<longrightarrow> map_of (h_fs u) =
        (map_of (h_fs t))(dir @ [''.flox'', ''env'', ''manifest.toml''] \<mapsto> FileNode (rr_manifest_toml req)))"
      "h_ran v = h_ran u \<and> (\<forall>x. Inr z = Inr x \<longrightarrow> map_of (h_fs v) =
        (map_of (h_fs u))(dir @ [''.flox'', ''env.json''] \<mapsto> FileNode (env_json T (ref_name (rr_ref req)))))"
      "h_ran e = h_ran v \<and> (\<forall>x. Inr w = Inr x \<longrightarrow> map_of (h_fs e) =
        (if rr_lock req \<noteq> [] then (map_of (h_fs v))(?lock \<mapsto> FileNode (rr_lock req)) else map_of (h_fs v)))"
    ultimately show "h_ran e = h_ran s \<and> (\<forall>x. Inr () = Inr x \<longrightarrow> inputs T dir req (h_fs s) (h_fs e))"
      using t by (auto simp: inputs_def)
  qed
qed

subsection \<open>The build sees what was asked for\<close>

definition lock_file :: "path \<Rightarrow> path" where
  "lock_file dir = dir @ [''.flox'', ''env'', ''manifest.lock'']"

text \<open>
  C19: The first command of a realise is the activation of the env's own directory, and the files it finds
  are the request's: the manifest, the identity marker, and the requested lock. Without a lock in the
  request the lock file is whatever an earlier realise left there. A realise that runs no command
  fails.
\<close>

theorem build_sees_request:
  "case run_state (Exec_Realize T X req) s of (r, t) \<Rightarrow>
     h_ran t = h_ran s \<and> isl r \<or>
     (\<exists>build more. h_ran t = h_ran s @ build # more \<and>
        ran_argv build = hostScopedCommand X ''flox'' [''--verbose'', ''activate'', ''--mode'', ''dev'', ''-d'',
          path_string (envDir X (rr_ref req)), ''--'', ''true''] \<and>
        inputs T (envDir X (rr_ref req)) req (h_fs s) (ran_fs build))"
proof -
  let ?dir = "envDir X (rr_ref req)"
  let ?post = "\<lambda>r t. h_ran t = h_ran s \<and> isl r \<or>
     (\<exists>build more. h_ran t = h_ran s @ build # more \<and> ran_argv build = activate_argv X ?dir ''dev'' \<and>
        inputs T ?dir req (h_fs s) (ran_fs build))"
  have "ends (Exec_Realize T X req) s ?post"
    unfolding Exec_Realize_def Let_def
  proof (rule ends_attempt [OF materialise_ends], simp, rule ends_attempt [OF buildEnv_ends])
    fix x :: unit and e and t u :: "'a host"
    assume t: "h_ran t = h_ran s \<and> (\<forall>x'. Inr x = Inr x' \<longrightarrow> inputs T ?dir req (h_fs s) (h_fs t))"
      and u: "(\<forall>target. Inl e = Inr target \<longrightarrow> store_path target) \<and> logged t (activate_argv X ?dir ''dev'') u"
    then show "?post (Inl e) u"
      by (auto simp: logged_def)
  next
    fix x :: unit and activation and t u :: "'a host"
    assume t: "h_ran t = h_ran s \<and> (\<forall>x'. Inr x = Inr x' \<longrightarrow> inputs T ?dir req (h_fs s) (h_fs t))"
      and u: "(\<forall>target. Inr activation = Inr target \<longrightarrow> store_path target) \<and> logged t (activate_argv X ?dir ''dev'') u"
    show "ends (attempt (addEnvSubtree T X (rr_ref req) (path_join ?dir [''.flox'', ''env''])) (\<lambda>e. e) (\<lambda>subtree.
        attempt (writeGcroot (gcrootPath X (rr_ref req)) subtree) (\<lambda>e. e) (\<lambda>_.
        attempt (writeGcroot (activationGcrootPath X (rr_ref req)) activation) (\<lambda>e. e) (\<lambda>_.
        attempt (if rr_consumption req = ''image'' then containerizeAndImport T X ?dir
          else State_Monad.return (Inr ())) (\<lambda>e. e) (\<lambda>_. do {
          lock \<leftarrow> ReadFile (path_join (path_join ?dir [''.flox'', ''env'']) [''manifest.lock'']);
          State_Monad.return (Inr
            \<lparr> rs_store_path = subtree, rs_env_path = path_string ?dir,
              rs_gcroot_path = path_string (gcrootPath X (rr_ref req)),
              rs_lock = (case lock of Inl e \<Rightarrow> [] | Inr l \<Rightarrow> l) \<rparr>)
        }))))) u ?post"
      by (rule ends_mono [OF ends_always [of "\<lambda>s t. \<exists>more. h_ran t = h_ran s @ more"]],
          intro log.always_parts log.always_publish) (use t u in \<open>auto simp: logged_def\<close>)
  qed
  then show ?thesis
    by (simp add: ends_def split_beta activate_argv_def)
qed

subsection \<open>What a realise publishes\<close>

lemmas exec_run_defs = Exec_Realize_def materialise_def buildEnv_def addEnvSubtree_def copy_files_def writeGcroot_def
  floxCommandEnv_def readGithubToken_def attempt_def run_command_def faulty_def MkdirAll_def WriteFile_def
  ReadFile_def RemoveAll_def Remove_def Symlink_def Rename_def Readlink_def ReadDir_def Let_def
  envDir_def gcrootPath_def activationGcrootPath_def path_join_def clean_step_def parents_def is_dir_def
  below_def entries_of_def add_suffix_def subtree_name_def command_def hostScopedCommand_def Getenv_def
  HasPrefix_def HasSuffix_def TrimPrefix_def TrimSpace_def is_space_def with_token_def List.map_filter_simps


text \<open>
  C20: The swap of a GC-root: whichever call on the node fails, the root is the old link or, when the
  swap succeeds, the new one, and no other file that was there is touched but the temporary link.
\<close>

theorem gcroot_swap:
  assumes "gc \<noteq> []"
  shows "case run_state (writeGcroot gc target) s of (r, t) \<Rightarrow>
     map_of (h_fs t) gc = (if isl r then map_of (h_fs s) gc else Some (LinkNode target)) \<and>
     (\<forall>q. q = gc \<or> q = add_suffix gc ''.tmp'' \<or> map_of (h_fs s) q = None \<or>
       map_of (h_fs t) q = map_of (h_fs s) q)"
proof -
  have "ends (writeGcroot gc target) s (\<lambda>r t. swapped gc target (h_fs s) r (h_fs t))"
    by (rule ends_mono [OF writeGcroot_ends [OF assms]]) simp
  then show ?thesis
    by (auto simp: ends_def split_beta swapped_def spares_def isl_def split: sum.splits)
qed

lemma gcroot_swap_witness:
  "case run_state (writeGcroot [''roots'', ''web''] ''/nix/store/web'') demo_host of (r, t) \<Rightarrow>
     map_of (h_fs t) [''roots'', ''web''] =
       (if isl r then map_of (h_fs demo_host) [''roots'', ''web''] else Some (LinkNode ''/nix/store/web''))"
  using gcroot_swap [where gc = "[''roots'', ''web'']" and target = "''/nix/store/web''" and s = demo_host] by (auto simp: split_beta)

text \<open>Tools that leave a path alone, whatever they are asked.\<close>

definition tools_spare :: "'w host_tools \<Rightarrow> path \<Rightarrow> bool" where
  "tools_spare T p \<longleftrightarrow> (\<forall>argv env files w. map_of (fst (snd (ht_run T argv env (files, w)))) p = map_of files p)"

lemma run_command_spares:
  "tools_spare T p \<Longrightarrow> ends (run_command T argv env) s (\<lambda>r t. map_of (h_fs t) p = map_of (h_fs s) p)"
  unfolding ends_def run_command_def tools_spare_def
  by (auto split: prod.split) (metis fst_conv snd_conv)

lemma containerize_spares:
  assumes "tools_spare T p"
  shows "ends (containerizeAndImport T X dir) s (\<lambda>r t. map_of (h_fs t) p = map_of (h_fs s) p)"
  unfolding containerizeAndImport_def Let_def
  by (rule ends_bind [OF floxCommandEnv_ends], rule ends_attempt [OF run_command_spares [OF assms]],
      simp add: same_files_def, rule ends_attempt [OF run_command_spares [OF assms]])
    (auto intro!: ends_return simp: same_files_def)

lemma ends_and: "ends m s P \<Longrightarrow> ends m s Q \<Longrightarrow> ends m s (\<lambda>r t. P r t \<and> Q r t)"
  by (simp add: ends_def)

lemma publish_spares:
  assumes "wanted \<longrightarrow> tools_spare T p \<and> tools_spare T q"
  shows "ends (if wanted then containerizeAndImport T X dir else State_Monad.return (Inr ())) s
    (\<lambda>r t. map_of (h_fs t) p = map_of (h_fs s) p \<and> map_of (h_fs t) q = map_of (h_fs s) q)"
  using assms by (auto intro: ends_and containerize_spares ends_return)

lemma ends_any: "ends m s (\<lambda>r t. True)"
  by (simp add: ends_def)

definition published :: "exec_provisioner \<Rightarrow> realize_request \<Rightarrow> realize_result \<Rightarrow> fs \<Rightarrow> bool" where
  "published X req res files \<longleftrightarrow>
     map_of files (gcrootPath X (rr_ref req)) = Some (LinkNode (rs_store_path res)) \<and>
     (\<exists>closure. store_path closure \<and>
        map_of files (activationGcrootPath X (rr_ref req)) = Some (LinkNode closure)) \<and>
     rs_gcroot_path res = path_string (gcrootPath X (rr_ref req)) \<and>
     rs_env_path res = path_string (envDir X (rr_ref req)) \<and>
     (rs_lock res = [] \<or>
        map_of files (lock_file (envDir X (rr_ref req))) = Some (FileNode (rs_lock res)))"

lemma realize_published:
  assumes "plain_ref (rr_ref req)" "xp_gcroot_base X \<noteq> []" "last (xp_gcroot_base X) \<noteq> ''activation''"
    and "rr_consumption req = ''image'' \<longrightarrow>
      tools_spare T (gcrootPath X (rr_ref req)) \<and> tools_spare T (activationGcrootPath X (rr_ref req))"
    and "run_state (Exec_Realize T X req) s = (Inr res, t)"
  shows "published X req res (h_fs t)"
proof -
  let ?gc = "gcrootPath X (rr_ref req)"
  let ?agc = "activationGcrootPath X (rr_ref req)"
  have gc: "?gc \<noteq> []" "?agc \<noteq> []" "?gc \<noteq> ?agc" "?gc \<noteq> add_suffix ?agc ''.tmp''"
    using assms(1-3) roots_apart [OF assms(1-3)] by (simp_all add: ref_paths [OF assms(1)])
  have "ends (Exec_Realize T X req) s (\<lambda>r t. \<forall>res. r = Inr res \<longrightarrow> published X req res (h_fs t))"
    unfolding Exec_Realize_def Let_def
  proof (rule ends_attempt [OF ends_any], simp, rule ends_attempt [OF buildEnv_ends], simp,
      rule ends_attempt [OF ends_any], simp, rule ends_attempt [OF writeGcroot_ends [OF gc(1)]], simp,
      rule ends_attempt [OF writeGcroot_ends [OF gc(2)]], simp,
      rule ends_attempt [OF publish_spares [OF assms(4)]], simp,
      rule ends_bind [OF ReadFile_ends], rule ends_return, intro allI impI)
    fix activation subtree x y z lock r and a b c d e f :: "'a host" and g :: "'a host" and u :: unit and res'
    assume act: "(\<forall>target. Inr activation = Inr target \<longrightarrow> store_path target) \<and>
        logged a (activate_argv X (envDir X (rr_ref req)) ''dev'') b"
      and d: "h_ran d = h_ran c \<and> swapped ?gc subtree (h_fs c) (Inr x) (h_fs d)"
      and e: "h_ran e = h_ran d \<and> swapped ?agc activation (h_fs d) (Inr y) (h_fs e)"
      and f: "map_of (h_fs f) ?gc = map_of (h_fs e) ?gc \<and> map_of (h_fs f) ?agc = map_of (h_fs e) ?agc"
      and g: "same_files f g \<and> (\<forall>c. lock = Inr c \<longrightarrow> map_of (h_fs f)
        (path_join (path_join (envDir X (rr_ref req)) [''.flox'', ''env'']) [''manifest.lock'']) = Some (FileNode c))"
      and res: "Inr \<lparr> rs_store_path = subtree, rs_env_path = path_string (envDir X (rr_ref req)),
          rs_gcroot_path = path_string ?gc, rs_lock = (case lock of Inl e \<Rightarrow> [] | Inr l \<Rightarrow> l) \<rparr> = Inr res'"
    have "map_of (h_fs g) ?gc = Some (LinkNode subtree)" "map_of (h_fs g) ?agc = Some (LinkNode activation)"
      using d e f g gc by (auto simp: swapped_def spares_def same_files_def)
    moreover have "rs_lock res' = [] \<or>
        map_of (h_fs g) (lock_file (envDir X (rr_ref req))) = Some (FileNode (rs_lock res'))"
      using g res by (cases lock) (auto simp: lock_file_def flox_paths same_files_def)
    ultimately show "published X req res' (h_fs g)"
      using act res by (auto simp: published_def)
  qed
  then show ?thesis using assms(5) by (simp add: ends_def)
qed

text \<open>
  C11: A realise that succeeds has published what it reports: the root the plugin reads links to the
  reported subtree, the activation root links to a store path, the reported paths are those of the
  env, and the reported lock is the one in the env's directory. The roots differ when the base of
  the plugin's roots is not itself named \<open>activation\<close>; for an \<open>image\<close> env the tools that build and
  import the image leave the two roots alone.
\<close>

theorem realize_publishes_subtree:
  assumes "plain_ref (rr_ref req)" "xp_gcroot_base X \<noteq> []" "last (xp_gcroot_base X) \<noteq> ''activation''"
    and "rr_consumption req = ''image'' \<longrightarrow>
      tools_spare T (gcrootPath X (rr_ref req)) \<and> tools_spare T (activationGcrootPath X (rr_ref req))"
    and "run_state (Exec_Realize T X req) s = (Inr res, t)"
  shows "published X req res (h_fs t)"
  by (rule realize_published [OF assms])

lemma realize_publishes_subtree_witness:
  "\<exists>res t. run_state (Exec_Realize demo_tools demo_xp demo_request) demo_host = (Inr res, t) \<and>
     rs_store_path res = ''/nix/store/web'' \<and> published demo_xp demo_request res (h_fs t)"
proof -
  have "(case fst (run_state (Exec_Realize demo_tools demo_xp demo_request) demo_host) of
      Inl e \<Rightarrow> False | Inr res \<Rightarrow> rs_store_path res = ''/nix/store/web'')"
    by code_simp
  then obtain res t where run: "run_state (Exec_Realize demo_tools demo_xp demo_request) demo_host = (Inr res, t)"
      "rs_store_path res = ''/nix/store/web''"
    by (cases "run_state (Exec_Realize demo_tools demo_xp demo_request) demo_host") (auto split: sum.splits)
  have "published demo_xp demo_request res (h_fs t)"
    by (rule realize_publishes_subtree [OF _ _ _ _ run(1)])
      (simp_all add: demo_defs plain_ref_def plain_name_def plain_def)
  with run show ?thesis by blast
qed

subsection \<open>The subtree that is added to the store\<close>

definition staging_of :: "exec_provisioner \<Rightarrow> env_ref \<Rightarrow> path" where
  "staging_of X ref = path_join (envDir X ref) [subtree_name ref]"

text \<open>The files below the staging directory, as the store is given them.\<close>

definition staged :: "path \<Rightarrow> path \<Rightarrow> fs \<Rightarrow> path \<Rightarrow> node option" where
  "staged staging floxEnv files q =
     (if q = staging \<or> q = staging @ [''env''] then Some DirNode
      else if q = staging @ [''env'', ''manifest.toml''] then map_of files (floxEnv @ [''manifest.toml''])
      else if q = staging @ [''env'', ''manifest.lock''] then map_of files (floxEnv @ [''manifest.lock''])
      else None)"

lemma map_of_removed: "map_of (filter (\<lambda>(q, n). \<not> below p q) files) q = (if below p q then None else map_of files q)"
  by (induction files) auto

lemma RemoveAll_ends:
  "ends (RemoveAll p) s (\<lambda>r t. h_ran t = h_ran s \<and>
     (\<forall>x. r = Inr x \<longrightarrow> (\<forall>q. map_of (h_fs t) q = (if below p q then None else map_of (h_fs s) q))))"
  unfolding RemoveAll_def by (rule ends_faulty) (auto simp: map_of_removed)

lemma copy_files_ends:
  "ends (copy_files floxEnv stagingEnv) s (\<lambda>r t. h_ran t = h_ran s \<and>
     (\<forall>x. r = Inr x \<longrightarrow> floxEnv \<noteq> stagingEnv \<longrightarrow> (\<exists>toml lock.
        map_of (h_fs s) (floxEnv @ [''manifest.toml'']) = Some (FileNode toml) \<and>
        map_of (h_fs s) (floxEnv @ [''manifest.lock'']) = Some (FileNode lock) \<and>
        map_of (h_fs t) = (map_of (h_fs s))(stagingEnv @ [''manifest.toml''] \<mapsto> FileNode toml,
          stagingEnv @ [''manifest.lock''] \<mapsto> FileNode lock))))"
  unfolding copy_files_def flox_paths
  by (rule ends_attempt [OF ReadFile_ends], simp add: same_files_def, rule ends_attempt [OF WriteFile_ends],
      simp add: same_files_def, rule ends_attempt [OF ReadFile_ends], simp add: same_files_def,
      rule ends_attempt [OF WriteFile_ends], simp add: same_files_def, rule ends_return)
    (auto simp: same_files_def)

lemma below_append [simp]: "below p (p @ q)"
  by (simp add: below_def)

lemma below_refl [simp]: "below p p"
  by (simp add: below_def)

lemma below_iff: "below p q \<longleftrightarrow> (\<exists>r. q = p @ r)"
  unfolding below_def by (metis append_take_drop_id append_eq_conv_conj)

lemma parents_append: "q \<in> set (parents (p @ [c])) \<longleftrightarrow> q \<in> set (parents p) \<or> q = p @ [c]"
  by (auto simp: parents_def)

lemma self_parent: "p \<noteq> [] \<Longrightarrow> p \<in> set (parents p)"
  by (cases p rule: rev_cases) (simp_all add: parents_append)

lemma below_parent: "below p q \<Longrightarrow> q \<in> set (parents p) \<Longrightarrow> q = p"
  using parents_length [of q p] by (auto simp: below_iff)

definition added :: "exec_provisioner \<Rightarrow> env_ref \<Rightarrow> path \<Rightarrow> 'w host \<Rightarrow> 'w host \<Rightarrow> bool" where
  "added X ref floxEnv s t \<longleftrightarrow> (\<exists>run. h_ran t = h_ran s @ [run] \<and>
     ran_argv run = command X ''nix-store'' [''--add'', path_string (staging_of X ref)] \<and>
     (\<forall>q. below (staging_of X ref) q \<longrightarrow>
        map_of (ran_fs run) q = staged (staging_of X ref) floxEnv (h_fs s) q))"

lemma staged_files:
  assumes clear: "\<And>c. \<not> below staging (floxEnv @ [c])" "staging \<noteq> []"
    and removed: "\<forall>q. map_of b q = (if below staging q then None else map_of a q)"
    and made: "\<forall>q. map_of c q = map_of b q \<or> q \<in> set (parents (staging @ [''env''])) \<and> map_of b q = None \<and> map_of c q = Some DirNode"
      "\<forall>q \<in> set (parents (staging @ [''env''])). map_of c q = Some DirNode"
    and copied: "map_of c (floxEnv @ [''manifest.toml'']) = Some (FileNode toml)"
      "map_of c (floxEnv @ [''manifest.lock'']) = Some (FileNode lock)"
      "map_of d = (map_of c)((staging @ [''env'']) @ [''manifest.toml''] \<mapsto> FileNode toml,
        (staging @ [''env'']) @ [''manifest.lock''] \<mapsto> FileNode lock)"
    and q: "below staging q"
  shows "map_of d q = staged staging floxEnv a q"
proof -
  have from_a: "map_of a (floxEnv @ [n]) = Some (FileNode x)" if "map_of c (floxEnv @ [n]) = Some (FileNode x)" for n x
    using that made(1) removed clear(1) by (metis node.distinct(1) option.inject)
  have "map_of c q = (if q = staging \<or> q = staging @ [''env''] then Some DirNode else None)"
  proof (cases "q \<in> set (parents (staging @ [''env'']))")
    case True
    then have "q = staging \<or> q = staging @ [''env'']"
      using q below_parent by (auto simp: parents_append)
    with True made(2) show ?thesis by auto
  next
    case False
    then have "q \<noteq> staging" "q \<noteq> staging @ [''env'']"
      using self_parent [OF clear(2)] by (auto simp: parents_append)
    moreover have "map_of c q = None" using False made(1) [rule_format, of q] removed q by auto
    ultimately show ?thesis by simp
  qed
  then show ?thesis
    using copied from_a by (auto simp: staged_def)
qed

lemma addEnvSubtree_ends:
  fixes s :: "'w host"
  assumes clear: "\<And>c. \<not> below (staging_of X ref) (floxEnv @ [c])" "staging_of X ref \<noteq> []"
  shows "ends (addEnvSubtree T X ref floxEnv) s (\<lambda>r t. h_ran t = h_ran s \<and> isl r \<or> added X ref floxEnv s t)"
proof -
  let ?st = "staging_of X ref"
  let ?post = "\<lambda>r t. h_ran t = h_ran s \<and> isl r \<or> added X ref floxEnv s t"
  have apart: "floxEnv \<noteq> ?st @ [''env'']" using clear(1) by (auto simp: below_iff)
  have kept: "ends (State_Monad.bind (RemoveAll ?st) (\<lambda>_. State_Monad.return r)) t ?post" if "?post r t" for r and t :: "'w host"
    by (rule ends_bind [OF RemoveAll_ends], rule ends_return) (use that in \<open>auto simp: added_def\<close>)
  show ?thesis
    unfolding addEnvSubtree_def Let_def staging_of_def [symmetric] flox_paths
  proof (rule ends_attempt [OF RemoveAll_ends], simp, rule ends_bind [where P = ?post], rule ends_attempt [OF MkdirAll_ends],
      simp, rule ends_attempt [OF copy_files_ends], simp, rule ends_bind [OF floxCommandEnv_ends])
    fix x y z :: unit and env and b c d e :: "'w host"
    assume b: "h_ran b = h_ran s \<and> (\<forall>x'. Inr x = Inr x' \<longrightarrow>
        (\<forall>q. map_of (h_fs b) q = (if below ?st q then None else map_of (h_fs s) q)))"
      and c: "h_ran c = h_ran b \<and> (\<forall>q. map_of (h_fs c) q = map_of (h_fs b) q \<or> q \<in> set (parents (?st @ [''env''])) \<and>
          map_of (h_fs b) q = None \<and> map_of (h_fs c) q = Some DirNode) \<and>
        (\<forall>x'. Inr y = Inr x' \<longrightarrow> (\<forall>q \<in> set (parents (?st @ [''env''])). map_of (h_fs c) q = Some DirNode))"
      and d: "h_ran d = h_ran c \<and> (\<forall>x. Inr z = Inr x \<longrightarrow> floxEnv \<noteq> ?st @ [''env''] \<longrightarrow> (\<exists>toml lock.
        map_of (h_fs c) (floxEnv @ [''manifest.toml'']) = Some (FileNode toml) \<and>
        map_of (h_fs c) (floxEnv @ [''manifest.lock'']) = Some (FileNode lock) \<and>
        map_of (h_fs d) = (map_of (h_fs c))((?st @ [''env'']) @ [''manifest.toml''] \<mapsto> FileNode toml,
          (?st @ [''env'']) @ [''manifest.lock''] \<mapsto> FileNode lock)))"
      and e: "same_files d e"
    from d apart obtain toml lock where copied:
        "map_of (h_fs c) (floxEnv @ [''manifest.toml'']) = Some (FileNode toml)"
        "map_of (h_fs c) (floxEnv @ [''manifest.lock'']) = Some (FileNode lock)"
        "map_of (h_fs d) = (map_of (h_fs c))((?st @ [''env'']) @ [''manifest.toml''] \<mapsto> FileNode toml,
          (?st @ [''env'']) @ [''manifest.lock''] \<mapsto> FileNode lock)"
      by blast
    have files: "\<forall>q. below ?st q \<longrightarrow> map_of (h_fs e) q = staged ?st floxEnv (h_fs s) q"
    proof (intro allI impI)
      fix q
      assume q: "below ?st q"
      have "map_of (h_fs d) q = staged ?st floxEnv (h_fs s) q"
        by (rule staged_files [OF clear(1) clear(2) _ _ _ copied q, of "h_fs b"]) (use b c in simp_all)
      then show "map_of (h_fs e) q = staged ?st floxEnv (h_fs s) q" using e by (simp add: same_files_def)
    qed
    show "ends (attempt (run_command T (command X ''nix-store'' [''--add'', path_string ?st]) env)
        (WrapErr (''nix-store --add '' @ path_string ?st)) (\<lambda>out. State_Monad.return (Inr (TrimSpace out)))) e ?post"
      by (rule ends_attempt [OF run_command_ends])
        (use files b c d e in \<open>auto simp: logged_def added_def same_files_def intro!: ends_return\<close>)
  qed (auto intro: kept)
qed

lemma RemoveAll_quiet:
  "h_faults s = [] \<Longrightarrow> ends (RemoveAll p) s (\<lambda>r t. r = Inr () \<and> h_faults t = [] \<and>
     (\<forall>q. below p q \<longrightarrow> map_of (h_fs t) q = None))"
  by (simp add: RemoveAll_def ends_def faulty_def map_of_removed)

lemma addEnvSubtree_cleans:
  fixes s :: "'w host"
  assumes "h_faults s = []"
  shows "ends (addEnvSubtree T X ref floxEnv) s (\<lambda>r t. \<forall>q. below (staging_of X ref) q \<longrightarrow> map_of (h_fs t) q = None)"
  unfolding addEnvSubtree_def Let_def staging_of_def [symmetric]
proof (rule ends_attempt [OF RemoveAll_quiet [OF assms]], simp, rule ends_bind)
  fix x and t :: "'w host"
  assume t: "Inr x = Inr () \<and> h_faults t = [] \<and> (\<forall>q. below (staging_of X ref) q \<longrightarrow> map_of (h_fs t) q = None)"
  show "ends (attempt (MkdirAll (path_join (staging_of X ref) [''env'']))
        (WrapErr (''mkdir subtree staging '' @ path_string (path_join (staging_of X ref) [''env'']))) (\<lambda>_.
      attempt (copy_files floxEnv (path_join (staging_of X ref) [''env''])) (\<lambda>e. e) (\<lambda>_. do {
        env \<leftarrow> floxCommandEnv T;
        attempt (run_command T (command X ''nix-store'' [''--add'', path_string (staging_of X ref)]) env)
          (WrapErr (''nix-store --add '' @ path_string (staging_of X ref)))
          (\<lambda>out. State_Monad.return (Inr (TrimSpace out)))
      }))) t (\<lambda>r u. h_faults u = [])"
    unfolding copy_files_def
    by (rule ends_mono [OF ends_always [of "\<lambda>s t. h_faults s = [] \<longrightarrow> h_faults t = []"]],
        intro quiet.always_steps quiet.always_floxCommandEnv) (use t in simp)
next
  fix r and u :: "'w host"
  assume "h_faults u = []"
  from RemoveAll_quiet [OF this]
  show "ends (State_Monad.bind (RemoveAll (staging_of X ref)) (\<lambda>_. State_Monad.return r)) u
      (\<lambda>r t. \<forall>q. below (staging_of X ref) q \<longrightarrow> map_of (h_fs t) q = None)"
    by (rule ends_bind) (simp add: ends_return)
qed

text \<open>A folder of one segment, and a name as the API server accepts for objects.\<close>

definition simple_ref :: "env_ref \<Rightarrow> bool" where
  "simple_ref ref \<longleftrightarrow> plain_name (ref_folder ref) \<and> plain_name (ref_name ref)"

lemma simple_ref_plain: "simple_ref ref \<Longrightarrow> plain_ref ref"
  by (simp add: simple_ref_def plain_ref_def name_comps)

text \<open>The segments of a string put together from pieces without a slash and others.\<close>

lemma split_slash_acc: "split_slash acc s = (acc @ hd (split_slash [] s)) # tl (split_slash [] s)"
proof (induction s arbitrary: acc)
  case (Cons c cs)
  show ?case using Cons [of "acc @ [c]"] Cons [of "[c]"] by simp
qed simp

lemma split_slash_prefixed:
  "CHR ''/'' \<notin> set n \<Longrightarrow> split_slash acc (n @ s) = split_slash (acc @ n) s"
  by (induction n arbitrary: acc) auto

lemma split_slash_suffixed:
  "CHR ''/'' \<notin> set n \<Longrightarrow> split_slash acc (s @ n) = butlast (split_slash acc s) @ [last (split_slash acc s) @ n]"
proof (induction s arbitrary: acc)
  case Nil
  then show ?case by (simp add: split_slash_name)
next
  case (Cons c cs)
  have "split_slash acc' cs \<noteq> []" for acc' using split_slash_acc [of acc' cs] by simp
  then show ?case using Cons by simp
qed

text \<open>
  The staging directory lies in the env's directory, under a first segment that starts with
  \<open>flox-env-\<close>; with a folder of one segment it is named for the store path.
\<close>

lemma plain_staging:
  assumes "plain_ref ref"
  obtains seg more where "staging_of X ref = envDir X ref @ (''flox-env-'' @ seg) # more"
proof -
  define n where "n = ''-'' @ ref_name ref @ ''-subtree''"
  have n: "CHR ''/'' \<notin> set n" using assms by (auto simp: n_def plain_ref_def plain_name_def)
  obtain f fs where f: "split_slash [] (ref_folder ref) = f # fs"
    using split_slash_acc [of "[]" "ref_folder ref"] by auto
  have split: "split_slash [] (subtree_name ref) =
      butlast ((''flox-env-'' @ f) # fs) @ [last ((''flox-env-'' @ f) # fs) @ n]"
  proof -
    have "split_slash [] (subtree_name ref) = split_slash ''flox-env-'' (ref_folder ref @ n)"
      using split_slash_prefixed [of "''flox-env-''" "[]"] by (simp add: subtree_name_def n_def)
    also have "\<dots> = butlast (split_slash ''flox-env-'' (ref_folder ref)) @ [last (split_slash ''flox-env-'' (ref_folder ref)) @ n]"
      by (rule split_slash_suffixed [OF n])
    also have "split_slash ''flox-env-'' (ref_folder ref) = (''flox-env-'' @ f) # fs"
      using split_slash_acc [of "''flox-env-''" "ref_folder ref"] by (simp add: f)
    finally show ?thesis .
  qed
  have "''..'' \<notin> set fs" using assms f by (auto simp: plain_ref_def plain_def)
  then have "''..'' \<notin> set (split_slash [] (subtree_name ref))"
    unfolding split by (auto simp: n_def dest: in_set_butlastD)
  then have join: "staging_of X ref = envDir X ref @ comps (subtree_name ref)"
    by (simp add: staging_of_def path_join_plain plain_def)
  show thesis
  proof (cases fs)
    case Nil
    then show thesis using that [of "f @ n" "[]"] join split by (simp add: comps_def)
  next
    case (Cons g gs)
    then show thesis using that [of f] join split by (simp add: comps_def)
  qed
qed

lemma simple_staging:
  assumes "simple_ref ref"
  shows "staging_of X ref = envDir X ref @ [subtree_name ref]"
proof -
  have "plain_name (subtree_name ref)" using assms by (auto simp: simple_ref_def plain_name_def subtree_name_def)
  then show ?thesis by (simp add: staging_of_def join_names)
qed

text \<open>
  C21: \<open>nix-store --add\<close> is given a directory that holds \<open>env/manifest.toml\<close> and \<open>env/manifest.lock\<close>, equal to
  the env's own, and nothing else; nothing is added when the files cannot be staged; and, when no
  call of the node fails, the staging is gone afterwards, whatever the tool answered. With a folder
  of one segment the directory has the name the store path is to carry.
\<close>

theorem subtree_is_exact:
  fixes s :: "'w host"
  assumes "plain_ref ref"
  shows "case run_state (addEnvSubtree T X ref (envDir X ref @ [''.flox'', ''env''])) s of (r, t) \<Rightarrow>
     (h_ran t = h_ran s \<and> isl r \<or> added X ref (envDir X ref @ [''.flox'', ''env'']) s t) \<and>
     (h_faults s = [] \<longrightarrow> (\<forall>q. below (staging_of X ref) q \<longrightarrow> map_of (h_fs t) q = None)) \<and>
     (simple_ref ref \<longrightarrow> staging_of X ref = envDir X ref @ [subtree_name ref])"
proof -
  obtain seg more where st: "staging_of X ref = envDir X ref @ (''flox-env-'' @ seg) # more"
    by (rule plain_staging [OF assms])
  have "ends (addEnvSubtree T X ref (envDir X ref @ [''.flox'', ''env''])) s (\<lambda>r t. h_ran t = h_ran s \<and> isl r \<or>
      added X ref (envDir X ref @ [''.flox'', ''env'']) s t)"
    by (rule addEnvSubtree_ends) (simp_all add: st below_iff)
  then show ?thesis
    using addEnvSubtree_cleans [of s T X ref] simple_staging by (auto simp: ends_def split_beta)
qed

lemma subtree_is_exact_witness:
  "case run_state (addEnvSubtree demo_tools demo_xp demo_ref
      (envDir demo_xp demo_ref @ [''.flox'', ''env''])) demo_host of (r, t) \<Rightarrow>
     h_ran t = [] \<and> isl r \<or> added demo_xp demo_ref (envDir demo_xp demo_ref @ [''.flox'', ''env'']) demo_host t"
proof -
  have "plain_ref demo_ref" "h_ran demo_host = []"
    by (simp_all add: demo_ref_def demo_host_def plain_ref_def plain_name_def plain_def)
  with subtree_is_exact [where ref = demo_ref and T = demo_tools and X = demo_xp and s = demo_host] show ?thesis by (simp add: split_beta)
qed

subsection \<open>Envs apart\<close>

text \<open>
  Envs whose folder never climbs keep their directories, and the roots of their subtrees, below
  the configured bases; two envs share a directory only when they have the same name and folders
  that clean to the same path; and with folders of one segment neither lies inside the other.
\<close>

theorem env_dirs_separate:
  assumes "plain_ref a" "plain_ref b"
  shows "below (xp_env_root X) (envDir X a) \<and> below (xp_gcroot_base X) (gcrootPath X a) \<and>
    (envDir X a = envDir X b \<longleftrightarrow> comps (ref_folder a) = comps (ref_folder b) \<and> ref_name a = ref_name b) \<and>
    (gcrootPath X a = gcrootPath X b \<longleftrightarrow> envDir X a = envDir X b) \<and>
    (simple_ref a \<and> simple_ref b \<longrightarrow> (below (envDir X a) (envDir X b) \<longleftrightarrow> a = b))"
  using assms
  by (cases a; cases b) (auto simp: ref_paths simple_ref_def name_comps below_iff)

lemma env_dirs_separate_witness:
  "plain_ref demo_ref \<and> plain_ref (EnvRef ''k8s'' ''db'') \<and> envDir demo_xp demo_ref \<noteq> envDir demo_xp (EnvRef ''k8s'' ''db'')"
proof -
  have "plain_ref demo_ref" "plain_ref (EnvRef ''k8s'' ''db'')"
    by (simp_all add: demo_ref_def plain_ref_def plain_name_def plain_def)
  with env_dirs_separate [of demo_ref "EnvRef ''k8s'' ''db''" demo_xp] show ?thesis by (simp add: demo_ref_def)
qed

text \<open>A folder with more segments, or one that climbs, is outside what the code provides for.\<close>

lemma structured_folder_splits_staging:
  "staging_of X (EnvRef ''team/apps'' ''web'') =
     envDir X (EnvRef ''team/apps'' ''web'') @ [''flox-env-team'', ''apps-web-subtree'']"
  by (simp add: staging_of_def subtree_name_def path_join_plain plain_def comps_def)

lemma climbing_folder_leaves_the_root:
  "envDir X (EnvRef ''..'' ''web'') = butlast (xp_env_root X) @ [''web'']"
  by (simp add: envDir_def path_join_def clean_step_def)

text \<open>
  Documented folders have several segments, and then the root of an env may be the parent of other
  roots: once an env of folder \<open>mesh/base\<close> is realised, the env \<open>base\<close> of folder \<open>mesh\<close> never is.
\<close>

lemma Rename_over_directory:
  "ends (Rename p q) s (\<lambda>r t. \<forall>x. r = Inr x \<longrightarrow> map_of (h_fs s) q \<noteq> Some DirNode)"
  unfolding Rename_def by (rule ends_faulty) (auto split: option.split)

lemma directory_root_blocks:
  fixes s :: "'w host"
  assumes "gc \<noteq> []" "map_of (h_fs s) gc = Some DirNode"
  shows "ends (writeGcroot gc target) s (\<lambda>r t. isl r)"
  unfolding writeGcroot_def
proof (rule ends_attempt [OF MkdirAll_ends], simp, rule ends_bind [OF Remove_ends], rule ends_attempt [OF Symlink_ends], simp,
    rule ends_attempt [OF Rename_over_directory], simp)
  fix x a y z and t u v w :: "'w host"
  assume "h_ran t = h_ran s \<and> (\<forall>q. map_of (h_fs t) q = map_of (h_fs s) q \<or> q \<in> set (parents (butlast gc)) \<and>
        map_of (h_fs s) q = None \<and> map_of (h_fs t) q = Some DirNode) \<and>
      (\<forall>x'. Inr x = Inr x' \<longrightarrow> (\<forall>q \<in> set (parents (butlast gc)). map_of (h_fs t) q = Some DirNode))"
    and "h_ran u = h_ran t \<and> (\<forall>q. q \<noteq> add_suffix gc ''.tmp'' \<longrightarrow> map_of (h_fs u) q = map_of (h_fs t) q)"
    and "h_ran v = h_ran u \<and> (\<forall>q. q \<noteq> add_suffix gc ''.tmp'' \<longrightarrow> map_of (h_fs v) q = map_of (h_fs u) q) \<and>
      (\<forall>x. Inr y = Inr x \<longrightarrow> map_of (h_fs v) (add_suffix gc ''.tmp'') = Some (LinkNode target))"
    and "\<forall>x. Inr z = Inr x \<longrightarrow> map_of (h_fs v) gc \<noteq> Some DirNode"
  then show "ends (State_Monad.return (Inr ())) w (\<lambda>r t. isl r)"
    using assms(2) tmp_neq [of gc] by (metis option.distinct(1))
qed

lemma nested_roots:
  "below (gcrootPath X (EnvRef ''mesh'' ''base'')) (gcrootPath X (EnvRef ''mesh/base'' n))" if "plain_name n"
  using that by (simp add: ref_paths plain_ref_def plain_name_def plain_def comps_def below_iff)

lemma Rename_consumes: "p \<noteq> q \<Longrightarrow> ends (Rename p q) s (\<lambda>r t. \<forall>x. r = Inr x \<longrightarrow> map_of (h_fs t) p = None)"
  unfolding Rename_def by (rule ends_faulty) (auto simp: AList.update_conv' delete_conv' split: option.split)

text \<open>
  The temporary link of a root is the root of the env of that name: realising \<open>web\<close> takes away the
  root of an env named \<open>web.tmp\<close> in the same folder.
\<close>

lemma tmp_named_env_loses_root:
  assumes "plain_ref ref" "run_state (writeGcroot (gcrootPath X ref) target) s = (Inr x, t)"
  shows "map_of (h_fs t) (gcrootPath X (EnvRef (ref_folder ref) (ref_name ref @ ''.tmp''))) = None"
proof -
  let ?gc = "gcrootPath X ref"
  have "plain_ref (EnvRef (ref_folder ref) (ref_name ref @ ''.tmp''))"
    using assms(1) by (auto simp: plain_ref_def plain_name_def)
  then have tmp: "gcrootPath X (EnvRef (ref_folder ref) (ref_name ref @ ''.tmp'')) = add_suffix ?gc ''.tmp''"
    using assms(1) by (simp add: ref_paths add_suffix_def butlast_append)
  have "ends (writeGcroot ?gc target) s (\<lambda>r t. \<forall>x. r = Inr x \<longrightarrow> map_of (h_fs t) (add_suffix ?gc ''.tmp'') = None)"
    unfolding writeGcroot_def
    by (rule ends_attempt [OF ends_any], simp, rule ends_bind [OF ends_any], rule ends_attempt [OF ends_any], simp,
        rule ends_attempt [OF Rename_consumes [OF tmp_neq]], simp, rule ends_return, simp)
  then show ?thesis using assms(2) tmp by (simp add: ends_def)
qed

subsection \<open>The token of private inputs\<close>

text \<open>
  When the token file is there and readable, the environment of every \<open>flox\<close> and \<open>nix-store\<close> run
  has exactly one \<open>NIX_CONFIG\<close>, the settings it had followed by the token on a line of its own, and every
  other variable as it was.
\<close>

theorem token_reaches_nix:
  assumes "h_faults s = []" "Getenv (ht_environ T) ''GITHUB_ACCESS_TOKEN_FILE'' = file" "file \<noteq> []"
    and "map_of (h_fs s) (path_join [] [file]) = Some (FileNode c)" "TrimSpace c \<noteq> []"
  shows "case run_state (floxCommandEnv T) s of (env, t) \<Rightarrow>
    filter (\<lambda>e. HasPrefix e ''NIX_CONFIG='') env =
      [''NIX_CONFIG='' @ (if Getenv (ht_environ T) ''NIX_CONFIG'' = [] then []
          else Getenv (ht_environ T) ''NIX_CONFIG'' @ [CHR 0x0A]) @ ''access-tokens = github.com='' @ TrimSpace c] \<and>
    filter (\<lambda>e. \<not> HasPrefix e ''NIX_CONFIG='') env =
      filter (\<lambda>e. \<not> HasPrefix e ''NIX_CONFIG='') (ht_environ T @ Environ)"
proof -
  have "fst (run_state (floxCommandEnv T) s) =
      with_token (ht_environ T @ Environ) (Getenv (ht_environ T) ''NIX_CONFIG'') (TrimSpace c)"
    using assms by (simp add: floxCommandEnv_def readGithubToken_def ReadFile_def faulty_def Let_def)
  then show ?thesis
    by (auto simp: split_beta with_token_def HasPrefix_def filter_empty_conv)
qed

lemma token_reaches_nix_witness:
  "case run_state (floxCommandEnv demo_tools) demo_host of (env, t) \<Rightarrow>
     filter (\<lambda>e. HasPrefix e ''NIX_CONFIG='') env = [''NIX_CONFIG=access-tokens = github.com=ghs'']"
proof -
  have key: "Getenv (ht_environ demo_tools) ''GITHUB_ACCESS_TOKEN_FILE'' = ''/token''"
      "Getenv (ht_environ demo_tools) ''NIX_CONFIG'' = []"
    by (simp_all add: demo_tools_def Getenv_def HasPrefix_def TrimPrefix_def)
  have content: "map_of (h_fs demo_host) (path_join [] [''/token'']) = Some (FileNode ''ghs'')"
    by (simp add: demo_host_def path_join_def clean_step_def)
  have "TrimSpace ''ghs'' = ''ghs''" by (simp add: TrimSpace_def is_space_def)
  with token_reaches_nix [OF _ key(1) _ content] key(2) show ?thesis
    by (simp add: split_beta demo_host_def)
qed

end
