(* ===== verification/NodeAgent.thy ===== *)
theory NodeAgent
  imports FloxEnvProperties ExecProvisionerProperties
begin

text \<open>
  The node agent together with the provisioner it is wired to. \<open>provisioner.go\<close> is the interface:
  a contract on what a successful \<open>Realize\<close> has left on the node, stated as a locale; the agent's side
  is proved once against the contract, and the locale is interpreted on \<open>Exec_Realize\<close>.
\<close>

subsection \<open>Programs all of whose events satisfy a predicate\<close>

definition emits_only :: "(event \<Rightarrow> bool) \<Rightarrow> ('w st, 'a) state \<Rightarrow> bool" where
  "emits_only P m \<longleftrightarrow> emits m (\<lambda>_ evs. list_all P evs)"

named_theorems only_intros "rules that walk a program for emits_only"

lemma only_return [only_intros]: "emits_only P (State_Monad.return x)"
  by (simp add: emits_only_def emits_return)

lemma only_bind [only_intros]: "emits_only P m \<Longrightarrow> (\<And>x. emits_only P (f x)) \<Longrightarrow> emits_only P (State_Monad.bind m f)"
  unfolding emits_only_def by (erule emits_bind) (auto elim: emits_mono)

lemma only_perform: "(\<And>w. P (ev (fst (f w)))) \<Longrightarrow> emits_only P (perform f ev)"
  by (auto simp: emits_only_def emits_def split_beta)

lemma only_if [only_intros]: "emits_only P m \<Longrightarrow> emits_only P n \<Longrightarrow> emits_only P (if b then m else n)"
  by simp

lemma only_sum [only_intros]:
  "(\<And>x. emits_only P (f x)) \<Longrightarrow> (\<And>y. emits_only P (g y)) \<Longrightarrow> emits_only P (case v of Inl x \<Rightarrow> f x | Inr y \<Rightarrow> g y)"
  by (cases v) simp_all

lemma only_option [only_intros]:
  "emits_only P m \<Longrightarrow> (\<And>y. emits_only P (g y)) \<Longrightarrow> emits_only P (case v of None \<Rightarrow> m | Some y \<Rightarrow> g y)"
  by (cases v) simp_all

lemma only_prod [only_intros]: "(\<And>x y. emits_only P (f x y)) \<Longrightarrow> emits_only P (case v of (x, y) \<Rightarrow> f x y)"
  by (cases v) simp

text \<open>A realise in the trace was answered by the agent's provisioner.\<close>

fun answered :: "'w env_reconciler \<Rightarrow> event \<Rightarrow> bool" where
  "answered R (Realize t q a) \<longleftrightarrow> (\<exists>w w'. er_provisioner R t q w = (a, w'))"
| "answered R ev = True"

lemma answered_calls [only_intros]:
  "emits_only (answered R) (get_env C k)" "emits_only (answered R) (get_catalog C k)"
  "emits_only (answered R) (list_workloads C kd)" "emits_only (answered R) (patch_workload C wl wl')"
  "emits_only (answered R) (patch_env_status C b e)" "emits_only (answered R) (wait_slot R)"
  "emits_only (answered R) (free_slot R)"
  unfolding request_defs slot_defs by (rule only_perform, simp)+

lemma answered_realize [only_intros]: "emits_only (answered R) (realize R t q)"
  unfolding realize_def by (rule only_perform) (simp, metis prod.collapse)

lemma answered_resolve: "emits_only (answered R) (resolve_installs L C ns m)"
  by (induction m) (auto intro!: only_intros simp: Let_def split: option.split sum.split)

lemma answered_unmet: "emits_only (answered R) (unmet_among L R' ns names)"
  by (induction names) (auto intro!: only_intros)

lemma answered_stamp: "emits_only (answered R) (stamp_each C target digest ws)"
  by (induction ws) (auto intro!: only_intros simp: stampConsumer_def)

lemma answered_roll [only_intros]: "emits_only (answered R) (restartConsumers C env lock)"
  unfolding restartConsumers_def Let_def by (intro only_intros answered_stamp)

lemma answered_install [only_intros]: "emits_only (answered R) (resolveFlakeInstalls L C ns m)"
  unfolding resolveFlakeInstalls_def by (auto intro!: only_intros answered_resolve split: option.split json.split)

lemma answered_status [only_intros]:
  "emits_only (answered R) (fail L R' env reason e)" "emits_only (answered R) (markPending L R' env)"
  "emits_only (answered R) (waitForFlake L R' env)" "emits_only (answered R) (waitForDeps L R' env unmet)"
  "emits_only (answered R) (markRealizing L R' env)"
  unfolding fail_def markPending_def waitForFlake_def waitForDeps_def markRealizing_def Let_def
  by (intro only_intros)+

lemma answered_reconcile: "emits_only (answered R) (FloxEnv_Reconcile L R req)"
  unfolding FloxEnv_Reconcile_def realize_when_deps_ready_def with_slot_def realize_in_slot_def unmetDeps_def Let_def
  by (intro only_intros answered_unmet)

lemma realize_answered:
  assumes "Realize t q a \<in> set (trace_of (FloxEnv_Reconcile L R req) w)"
  obtains w1 w2 where "er_provisioner R t q w1 = (a, w2)"
proof -
  have "list_all (answered R) (trace_of (FloxEnv_Reconcile L R req) w)"
    by (rule emits_run [OF answered_reconcile [unfolded emits_only_def]])
  with assms have "answered R (Realize t q a)" by (auto simp: list_all_iff)
  with that show thesis by auto
qed

subsection \<open>The contract of a provisioner\<close>

text \<open>
  \<open>link_of w ref\<close> is the store path the plugin finds for a ref on the node in the state \<open>w\<close>, \<open>root_name ref\<close>
  the path it looks at, and \<open>serves q\<close> the requests the provisioner answers for.
\<close>

locale provisioner_contract =
  fixes realise :: "int \<Rightarrow> realize_request \<Rightarrow> 'w \<Rightarrow> (go_error + realize_result) \<times> 'w"
    and link_of :: "'w \<Rightarrow> env_ref \<Rightarrow> string option"
    and root_name :: "env_ref \<Rightarrow> string"
    and serves :: "realize_request \<Rightarrow> bool"
  assumes publishes: "realise t q w = (Inr res, w') \<Longrightarrow> serves q \<Longrightarrow>
    link_of w' (rr_ref q) = Some (rs_store_path res) \<and> rs_gcroot_path res = root_name (rr_ref q)"
begin

lemma ready_entry_is_linked:
  assumes "meta_laws (lib_meta L)" "er_provisioner R = realise"
    and "PatchFloxEnvStatus base new r \<in> set (trace_of (FloxEnv_Reconcile L R req) w)"
    and "IsStatusConditionTrue (lib_meta L) (fe_conditions new) ''Ready''"
    and "\<forall>t q a. Realize t q a \<in> set (trace_of (FloxEnv_Reconcile L R req) w) \<longrightarrow> serves q"
  shows "\<exists>nr t q w1 w2 res. lookup_by nr_node (er_node_name R) (st_realized (fe_status new)) = Some nr \<and>
    Realize t q (Inr res) \<in> set (trace_of (FloxEnv_Reconcile L R req) w) \<and> realise t q w1 = (Inr res, w2) \<and>
    link_of w2 (rr_ref q) = Some (nr_store_path nr) \<and> nr_gcroot_path nr = root_name (rr_ref q)"
proof -
  have "success_at L R req base new r (trace_of (FloxEnv_Reconcile L R req) w)"
    using reconcile_writes [OF assms(3)] not_ready_not_true [OF assms(1)] assms(4) by blast
  then obtain env pre rolls q res where
      "trace_of (FloxEnv_Reconcile L R req) w =
        pre @ Realize (realize_timeout R) q (Inr res) # rolls @ [PatchFloxEnvStatus base new r, ReleaseSlot]"
    and new: "new = record_realized L R (relock_of env) res base"
    unfolding success_at_def by blast
  then have ev: "Realize (realize_timeout R) q (Inr res) \<in> set (trace_of (FloxEnv_Reconcile L R req) w)" by simp
  obtain w1 w2 where run: "realise (realize_timeout R) q w1 = (Inr res, w2)"
    using realize_answered [OF ev] unfolding assms(2) .
  have "serves q" using assms(5) ev by blast
  from publishes [OF run this] have "link_of w2 (rr_ref q) = Some (nr_store_path (node_entry R base res))"
      "nr_gcroot_path (node_entry R base res) = root_name (rr_ref q)"
    by (simp_all add: node_entry_def)
  moreover have "lookup_by nr_node (er_node_name R) (st_realized (fe_status new)) = Some (node_entry R base res)"
    using realized.ups_same [of "node_entry R base res"] by (simp add: new record_realized_fields node_entry_def)
  ultimately show ?thesis using ev run by blast
qed

end

subsection \<open>The exec provisioner keeps the contract\<close>

definition exec_link :: "exec_provisioner \<Rightarrow> 'w host \<Rightarrow> env_ref \<Rightarrow> string option" where
  "exec_link X w ref = (case map_of (h_fs w) (gcrootPath X ref) of Some (LinkNode target) \<Rightarrow> Some target | _ \<Rightarrow> None)"

definition exec_serves :: "'w host_tools \<Rightarrow> exec_provisioner \<Rightarrow> realize_request \<Rightarrow> bool" where
  "exec_serves T X q \<longleftrightarrow> plain_ref (rr_ref q) \<and> xp_gcroot_base X \<noteq> [] \<and> last (xp_gcroot_base X) \<noteq> ''activation'' \<and>
     (rr_consumption q = ''image'' \<longrightarrow>
        tools_spare T (gcrootPath X (rr_ref q)) \<and> tools_spare T (activationGcrootPath X (rr_ref q)))"

interpretation exec: provisioner_contract
  "\<lambda>t q. run_state (Exec_Realize T X q)" "exec_link X" "\<lambda>ref. path_string (gcrootPath X ref)" "exec_serves T X"
  for T X
proof
  fix q w res w'
  assume "run_state (Exec_Realize T X q) w = (Inr res, w')" "exec_serves T X q"
  then have "published X q res (h_fs w')"
    unfolding exec_serves_def by (blast intro: realize_published)
  then show "exec_link X w' (rr_ref q) = Some (rs_store_path res) \<and>
      rs_gcroot_path res = path_string (gcrootPath X (rr_ref q))"
    by (simp add: published_def exec_link_def)
qed

text \<open>
  C12: Ready means present on the node. An agent wired to the exec provisioner, as \<open>main\<close> wires it,
  declares an env Ready only with an entry whose store path was, when the realise of this pass
  returned, the target of the GC-root the plugin reads for the env on this node, and whose GC-root
  path is that root. The requests are ones the provisioner provides for: folders that do not climb,
  a root base not itself named \<open>activation\<close>, and image tools that leave the two roots alone.
\<close>

theorem ready_env_has_its_root:
  assumes "meta_laws (lib_meta L)" "er_provisioner R = (\<lambda>t q. run_state (Exec_Realize T X q))"
    and "PatchFloxEnvStatus base new r \<in> set (trace_of (FloxEnv_Reconcile L R req) w)"
    and "IsStatusConditionTrue (lib_meta L) (fe_conditions new) ''Ready''"
    and "\<forall>t q a. Realize t q a \<in> set (trace_of (FloxEnv_Reconcile L R req) w) \<longrightarrow> exec_serves T X q"
  shows "\<exists>nr t q w1 w2 res. lookup_by nr_node (er_node_name R) (st_realized (fe_status new)) = Some nr \<and>
    Realize t q (Inr res) \<in> set (trace_of (FloxEnv_Reconcile L R req) w) \<and>
    run_state (Exec_Realize T X q) w1 = (Inr res, w2) \<and>
    map_of (h_fs w2) (gcrootPath X (rr_ref q)) = Some (LinkNode (nr_store_path nr)) \<and>
    nr_gcroot_path nr = path_string (gcrootPath X (rr_ref q))"
proof -
  obtain nr t q w1 w2 res where "lookup_by nr_node (er_node_name R) (st_realized (fe_status new)) = Some nr"
      "Realize t q (Inr res) \<in> set (trace_of (FloxEnv_Reconcile L R req) w)"
      "run_state (Exec_Realize T X q) w1 = (Inr res, w2)" "exec_link X w2 (rr_ref q) = Some (nr_store_path nr)"
      "nr_gcroot_path nr = path_string (gcrootPath X (rr_ref q))"
    using exec.ready_entry_is_linked [OF assms] by blast
  moreover have "map_of (h_fs w2) (gcrootPath X (rr_ref q)) = Some (LinkNode (nr_store_path nr))"
    using calculation(4) by (auto simp: exec_link_def split: option.splits node.splits)
  ultimately show ?thesis by blast
qed

subsection \<open>A cluster with one node\<close>

text \<open>The object store of \<open>Examples\<close> as the outside of the node of the provisioner's runs.\<close>

definition beside_node :: "('w \<Rightarrow> 'a \<times> 'w) \<Rightarrow> 'w host \<Rightarrow> 'a \<times> 'w host" where
  "beside_node f s = (case f (h_outside s) of (x, w) \<Rightarrow> (x, s\<lparr> h_outside := w \<rparr>))"

definition node_client :: "store host client" where
  "node_client =
    \<lparr> cl_get_env = (\<lambda>k. beside_node (cl_get_env store_client k)),
      cl_get_catalog = (\<lambda>k. beside_node (cl_get_catalog store_client k)),
      cl_get_source = (\<lambda>k. beside_node (cl_get_source store_client k)),
      cl_get_pod = (\<lambda>k. beside_node (cl_get_pod store_client k)),
      cl_list_envs = (\<lambda>ns. beside_node (cl_list_envs store_client ns)),
      cl_list_catalogs = (\<lambda>ns. beside_node (cl_list_catalogs store_client ns)),
      cl_list_pods = beside_node (cl_list_pods store_client),
      cl_list_workloads = (\<lambda>kd. beside_node (cl_list_workloads store_client kd)),
      cl_patch_env_status = (\<lambda>base new. beside_node (cl_patch_env_status store_client base new)),
      cl_patch_env = (\<lambda>base new. beside_node (cl_patch_env store_client base new)),
      cl_update_env = (\<lambda>new. beside_node (cl_update_env store_client new)),
      cl_create_env = (\<lambda>new. beside_node (cl_create_env store_client new)),
      cl_patch_catalog_status = (\<lambda>base new. beside_node (cl_patch_catalog_status store_client base new)),
      cl_patch_workload = (\<lambda>base new. beside_node (cl_patch_workload store_client base new)),
      cl_update_pod = (\<lambda>p. beside_node (cl_update_pod store_client p)),
      cl_create_claim = (\<lambda>v. beside_node (cl_create_claim store_client v)),
      cl_lookup_host = (\<lambda>h. beside_node (cl_lookup_host store_client h)) \<rparr>"

definition exec_agent :: "store host env_reconciler" where
  "exec_agent =
    \<lparr> er_client = node_client, er_node_name = ''n1'',
      er_provisioner = (\<lambda>t q. run_state (Exec_Realize demo_tools demo_xp q)),
      er_realize_timeout = 0, er_realize_slots = 0,
      er_wait_slot = (\<lambda>w. (None, w)), er_free_slot = (\<lambda>w. ((), w)) \<rparr>"

definition node_with :: "store \<Rightarrow> store host" where
  "node_with w = \<lparr> h_fs = [], h_faults = [], h_outside = w, h_ran = [] \<rparr>"

text \<open>An env pinned to the lock the demonstration tools answer, and what its realise reports.\<close>

definition held_env :: floxenv where
  "held_env = (sample_env ''web'')\<lparr> fe_status := (fe_status (sample_env ''web''))\<lparr> st_lock := ''lock'' \<rparr> \<rparr>"

definition held_request :: realize_request where
  "held_request = web_request\<lparr> rr_lock := ''lock'' \<rparr>"

definition held_result :: realize_result where
  "held_result = \<lparr> rs_store_path = ''/nix/store/web'', rs_env_path = ''/envs/ns/web'',
     rs_gcroot_path = ''/roots/env/ns/web'', rs_lock = ''lock'' \<rparr>"

definition marked_held :: floxenv where
  "marked_held = with_ready store_libs held_env ConditionFalse ''Realizing'' ''realising the env closure on n1''"

definition realized_held :: floxenv where
  "realized_held = record_realized store_libs exec_agent [] held_result marked_held"

lemmas held_defs = held_env_def held_request_def held_result_def marked_held_def realized_held_def web_request_def

definition node_after :: "'w \<Rightarrow> 'w host" where
  "node_after w = snd (run_state (Exec_Realize demo_tools demo_xp held_request)
     \<lparr> h_fs = [], h_faults = [], h_outside = w, h_ran = [] \<rparr>)"

lemma held_run_exec:
  "case run_state (Exec_Realize demo_tools demo_xp held_request)
       \<lparr> h_fs = [], h_faults = [], h_outside = (w :: 'w :: equal), h_ran = [] \<rparr> of
     (r, h) \<Rightarrow> r = Inr held_result \<and> h_outside h = w"
  by code_simp

lemma held_run:
  "run_state (Exec_Realize demo_tools demo_xp held_request) \<lparr> h_fs = [], h_faults = [], h_outside = w, h_ran = [] \<rparr> =
     (Inr held_result, node_after w)" "h_outside (node_after w) = w" for w :: "'w :: equal"
  using held_run_exec [of w] by (simp_all add: node_after_def split_beta prod_eq_iff)

lemma held_trace:
  "trace_of (FloxEnv_Reconcile store_libs exec_agent web) (node_with (store_of [held_env])) =
     [GetFloxEnv web (Inr held_env), AcquireSlot None, PatchFloxEnvStatus held_env marked_held (Inr marked_held),
      Realize (30 * minute) held_request (Inr held_result),
      PatchFloxEnvStatus marked_held realized_held (Inr realized_held), ReleaseSlot]"
  by (simp add: trace_of_def go_defs held_defs exec_agent_def node_client_def beside_node_def node_with_def
      realize_timeout_def defaultRealizeTimeout_def
      held_run [unfolded held_request_def held_result_def web_request_def, simplified])

theorem ready_env_has_its_root_witness:
  "\<exists>nr t q w1 w2 res. lookup_by nr_node (er_node_name exec_agent) (st_realized (fe_status realized_held)) = Some nr \<and>
    Realize t q (Inr res) \<in> set (trace_of (FloxEnv_Reconcile store_libs exec_agent web) (node_with (store_of [held_env]))) \<and>
    run_state (Exec_Realize demo_tools demo_xp q) (w1 :: store host) = (Inr res, w2) \<and>
    map_of (h_fs w2) (gcrootPath demo_xp (rr_ref q)) = Some (LinkNode (nr_store_path nr)) \<and>
    nr_gcroot_path nr = path_string (gcrootPath demo_xp (rr_ref q))"
proof (rule ready_env_has_its_root [OF store_meta_laws])
  show "er_provisioner exec_agent = (\<lambda>t q. run_state (Exec_Realize demo_tools demo_xp q))"
    by (simp add: exec_agent_def)
  show "PatchFloxEnvStatus marked_held realized_held (Inr realized_held)
      \<in> set (trace_of (FloxEnv_Reconcile store_libs exec_agent web) (node_with (store_of [held_env])))"
    by (simp add: held_trace)
  show "IsStatusConditionTrue (lib_meta store_libs) (fe_conditions realized_held) ''Ready''"
    by (simp add: held_defs exec_agent_def go_defs)
  have "plain_ref (rr_ref held_request)" by code_simp
  then have "exec_serves demo_tools demo_xp held_request"
    by (simp add: exec_serves_def held_request_def web_request_def demo_xp_def)
  then show "\<forall>t q a. Realize t q a \<in> set (trace_of (FloxEnv_Reconcile store_libs exec_agent web)
      (node_with (store_of [held_env]))) \<longrightarrow> exec_serves demo_tools demo_xp q"
    by (simp add: held_trace)
qed

end
