(* ===== verification/EnvHistory.thy ===== *)
theory EnvHistory
  imports PodGateProperties FloxEnvProperties
begin

text \<open>
  The life of one FloxEnv object on the API server: the versions it goes through under edits of its
  spec, changes of its annotations, and the status writes of any number of node agents, each of which
  may be computed from any earlier version and lands on the current one as a merge patch. What every
  version satisfies is proved by rule induction, and carried over to the gate.
\<close>

subsection \<open>Versions\<close>

text \<open>Newest first.\<close>

inductive env_history :: "libs \<Rightarrow> 'w env_reconciler set \<Rightarrow> objkey \<Rightarrow> floxenv list \<Rightarrow> bool"
  for L :: libs and agents :: "'w env_reconciler set" and req :: objkey where
  created: "st_realized (fe_status e) = [] \<Longrightarrow> env_history L agents req [e]"
| spec_edited: "env_history L agents req (e # h) \<Longrightarrow>
    env_history L agents req (e\<lparr> fe_spec := spec, fe_meta := (fe_meta e)\<lparr> om_generation := fe_generation e + 1 \<rparr> \<rparr> # e # h)"
| annotated: "env_history L agents req (e # h) \<Longrightarrow>
    env_history L agents req (e\<lparr> fe_meta := (fe_meta e)\<lparr> om_annotations := annotations \<rparr> \<rparr> # e # h)"
| status_written: "env_history L agents req (e # h) \<Longrightarrow> base \<in> set (e # h) \<Longrightarrow> R \<in> agents \<Longrightarrow>
    PatchFloxEnvStatus base new r \<in> set (trace_of (FloxEnv_Reconcile L R req) w) \<Longrightarrow>
    env_history L agents req (merge_env base new e # e # h)"

inductive_cases env_history_NilE: "env_history L agents req []"

text \<open>
  A well-formed status: one entry per node, each ready. A backed one: every entry is what a pass of the
  node's agent recorded on a version of the object, after a realise of that pass that succeeded.
\<close>

definition wf_status :: "floxenv \<Rightarrow> bool" where
  "wf_status e \<longleftrightarrow> distinct (map nr_node (st_realized (fe_status e))) \<and> list_all nr_ready (st_realized (fe_status e))"

definition recorded_on :: "libs \<Rightarrow> 'w env_reconciler set \<Rightarrow> objkey \<Rightarrow> floxenv \<Rightarrow> node_realization \<Rightarrow> bool" where
  "recorded_on L agents req base nr \<longleftrightarrow> (\<exists>R w pre t q res rolls new r. R \<in> agents \<and>
     trace_of (FloxEnv_Reconcile L R req) w =
       pre @ Realize t q (Inr res) # rolls @ [PatchFloxEnvStatus base new r, ReleaseSlot] \<and>
     nr = node_entry R base res)"

definition version_ok :: "libs \<Rightarrow> 'w env_reconciler set \<Rightarrow> objkey \<Rightarrow> floxenv list \<Rightarrow> floxenv \<Rightarrow> bool" where
  "version_ok L agents req h e \<longleftrightarrow> wf_status e \<and> fe_generation e \<le> fe_generation (hd h) \<and>
     (\<forall>nr \<in> set (st_realized (fe_status e)). \<exists>base \<in> set h. recorded_on L agents req base nr)"

lemma version_ok_later:
  assumes "version_ok L agents req h e" "fe_generation (hd h) \<le> fe_generation e'"
  shows "version_ok L agents req (e' # h) e"
  using assms unfolding version_ok_def by fastforce

lemma version_ok_same_status:
  assumes "version_ok L agents req h e" "fe_status e' = fe_status e" "fe_generation e' = fe_generation (hd h)"
  shows "version_ok L agents req h e'"
  using assms by (simp add: version_ok_def wf_status_def)

text \<open>What a write records, whichever it is, is as good as the version it was computed from.\<close>

lemma written_status:
  assumes "version_ok L agents req h base" "base \<in> set h" "R \<in> agents"
    and "PatchFloxEnvStatus base new r \<in> set (trace_of (FloxEnv_Reconcile L R req) w)"
  shows "version_ok L agents req h new"
proof -
  from reconcile_writes [OF assms(4)] show ?thesis
  proof
    assume "not_ready_write L base new"
    then show ?thesis using assms(1) by (auto simp: not_ready_write_def version_ok_def wf_status_def)
  next
    assume "success_at L R req base new r (trace_of (FloxEnv_Reconcile L R req) w)"
    then obtain env pre rolls q res where
        evs: "trace_of (FloxEnv_Reconcile L R req) w =
          pre @ Realize (realize_timeout R) q (Inr res) # rolls @ [PatchFloxEnvStatus base new r, ReleaseSlot]"
      and new: "new = record_realized L R (relock_of env) res base"
      unfolding success_at_def by blast
    let ?nr = "node_entry R base res"
    have "recorded_on L agents req base ?nr" using assms(3) evs unfolding recorded_on_def by blast
    moreover have "nr_ready ?nr" by (simp add: node_entry_def)
    moreover have "set (upsert_list ?nr xs) \<subseteq> insert ?nr (set xs)" for xs
      by (induction xs) auto
    ultimately show ?thesis
      using assms(1,2) realized.distinct_ups [of "st_realized (fe_status base)" ?nr]
      unfolding new version_ok_def wf_status_def record_realized_fields list_all_iff by fastforce
  qed
qed

lemma merged_status:
  assumes "version_ok L agents req (e # h) new" "version_ok L agents req (e # h) e"
  shows "version_ok L agents req (e # h) (merge_env base new e)"
proof -
  have "st_realized (fe_status (merge_env base new e)) \<in> {st_realized (fe_status new), st_realized (fe_status e)}"
    "fe_generation (merge_env base new e) = fe_generation e"
    by (simp_all add: merge_env_def merge_status_def merge_field_def)
  then show ?thesis using assms by (auto simp: version_ok_def wf_status_def)
qed

lemma history_ok:
  "env_history L agents req h \<Longrightarrow> h \<noteq> [] \<and> (\<forall>e \<in> set h. version_ok L agents req h e)"
proof (induction rule: env_history.induct)
  case (created e)
  then show ?case by (simp add: version_ok_def wf_status_def)
next
  case (spec_edited e h spec)
  let ?e = "e\<lparr> fe_spec := spec, fe_meta := (fe_meta e)\<lparr> om_generation := fe_generation e + 1 \<rparr> \<rparr>"
  have all: "version_ok L agents req (?e # e # h) v" if "v \<in> set (e # h)" for v
    using spec_edited that by (intro version_ok_later [where h = "e # h"]) auto
  have "version_ok L agents req (?e # e # h) ?e"
    by (rule version_ok_same_status [OF all [of e]]) simp_all
  with all show ?case by auto
next
  case (annotated e h annotations)
  let ?e = "e\<lparr> fe_meta := (fe_meta e)\<lparr> om_annotations := annotations \<rparr> \<rparr>"
  have all: "version_ok L agents req (?e # e # h) v" if "v \<in> set (e # h)" for v
    using annotated that by (intro version_ok_later [where h = "e # h"]) auto
  have "version_ok L agents req (?e # e # h) ?e"
    by (rule version_ok_same_status [OF all [of e]]) simp_all
  with all show ?case by auto
next
  case (status_written e h base R new r w)
  have "version_ok L agents req (e # h) new"
    by (rule written_status [OF _ status_written(2-4)]) (use status_written in blast)
  then have merged: "version_ok L agents req (e # h) (merge_env base new e)"
    by (rule merged_status) (use status_written in simp)
  have gen: "fe_generation (merge_env base new e) = fe_generation e" by (simp add: merge_env_def)
  then have "version_ok L agents req (merge_env base new e # e # h) v" if "v = merge_env base new e \<or> v \<in> set (e # h)" for v
    using that merged status_written gen by (intro version_ok_later [where h = "e # h"]) auto
  then show ?case by auto
qed

text \<open>
  C4: Whatever agents race, with whatever stale versions in hand, every version of a FloxEnv has at
  most one entry per node, and every entry is exactly what a pass of that node's agent recorded: the paths
  answered by the realise of the pass, which succeeded, and the generation of the version of the object
  the pass wrote the entry on, which is one the object went through.
\<close>

theorem every_entry_was_realised:
  assumes "env_history L agents req (e # h)"
  shows "distinct (map nr_node (st_realized (fe_status e))) \<and>
    (\<forall>nr \<in> set (st_realized (fe_status e)). \<exists>base \<in> set (e # h). \<exists>R w pre t q res rolls new r. R \<in> agents \<and>
       trace_of (FloxEnv_Reconcile L R req) w =
         pre @ Realize t q (Inr res) # rolls @ [PatchFloxEnvStatus base new r, ReleaseSlot] \<and>
       nr = \<lparr> nr_node = er_node_name R, nr_ready = True, nr_store_path = rs_store_path res,
         nr_env_path = rs_env_path res, nr_gcroot_path = rs_gcroot_path res, nr_observed = fe_generation base \<rparr>)"
proof -
  have "version_ok L agents req (e # h) e" using history_ok [OF assms] by simp
  then show ?thesis unfolding version_ok_def wf_status_def recorded_on_def node_entry_def by blast
qed

lemma web_history: "env_history store_libs {agent} web [realized_web, marked_web, pinned_env ''web'']"
proof -
  have marked: "merge_env (pinned_env ''web'') marked_web (pinned_env ''web'') = marked_web"
    by (simp add: web_defs go_defs)
  have realized: "merge_env marked_web realized_web marked_web = realized_web"
    by (simp add: web_defs go_defs)
  have "env_history store_libs {agent} web [pinned_env ''web'']"
    by (rule created) (simp add: go_defs)
  from status_written [OF this, of "pinned_env ''web''" agent marked_web "Inr marked_web" "store_of [pinned_env ''web'']"]
  have "env_history store_libs {agent} web [marked_web, pinned_env ''web'']"
    by (simp add: marked pinned_trace)
  from status_written [OF this, of marked_web agent realized_web "Inr realized_web" "store_of [pinned_env ''web'']"]
  show ?thesis by (simp add: realized pinned_trace)
qed

theorem every_entry_was_realised_witness:
  "map nr_node (st_realized (fe_status realized_web)) = [''n1''] \<and>
   (\<exists>nr base R w pre t q res rolls new r. nr \<in> set (st_realized (fe_status realized_web)) \<and> R = agent \<and>
      base \<in> {realized_web, marked_web, pinned_env ''web''} \<and> nr_observed nr = fe_generation base \<and>
      trace_of (FloxEnv_Reconcile store_libs R web) w =
        pre @ Realize t q (Inr res) # rolls @ [PatchFloxEnvStatus base new r, ReleaseSlot])"
proof -
  have "map nr_node (st_realized (fe_status realized_web)) = [''n1'']" by (simp add: web_defs go_defs)
  moreover from this obtain nr where nr: "nr \<in> set (st_realized (fe_status realized_web))" by force
  moreover obtain base R w pre t q res rolls new r where base: "base \<in> set [realized_web, marked_web, pinned_env ''web'']"
      and "R \<in> {agent}" "trace_of (FloxEnv_Reconcile store_libs R web) w =
        pre @ Realize t q (Inr res) # rolls @ [PatchFloxEnvStatus base new r, ReleaseSlot]"
      "nr_observed nr = fe_generation base"
    using bspec [OF conjunct2 [OF every_entry_was_realised [OF web_history]] nr] by (elim bexE exE conjE) (rule that; simp)
  moreover from base have "base \<in> {realized_web, marked_web, pinned_env ''web''}" by simp
  ultimately show ?thesis by blast
qed

subsection \<open>The gate over histories\<close>

text \<open>
  C3: Pods land on nodes that built what they need. When every FloxEnv the gate is shown is a version
  of its history, a pod it releases, if it references an env at all, is narrowed to nodes each of
  which runs an agent that realised every one of the referenced envs with success.
\<close>

theorem pods_land_on_built_nodes:
  assumes "UpdatePod p r \<in> set (trace_of (PodGate_Reconcile C pod_req) w)"
    and "\<forall>envs env. ListFloxEnvs None (Inr envs) \<in> set (trace_of (PodGate_Reconcile C pod_req) w) \<and> env \<in> set envs \<longrightarrow>
      (\<exists>h. env_history L agents (env_key env) (env # h))"
  shows "\<exists>pod eligible. p = released pod eligible \<and> hasGate pod \<and>
    (eligible = [] \<longrightarrow> RefsFromAnnotations (pd_annotations pod) = []) \<and>
    (\<forall>ref \<in> set (RefsFromAnnotations (pd_annotations pod)). \<forall>n \<in> set eligible.
       \<exists>env R w' t q res. effectiveFolder env = ref_folder ref \<and> fe_name env = ref_name ref \<and>
         R \<in> agents \<and> er_node_name R = n \<and>
         Realize t q (Inr res) \<in> set (trace_of (FloxEnv_Reconcile L R (env_key env)) w'))"
proof -
  obtain pod pre eligible where g:
      "trace_of (PodGate_Reconcile C pod_req) w = GetPod pod_req (Inr pod) # pre @ [UpdatePod p r]"
      "hasGate pod" "p = released pod eligible" "eligible = [] \<longrightarrow> RefsFromAnnotations (pd_annotations pod) = []"
    and held: "\<forall>ref \<in> set (RefsFromAnnotations (pd_annotations pod)). \<forall>n \<in> set eligible.
       \<exists>envs env. ListFloxEnvs None (Inr envs) \<in> set pre \<and> env \<in> set envs \<and>
         effectiveFolder env = ref_folder ref \<and> fe_name env = ref_name ref \<and> realised_on n env"
    using gate_write [OF assms(1)] by blast
  define lands where "lands ref n \<longleftrightarrow> (\<exists>env R w' t q res. effectiveFolder env = ref_folder ref \<and> fe_name env = ref_name ref \<and>
         R \<in> agents \<and> er_node_name R = n \<and>
         Realize t q (Inr res) \<in> set (trace_of (FloxEnv_Reconcile L R (env_key env)) w'))" for ref n
  have "lands ref n"
    if at: "ref \<in> set (RefsFromAnnotations (pd_annotations pod))" "n \<in> set eligible" for ref n
  proof -
    obtain envs env where e: "ListFloxEnvs None (Inr envs) \<in> set pre" "env \<in> set envs"
        "effectiveFolder env = ref_folder ref" "fe_name env = ref_name ref" "realised_on n env"
      using held [rule_format, OF at] by blast
    then obtain h where "env_history L agents (env_key env) (env # h)" using assms(2) g(1) by auto
    from history_ok [OF this] have "version_ok L agents (env_key env) (env # h) env" by simp
    moreover obtain nr where nr: "nr \<in> set (st_realized (fe_status env))" "nr_node nr = n"
      using e(5) by (auto simp: realised_on_def list_ex_iff)
    ultimately obtain base where "recorded_on L agents (env_key env) base nr" unfolding version_ok_def by blast
    then obtain R w' pre t q res rolls new r where "R \<in> agents" "er_node_name R = n"
        "trace_of (FloxEnv_Reconcile L R (env_key env)) w' =
          pre @ Realize t q (Inr res) # rolls @ [PatchFloxEnvStatus base new r, ReleaseSlot]"
      using nr(2) by (auto simp: recorded_on_def node_entry_def)
    moreover from this have "Realize t q (Inr res) \<in> set (trace_of (FloxEnv_Reconcile L R (env_key env)) w')" by simp
    ultimately show ?thesis unfolding lands_def using e(3,4) by blast
  qed
  then have "\<forall>ref \<in> set (RefsFromAnnotations (pd_annotations pod)). \<forall>n \<in> set eligible. lands ref n" by blast
  then show ?thesis
    unfolding lands_def using g(2-4) by (intro exI [of _ pod], intro exI [of _ eligible], intro conjI) simp_all
qed

definition built_store :: store where
  "built_store = \<lparr> so_envs = [realized_web], so_catalogs = [], so_workloads = [], so_pods = [gated_pod] \<rparr>"

lemma built_trace:
  "trace_of (PodGate_Reconcile store_client pod_p) built_store =
    [GetPod pod_p (Inr gated_pod), ListFloxEnvs None (Inr [realized_web]), UpdatePod (released gated_pod [''n1'']) None]"
proof -
  have "hasGate gated_pod" by (simp add: gated_pod_def hasGate_def SchedulingGateName_def)
  moreover have "readyNodesForEnv realized_web = [''n1'']" "effectiveFolder realized_web = ''ns''" "fe_name realized_web = ''web''"
    by (simp_all add: web_defs go_defs readyNodesForEnv_def effectiveFolder_def)
  ultimately show ?thesis
    by (simp add: PodGate_Reconcile_def run_of_defs store_defs request_defs built_store_def gated_refs resolveFloxEnv_def
        matches_ref_def release_def Let_def)
      (simp add: gated_pod_def plain_meta_def)
qed

theorem pods_land_on_built_nodes_witness:
  "\<exists>pod eligible. released gated_pod [''n1''] = released pod eligible \<and> hasGate pod \<and>
    (eligible = [] \<longrightarrow> RefsFromAnnotations (pd_annotations pod) = []) \<and>
    (\<forall>ref \<in> set (RefsFromAnnotations (pd_annotations pod)). \<forall>n \<in> set eligible.
       \<exists>env R w' t q res. effectiveFolder env = ref_folder ref \<and> fe_name env = ref_name ref \<and>
         R \<in> {agent} \<and> er_node_name R = n \<and>
         Realize t q (Inr res) \<in> set (trace_of (FloxEnv_Reconcile store_libs R (env_key env)) w'))"
proof (rule pods_land_on_built_nodes)
  show "UpdatePod (released gated_pod [''n1'']) None \<in> set (trace_of (PodGate_Reconcile store_client pod_p) built_store)"
    by (simp add: built_trace)
  have "env_key realized_web = web" by (simp add: web_defs go_defs)
  then show "\<forall>envs env. ListFloxEnvs None (Inr envs) \<in> set (trace_of (PodGate_Reconcile store_client pod_p) built_store) \<and>
      env \<in> set envs \<longrightarrow> (\<exists>h. env_history store_libs {agent} (env_key env) (env # h))"
    using web_history by (auto simp: built_trace)
qed

end
