(* ===== verification/Wiring.thy ===== *)
theory Wiring
  imports FloxEnvController PodGate Catalog ExecProvisioner
begin

text \<open>
  \<open>cmd/flox-controller/main.go\<close> and the \<open>SetupWithManager\<close> methods: the flags, what a process
  registers with the manager of controller-runtime and in which order, when it gives up, and what the
  watches let through. The manager is a parameter: creating it, each registration and its run may
  fail. The two library predicates the watches use are a parameter too, with their documented laws.
\<close>

subsection \<open>Flags\<close>

record options =
  op_env_root :: string
  op_gcroot_base :: string
  op_ctr_bin :: string
  op_containerd_address :: string
  op_nsenter_bin :: string
  op_systemd_run_bin :: string
  op_base_carrier_namespace :: string
  op_enable_webhook :: bool
  op_nix_store_class :: string
  op_nix_store_size :: string

definition default_options :: "string list \<Rightarrow> options" where
  "default_options environ =
    \<lparr> op_env_root = ''/var/lib/flox-controller/envs'',
      op_gcroot_base = ''/nix/var/nix/gcroots/flox-runtime/env'',
      op_ctr_bin = ''/var/lib/rancher/rke2/bin/ctr'',
      op_containerd_address = ''/run/k3s/containerd/containerd.sock'',
      op_nsenter_bin = ''/usr/local/bin/nsenter'',
      op_systemd_run_bin = ''/run/current-system/sw/bin/systemd-run'',
      op_base_carrier_namespace =
        (if Getenv environ ''POD_NAMESPACE'' = [] then ''flox-system'' else Getenv environ ''POD_NAMESPACE''),
      op_enable_webhook = False,
      op_nix_store_class = ''openebs-zfs-shared'',
      op_nix_store_size = ''30Gi'' \<rparr>"

text \<open>The answers of the two \<open>os.Readlink\<close> calls on \<open>/proc/self/ns/mnt\<close> and \<open>/proc/1/ns/mnt\<close>.\<close>

definition inSeparateMountNamespaceFromInit :: "go_error + string \<Rightarrow> go_error + string \<Rightarrow> bool" where
  "inSeparateMountNamespaceFromInit own init =
     (case (own, init) of (Inr a, Inr b) \<Rightarrow> a \<noteq> b | _ \<Rightarrow> False)"

subsection \<open>Registration\<close>

text \<open>The fields of the structs \<open>main\<close> sets; the timeout and the slots of the agent it leaves at zero.\<close>

record agent_config =
  ag_node_name :: string
  ag_provisioner :: exec_provisioner
  ag_realize_timeout :: int
  ag_realize_slots :: int

datatype part =
    EnvAgent agent_config
  | CatalogAgent
  | PodWebhook string string string
  | GateAgent
  | CarrierEnsurer string
  | HealthzCheck
  | ReadyzCheck

definition provisioner_of :: "options \<Rightarrow> string \<Rightarrow> exec_provisioner" where
  "provisioner_of opts nsenter =
    \<lparr> xp_env_root = path_join [] [op_env_root opts], xp_gcroot_base = path_join [] [op_gcroot_base opts],
      xp_ctr_bin = op_ctr_bin opts, xp_containerd_address = op_containerd_address opts,
      xp_nsenter = nsenter, xp_systemd_run = op_systemd_run_bin opts \<rparr>"

definition agent_of :: "options \<Rightarrow> string \<Rightarrow> go_error + string \<Rightarrow> go_error + string \<Rightarrow> agent_config" where
  "agent_of opts node own init =
    \<lparr> ag_node_name = node,
      ag_provisioner = provisioner_of opts
        (if inSeparateMountNamespaceFromInit own init then op_nsenter_bin opts else []),
      ag_realize_timeout = 0, ag_realize_slots = 0 \<rparr>"

record 'w manager =
  mg_new :: "'w \<Rightarrow> go_error option \<times> 'w"
  mg_register :: "part \<Rightarrow> 'w \<Rightarrow> go_error option \<times> 'w"
  mg_start :: "'w \<Rightarrow> go_error option \<times> 'w"

text \<open>A process: the parts registered so far and whether the manager was started.\<close>

record 'w process =
  pr_world :: 'w
  pr_parts :: "part list"
  pr_started :: bool

definition exit_1 :: "('w process, int) state" where
  "exit_1 = State_Monad.return 1"

definition register :: "'w manager \<Rightarrow> part \<Rightarrow> ('w process, int) state \<Rightarrow> ('w process, int) state" where
  "register M p k = do {
     failed \<leftarrow> State (\<lambda>s. case mg_register M p (pr_world s) of
       (Some e, w) \<Rightarrow> (True, s\<lparr> pr_world := w \<rparr>)
     | (None, w) \<Rightarrow> (False, s\<lparr> pr_world := w, pr_parts := pr_parts s @ [p] \<rparr>));
     if failed then exit_1 else k
   }"

definition start_manager :: "'w manager \<Rightarrow> ('w process, int) state" where
  "start_manager M = State (\<lambda>s. case mg_start M (pr_world s) of
     (r, w) \<Rightarrow> (if r = None then 0 else 1, s\<lparr> pr_world := w, pr_started := True \<rparr>))"

definition main_process ::
  "'w manager \<Rightarrow> options \<Rightarrow> string \<Rightarrow> go_error + string \<Rightarrow> go_error + string \<Rightarrow> ('w process, int) state" where
  "main_process M opts node own init = do {
     r \<leftarrow> State (\<lambda>s. case mg_new M (pr_world s) of (r, w) \<Rightarrow> (r, s\<lparr> pr_world := w \<rparr>));
     if r \<noteq> None then exit_1
     else
       let finish = register M (CarrierEnsurer (op_base_carrier_namespace opts))
             (register M HealthzCheck (register M ReadyzCheck (start_manager M)))
       in register M (EnvAgent (agent_of opts node own init)) (register M CatalogAgent
            (if op_enable_webhook opts
             then register M (PodWebhook (op_base_carrier_namespace opts) (op_nix_store_class opts) (op_nix_store_size opts))
               (register M GateAgent finish)
             else finish))
   }"

subsection \<open>Watches\<close>

record predicates =
  GenerationChangedPredicate :: "object_meta \<Rightarrow> object_meta \<Rightarrow> bool"
  AnnotationChangedPredicate :: "object_meta \<Rightarrow> object_meta \<Rightarrow> bool"

definition predicate_laws :: "predicates \<Rightarrow> bool" where
  "predicate_laws P \<longleftrightarrow>
     (\<forall>old new. GenerationChangedPredicate P old new \<longleftrightarrow> om_generation old \<noteq> om_generation new) \<and>
     (\<forall>old new. AnnotationChangedPredicate P old new \<longleftrightarrow> map_of (om_annotations old) \<noteq> map_of (om_annotations new))"

definition realisationChange :: "predicates \<Rightarrow> floxenv \<Rightarrow> floxenv \<Rightarrow> bool" where
  "realisationChange P old new \<longleftrightarrow>
     GenerationChangedPredicate P (fe_meta old) (fe_meta new) \<or> AnnotationChangedPredicate P (fe_meta old) (fe_meta new)"

definition catalogChange :: "predicates \<Rightarrow> floxcatalog \<Rightarrow> floxcatalog \<Rightarrow> bool" where
  "catalogChange P old new \<longleftrightarrow> GenerationChangedPredicate P (fc_meta old) (fc_meta new)"

text \<open>\<open>None\<close> stands for an object that is not a pod.\<close>

definition gatedOnly :: "pod option \<Rightarrow> bool" where
  "gatedOnly obj = (case obj of None \<Rightarrow> False | Some pod \<Rightarrow> hasGate pod)"

subsection \<open>What a process runs\<close>

definition planned_parts :: "options \<Rightarrow> string \<Rightarrow> go_error + string \<Rightarrow> go_error + string \<Rightarrow> part list" where
  "planned_parts opts node own init =
     [EnvAgent (agent_of opts node own init), CatalogAgent] @
     (if op_enable_webhook opts
      then [PodWebhook (op_base_carrier_namespace opts) (op_nix_store_class opts) (op_nix_store_size opts), GateAgent]
      else []) @
     [CarrierEnsurer (op_base_carrier_namespace opts), HealthzCheck, ReadyzCheck]"

text \<open>
  \<open>registers M ps m\<close>: whatever the manager answers, \<open>m\<close> registers the parts \<open>ps\<close> in order and starts the
  manager, or stops at the first refusal with exit code 1, having registered the ones before.
\<close>

definition registers :: "part list \<Rightarrow> ('w process, int) state \<Rightarrow> bool" where
  "registers ps m \<longleftrightarrow> (\<forall>s. \<not> pr_started s \<longrightarrow> (case run_state m s of (code, t) \<Rightarrow>
     if pr_started t then pr_parts t = pr_parts s @ ps
     else code = 1 \<and> (\<exists>done rest. ps = done @ rest \<and> rest \<noteq> [] \<and> pr_parts t = pr_parts s @ done)))"

lemma registers_start: "registers [] (start_manager M)"
  by (simp add: registers_def start_manager_def split: prod.split)

lemma registers_register: "registers ps k \<Longrightarrow> registers (p # ps) (register M p k)"
  unfolding registers_def
proof (intro allI impI)
  fix s :: "'a process"
  assume k: "\<forall>s. \<not> pr_started s \<longrightarrow> (case run_state k s of (code, t) \<Rightarrow>
     if pr_started t then pr_parts t = pr_parts s @ ps
     else code = 1 \<and> (\<exists>done rest. ps = done @ rest \<and> rest \<noteq> [] \<and> pr_parts t = pr_parts s @ done))"
    and s: "\<not> pr_started s"
  obtain r w where r: "mg_register M p (pr_world s) = (r, w)" by fastforce
  show "case run_state (register M p k) s of (code, t) \<Rightarrow>
     if pr_started t then pr_parts t = pr_parts s @ p # ps
     else code = 1 \<and> (\<exists>done rest. p # ps = done @ rest \<and> rest \<noteq> [] \<and> pr_parts t = pr_parts s @ done)"
  proof (cases r)
    case (Some e)
    then show ?thesis using s r by (simp add: register_def exit_1_def)
  next
    case None
    let ?s = "s\<lparr> pr_world := w, pr_parts := pr_parts s @ [p] \<rparr>"
    obtain code t where t: "run_state k ?s = (code, t)" by fastforce
    have run: "run_state (register M p k) s = (code, t)" using r None t by (simp add: register_def)
    show ?thesis
    proof (cases "pr_started t")
      case True
      then show ?thesis using k [rule_format, of ?s] s t run by simp
    next
      case False
      then obtain ds rest where "code = 1" "ps = ds @ rest" "rest \<noteq> []" "pr_parts t = (pr_parts s @ [p]) @ ds"
        using k [rule_format, of ?s] s t by auto
      then show ?thesis using run False by (auto intro!: exI [of _ "p # ds"] exI [of _ rest])
    qed
  qed
qed

lemma main_registers:
  assumes "mg_new M w = (None, w')" "run_state (main_process M opts node own init) \<lparr> pr_world = w, pr_parts = [], pr_started = False \<rparr> = (code, t)"
  shows "if pr_started t then pr_parts t = planned_parts opts node own init
    else code = 1 \<and> (\<exists>done rest. planned_parts opts node own init = done @ rest \<and> rest \<noteq> [] \<and> pr_parts t = done)"
proof -
  have "registers (planned_parts opts node own init) (register M (EnvAgent (agent_of opts node own init)) (register M CatalogAgent
      (if op_enable_webhook opts
       then register M (PodWebhook (op_base_carrier_namespace opts) (op_nix_store_class opts) (op_nix_store_size opts))
         (register M GateAgent (register M (CarrierEnsurer (op_base_carrier_namespace opts))
           (register M HealthzCheck (register M ReadyzCheck (start_manager M)))))
       else register M (CarrierEnsurer (op_base_carrier_namespace opts))
         (register M HealthzCheck (register M ReadyzCheck (start_manager M))))))"
    unfolding planned_parts_def by (auto intro!: registers_register registers_start)
  then show ?thesis
    using assms unfolding registers_def main_process_def Let_def
    by (auto dest!: spec [of _ "\<lparr> pr_world = w', pr_parts = [], pr_started = False \<rparr>"])
qed

text \<open>
  C34: A process serves as a whole or exits. When the manager is started, everything the flags ask for
  is registered, the webhook exactly with the gate reconciler that releases what it holds back, both
  reading the namespace the carrier is ensured in; when any registration is refused the process exits
  with code 1 and the manager never runs, so no pod is gated by a process that could not release it.
\<close>

theorem process_serves_whole_or_exits:
  assumes "run_state (main_process M opts node own init) \<lparr> pr_world = w, pr_parts = [], pr_started = False \<rparr> = (code, t)"
  shows "(pr_started t \<and> pr_parts t = planned_parts opts node own init \<and>
       ((\<exists>ns c s. PodWebhook ns c s \<in> set (pr_parts t)) = (GateAgent \<in> set (pr_parts t))) \<and>
       (GateAgent \<in> set (pr_parts t)) = op_enable_webhook opts) \<or>
    (code = 1 \<and> pr_started t = False)"
proof (cases "mg_new M w")
  case (Pair r w')
  show ?thesis
  proof (cases r)
    case None
    from main_registers [OF Pair [unfolded None] assms] show ?thesis
      by (cases "pr_started t") (auto simp: planned_parts_def)
  next
    case (Some e)
    then show ?thesis using assms Pair by (auto simp: main_process_def exit_1_def)
  qed
qed

text \<open>A manager that refuses nothing.\<close>

definition willing_manager :: "unit manager" where
  "willing_manager = \<lparr> mg_new = (\<lambda>w. (None, w)), mg_register = (\<lambda>p w. (None, w)), mg_start = (\<lambda>w. (None, w)) \<rparr>"

definition webhook_options :: options where
  "webhook_options = (default_options [])\<lparr> op_enable_webhook := True \<rparr>"

theorem process_serves_whole_or_exits_witness:
  "\<exists>code t. run_state (main_process willing_manager webhook_options ''n1'' (Inr ''mnt:1'') (Inr ''mnt:2''))
      \<lparr> pr_world = (), pr_parts = [], pr_started = False \<rparr> = (code, t) \<and> pr_started t \<and> GateAgent \<in> set (pr_parts t)"
proof -
  obtain code t where run: "run_state (main_process willing_manager webhook_options ''n1'' (Inr ''mnt:1'') (Inr ''mnt:2''))
      \<lparr> pr_world = (), pr_parts = [], pr_started = False \<rparr> = (code, t)"
    by fastforce
  have "pr_started t"
    using run by (auto simp: main_process_def register_def start_manager_def willing_manager_def webhook_options_def Let_def)
  moreover have "op_enable_webhook webhook_options" by (simp add: webhook_options_def)
  ultimately show ?thesis using process_serves_whole_or_exits [OF run] run by blast
qed

end
