(* ===== verification/Watches.thy ===== *)
theory Watches
  imports Wiring Examples
begin

text \<open>
  The \<open>SetupWithManager\<close> methods of the three controllers: which change of which object wakes which
  keys. The builder and the handlers belong to controller-runtime; of what it documents the code relies
  on this: a predicate on updates passes creations and deletions, a predicate made from a filter
  judges an update by its new object, and a map function is called with each object of a change.
\<close>

subsection \<open>Changes\<close>

datatype 'a change = Created 'a | Updated (old_object: 'a) (new_object: 'a) | Deleted 'a

fun update_passes :: "('a \<Rightarrow> 'a \<Rightarrow> bool) \<Rightarrow> 'a change \<Rightarrow> bool" where
  "update_passes p (Updated old new) = p old new"
| "update_passes p _ = True"

fun filter_passes :: "('a \<Rightarrow> bool) \<Rightarrow> 'a change \<Rightarrow> bool" where
  "filter_passes f (Created x) = f x"
| "filter_passes f (Updated old new) = f new"
| "filter_passes f (Deleted x) = f x"

fun objects_of :: "'a change \<Rightarrow> 'a list" where
  "objects_of (Created x) = [x]"
| "objects_of (Updated old new) = [old, new]"
| "objects_of (Deleted x) = [x]"

text \<open>The change from one state of a key to the next, \<open>None\<close> where there is no object.\<close>

fun change_of :: "'a option \<Rightarrow> 'a option \<Rightarrow> 'a change option" where
  "change_of None None = None"
| "change_of None (Some x) = Some (Created x)"
| "change_of (Some x) None = Some (Deleted x)"
| "change_of (Some x) (Some y) = Some (Updated x y)"

fun map_each :: "('a \<Rightarrow> ('w st, 'k list) state) \<Rightarrow> 'a list \<Rightarrow> ('w st, 'k list) state" where
  "map_each f [] = State_Monad.return []"
| "map_each f (x # xs) = do {
     ks \<leftarrow> f x;
     rest \<leftarrow> map_each f xs;
     State_Monad.return (ks @ rest)
   }"

subsection \<open>What wakes whom\<close>

definition env_agent_wakes :: "predicates \<Rightarrow> floxenv change \<Rightarrow> objkey list" where
  "env_agent_wakes P ch = (if update_passes (realisationChange P) ch then [env_key (hd (objects_of ch))] else [])"

definition catalog_agent_wakes :: "predicates \<Rightarrow> floxcatalog change \<Rightarrow> objkey list" where
  "catalog_agent_wakes P ch = (if update_passes (catalogChange P) ch then [catalog_key (hd (objects_of ch))] else [])"

text \<open>A source is seen as its key; every change of it is mapped.\<close>

definition source_wakes_catalogs :: "'w client \<Rightarrow> objkey change \<Rightarrow> ('w st, objkey list) state" where
  "source_wakes_catalogs C ch = map_each (catalogsForSource C) (objects_of ch)"

definition env_wakes_catalogs :: "meta_api \<Rightarrow> 'w client \<Rightarrow> floxenv change \<Rightarrow> ('w st, objkey list) state" where
  "env_wakes_catalogs M C ch =
     (if update_passes (\<lambda>old new. envReadinessChange M (Some old) (Some new)) ch
      then map_each (catalogsForEnv C) (objects_of ch) else State_Monad.return [])"

definition gate_agent_wakes :: "pod change \<Rightarrow> objkey list" where
  "gate_agent_wakes ch = (if filter_passes (\<lambda>p. gatedOnly (Some p)) ch then [pod_key (hd (objects_of ch))] else [])"

definition env_wakes_gate :: "'w client \<Rightarrow> floxenv change \<Rightarrow> ('w st, objkey list) state" where
  "env_wakes_gate C ch = map_each (gatedPodsForEnv C) (objects_of ch)"

subsection \<open>Who is woken by the controllers' own writes\<close>

lemma map_of_update_neq: "map_of m \<noteq> map_of (AList.update k v m) \<longleftrightarrow> map_of m k \<noteq> Some v"
  by (auto simp: AList.update_conv' fun_eq_iff)

lemma trace_of_return [simp]: "trace_of (State_Monad.return x) w = []" "outcome_of (State_Monad.return x) w = x"
  by (simp_all add: trace_of_def outcome_of_def start_def)

lemma readiness_of_conditions: "fe_conditions e = fe_conditions e' \<Longrightarrow> readiness M e = readiness M e'"
  by (simp add: readiness_def)

lemma env_watch:
  assumes "predicate_laws P"
  shows "env_agent_wakes P (Updated old new) =
    (if fe_generation old \<noteq> fe_generation new \<or> map_of (fe_annotations old) \<noteq> map_of (fe_annotations new)
     then [env_key old] else [])"
  using assms by (simp add: env_agent_wakes_def realisationChange_def predicate_laws_def)

lemma catalog_watch:
  assumes "predicate_laws P"
  shows "catalog_agent_wakes P (Updated old new) =
    (if om_generation (fc_meta old) \<noteq> om_generation (fc_meta new) then [catalog_key old] else [])"
  using assms by (simp add: catalog_agent_wakes_def catalogChange_def predicate_laws_def)

text \<open>
  C29: What the controllers write wakes whom it concerns and no one else. The status write of a node
  agent, of whichever node and computed from whichever version, wakes no node agent, and it wakes
  catalogs only if it moves the env's readiness. The stamp of a catalog wakes the agents of the env
  exactly if it is new to the env, and no catalog. The status write of a catalog does not wake it. An
  edit of a spec wakes the agents.
\<close>

theorem writes_wake_whom_they_concern:
  assumes "predicate_laws P"
  shows "env_agent_wakes P (Updated env (merge_env base new env)) = [] \<and>
    (readiness M (merge_env base new env) = readiness M env \<longrightarrow>
       outcome_of (env_wakes_catalogs M C (Updated env (merge_env base new env))) w = [] \<and>
       trace_of (env_wakes_catalogs M C (Updated env (merge_env base new env))) w = []) \<and>
    env_agent_wakes P (Updated env (with_relock revision env)) =
      (if map_of (fe_annotations env) ''flox.seedmatic.io/relock'' = Some revision then [] else [env_key env]) \<and>
    outcome_of (env_wakes_catalogs M C (Updated env (with_relock revision env))) w = [] \<and>
    catalog_agent_wakes P (Updated cat (resolved_catalog M cat revision url ref rollup)) = [] \<and>
    catalog_agent_wakes P (Updated cat (catalog_ready M cat status reason msg)) = [] \<and>
    env_agent_wakes P (Updated env (env\<lparr> fe_spec := spec, fe_meta := (fe_meta env)\<lparr> om_generation := fe_generation env + 1 \<rparr> \<rparr>)) =
      [env_key env]"
proof -
  have "readiness M (with_relock revision env) = readiness M env"
    by (rule readiness_of_conditions) (simp add: with_relock_def)
  then show ?thesis
    using map_of_update_neq [of "fe_annotations env" relockAnnotation revision] unfolding env_watch [OF assms] catalog_watch [OF assms]
    by (simp add: env_wakes_catalogs_def envReadinessChange_def merge_env_def with_relock_def resolved_catalog_def
        catalog_ready_def relockAnnotation_def)
qed

definition update_predicates :: predicates where
  "update_predicates =
    \<lparr> GenerationChangedPredicate = (\<lambda>old new. om_generation old \<noteq> om_generation new),
      AnnotationChangedPredicate = (\<lambda>old new. map_of (om_annotations old) \<noteq> map_of (om_annotations new)) \<rparr>"

lemma update_predicate_laws: "predicate_laws update_predicates"
  by (simp add: predicate_laws_def update_predicates_def)

theorem writes_wake_whom_they_concern_witness:
  "env_agent_wakes update_predicates (Updated (sample_env ''web'') (with_relock ''r2'' (sample_env ''web''))) = [web] \<and>
   env_agent_wakes update_predicates (Updated (sample_env ''web'') (merge_env (sample_env ''web'') (pinned_env ''web'') (sample_env ''web''))) = []"
proof -
  have "map_of (fe_annotations (sample_env ''web'')) ''flox.seedmatic.io/relock'' = None" "env_key (sample_env ''web'') = web"
    by (simp_all add: object_defs env_key_def)
  moreover note writes_wake_whom_they_concern [OF update_predicate_laws, where env = "sample_env ''web''" and base = "sample_env ''web''"
    and new = "pinned_env ''web''" and revision = "''r2''", THEN conjunct1]
  moreover note writes_wake_whom_they_concern [OF update_predicate_laws, where env = "sample_env ''web''" and revision = "''r2''",
    THEN conjunct2, THEN conjunct2, THEN conjunct1]
  ultimately show ?thesis by simp
qed

end
