(* ===== verification/Registration.thy ===== *)
theory Registration
  imports Kube
begin

text \<open>
  \<open>api/v1alpha1/groupversion_info.go\<close>, the \<open>init\<close> functions of the API package and of \<open>main.go\<close>: the
  scheme, which gives each Go type its group, version and kind. A type is its package and its name. The
  scheme and its builders belong to apimachinery and client-go; what the code relies on of them is
  \<open>scheme_laws\<close>.
\<close>

type_synonym go_type = "string \<times> string"

record kind =
  kd_group :: string
  kd_version :: string
  kd_kind :: string

type_synonym scheme = "go_type \<rightharpoonup> kind"

record scheme_libs =
  AddKnownTypes :: "string \<times> string \<Rightarrow> go_type list \<Rightarrow> scheme \<Rightarrow> go_error + scheme"
  clientgoscheme_AddToScheme :: "scheme \<Rightarrow> go_error + scheme"

subsection \<open>The API group\<close>

definition GroupVersion :: "string \<times> string" where
  "GroupVersion = (''flox.seedmatic.io'', ''v1alpha1'')"

text \<open>The source of a catalog is read without a Go type, as an object of this kind.\<close>

definition gitRepositoryGVK :: kind where
  "gitRepositoryGVK = \<lparr> kd_group = ''source.toolkit.fluxcd.io'', kd_version = ''v1'', kd_kind = ''GitRepository'' \<rparr>"

text \<open>
  The scheme builder of the package holds the types registered so far; each types file adds its own
  when the package is initialised.
\<close>

definition Register :: "go_type list \<Rightarrow> go_type list \<Rightarrow> go_type list" where
  "Register types builder = builder @ types"

definition floxcatalog_types_init :: "go_type list \<Rightarrow> go_type list" where
  "floxcatalog_types_init = Register [(''v1alpha1'', ''FloxCatalog''), (''v1alpha1'', ''FloxCatalogList'')]"

definition floxenv_types_init :: "go_type list \<Rightarrow> go_type list" where
  "floxenv_types_init = Register [(''v1alpha1'', ''FloxEnv''), (''v1alpha1'', ''FloxEnvList'')]"

definition SchemeBuilder :: "go_type list" where
  "SchemeBuilder = floxenv_types_init (floxcatalog_types_init [])"

definition AddToScheme :: "scheme_libs \<Rightarrow> scheme \<Rightarrow> go_error + scheme" where
  "AddToScheme S = AddKnownTypes S GroupVersion SchemeBuilder"

text \<open>The \<open>init\<close> of \<open>main\<close>; an error panics in \<open>utilruntime.Must\<close>.\<close>

definition main_init :: "scheme_libs \<Rightarrow> go_error + scheme" where
  "main_init S = (case clientgoscheme_AddToScheme S (\<lambda>_. None) of
     Inl e \<Rightarrow> Inl e
   | Inr s \<Rightarrow> AddToScheme S s)"

subsection \<open>Every request has a kind\<close>

text \<open>The types of client-go the controllers send and ask for.\<close>

definition client_go_kinds :: scheme where
  "client_go_kinds = map_of (map (\<lambda>n. ((''corev1'', n), \<lparr> kd_group = [], kd_version = ''v1'', kd_kind = n \<rparr>))
       [''Pod'', ''PodList'', ''PersistentVolumeClaim''] @
     map (\<lambda>n. ((''appsv1'', n), \<lparr> kd_group = ''apps'', kd_version = ''v1'', kd_kind = n \<rparr>))
       [''Deployment'', ''DeploymentList'', ''DaemonSet'', ''DaemonSetList'', ''StatefulSet'', ''StatefulSetList''])"

definition scheme_laws :: "scheme_libs \<Rightarrow> bool" where
  "scheme_laws S \<longleftrightarrow>
     (\<forall>g v types s s'. AddKnownTypes S (g, v) types s = Inr s' \<longrightarrow>
        (\<forall>t. s' t = (if t \<in> set types then Some \<lparr> kd_group = g, kd_version = v, kd_kind = snd t \<rparr> else s t))) \<and>
     (\<forall>s s'. clientgoscheme_AddToScheme S s = Inr s' \<longrightarrow> client_go_kinds \<subseteq>\<^sub>m s')"

fun workload_type :: "workload_kind \<Rightarrow> string" where
  "workload_type Deployment = ''Deployment''"
| "workload_type DaemonSet = ''DaemonSet''"
| "workload_type StatefulSet = ''StatefulSet''"

text \<open>
  The Go type of the object each request is made with; the requests for a source, to the node and to the
  resolver are made with none.
\<close>

fun request_type :: "event \<Rightarrow> go_type option" where
  "request_type (GetFloxEnv k r) = Some (''v1alpha1'', ''FloxEnv'')"
| "request_type (GetFloxCatalog k r) = Some (''v1alpha1'', ''FloxCatalog'')"
| "request_type (GetPod k r) = Some (''corev1'', ''Pod'')"
| "request_type (ListFloxEnvs ns r) = Some (''v1alpha1'', ''FloxEnvList'')"
| "request_type (ListFloxCatalogs ns r) = Some (''v1alpha1'', ''FloxCatalogList'')"
| "request_type (ListPods r) = Some (''corev1'', ''PodList'')"
| "request_type (ListWorkloads kd r) = Some (''appsv1'', workload_type kd @ ''List'')"
| "request_type (PatchFloxEnvStatus base new r) = Some (''v1alpha1'', ''FloxEnv'')"
| "request_type (PatchFloxEnv base new r) = Some (''v1alpha1'', ''FloxEnv'')"
| "request_type (UpdateFloxEnv new r) = Some (''v1alpha1'', ''FloxEnv'')"
| "request_type (CreateFloxEnv new r) = Some (''v1alpha1'', ''FloxEnv'')"
| "request_type (PatchFloxCatalogStatus base new r) = Some (''v1alpha1'', ''FloxCatalog'')"
| "request_type (PatchWorkload base new r) = Some (''appsv1'', workload_type (wl_kind new))"
| "request_type (UpdatePod p r) = Some (''corev1'', ''Pod'')"
| "request_type (CreateClaim v r) = Some (''corev1'', ''PersistentVolumeClaim'')"
| "request_type _ = None"

lemmas builder_defs = SchemeBuilder_def floxenv_types_init_def floxcatalog_types_init_def Register_def

definition client_go_types :: "go_type list" where
  "client_go_types = [(''corev1'', ''Pod''), (''corev1'', ''PodList''), (''corev1'', ''PersistentVolumeClaim''),
     (''appsv1'', ''Deployment''), (''appsv1'', ''DeploymentList''), (''appsv1'', ''DaemonSet''),
     (''appsv1'', ''DaemonSetList''), (''appsv1'', ''StatefulSet''), (''appsv1'', ''StatefulSetList'')]"

lemma client_go_dom: "dom client_go_kinds = set client_go_types"
  unfolding client_go_kinds_def dom_map_of_conv_image_fst by (simp add: client_go_types_def)

lemma request_types: "request_type ev = Some t \<Longrightarrow> t \<in> set SchemeBuilder \<or> t \<in> set client_go_types"
proof (induction ev rule: request_type.induct)
  case (7 kd r)
  then show ?case by (cases kd) (simp_all add: client_go_types_def)
next
  case (13 base new r)
  then show ?case by (cases "wl_kind new") (simp_all add: client_go_types_def)
qed (simp_all add: builder_defs client_go_types_def)

lemma own_package: "t \<in> set SchemeBuilder \<Longrightarrow> fst t = ''v1alpha1''" "t \<in> set client_go_types \<Longrightarrow> fst t \<noteq> ''v1alpha1''"
  by (auto simp: builder_defs client_go_types_def)

text \<open>
  When the process has passed its \<open>init\<close>, whatever it sends is sent for a type the scheme knows: the
  types of this group under the group's name and version, the others as client-go has them.
\<close>

theorem every_request_has_a_kind:
  assumes "scheme_laws S" "main_init S = Inr s" "request_type ev = Some t"
  shows "s t = (if fst t = ''v1alpha1''
    then Some \<lparr> kd_group = ''flox.seedmatic.io'', kd_version = ''v1alpha1'', kd_kind = snd t \<rparr>
    else client_go_kinds t) \<and> s t \<noteq> None"
proof -
  obtain s0 where s0: "clientgoscheme_AddToScheme S (\<lambda>_. None) = Inr s0"
      "AddKnownTypes S (''flox.seedmatic.io'', ''v1alpha1'') SchemeBuilder s0 = Inr s"
    using assms(2) by (auto simp: main_init_def AddToScheme_def GroupVersion_def split: sum.splits)
  have own: "s u = (if u \<in> set SchemeBuilder
      then Some \<lparr> kd_group = ''flox.seedmatic.io'', kd_version = ''v1alpha1'', kd_kind = snd u \<rparr> else s0 u)" for u
    using assms(1) s0(2) unfolding scheme_laws_def by blast
  have lib: "s0 u = client_go_kinds u \<and> s0 u \<noteq> None" if "u \<in> set client_go_types" for u
    using assms(1) s0(1) that unfolding scheme_laws_def map_le_def client_go_dom [symmetric] by (metis domD domIff)
  show ?thesis
    using request_types [OF assms(3)] own [of t] lib [of t] own_package [of t] by auto
qed

text \<open>A scheme that keeps what it is given.\<close>

definition plain_scheme :: scheme_libs where
  "plain_scheme =
    \<lparr> AddKnownTypes = (\<lambda>gv types s. Inr (\<lambda>t. if t \<in> set types
        then Some \<lparr> kd_group = fst gv, kd_version = snd gv, kd_kind = snd t \<rparr> else s t)),
      clientgoscheme_AddToScheme = (\<lambda>s. Inr (s ++ client_go_kinds)) \<rparr>"

theorem every_request_has_a_kind_witness:
  "\<exists>s. main_init plain_scheme = Inr s \<and> s (''v1alpha1'', ''FloxEnv'') =
    Some \<lparr> kd_group = ''flox.seedmatic.io'', kd_version = ''v1alpha1'', kd_kind = ''FloxEnv'' \<rparr>"
proof -
  have laws: "scheme_laws plain_scheme" by (auto simp: scheme_laws_def plain_scheme_def map_le_def)
  obtain s where s: "main_init plain_scheme = Inr s" by (simp add: main_init_def AddToScheme_def plain_scheme_def)
  have "request_type (GetFloxEnv (ObjKey [] []) (Inl (OtherErr []))) = Some (''v1alpha1'', ''FloxEnv'')" by simp
  from every_request_has_a_kind [OF laws s this] s show ?thesis by simp
qed

end
