(* ===== verification/GoHeap.thy ===== *)
theory GoHeap
  imports Api "HOL-Library.State_Monad"
begin

text \<open>
  Go memory, for the code whose correctness rests on what is shared and what is copied. A heap is a
  list of cells; an address is an index, and allocation appends. A cell is what a pointer, a map or
  the backing array of a slice refers to; a struct is the value its variable holds. A \<open>shape\<close> says of
  a Go type when a value is well formed in a heap, what it means as a value of the model (\<open>Api\<close>), and
  which cells it reaches; the locale \<open>go_type\<close> has the one law a shape needs.
\<close>

subsection \<open>Structs with references\<close>

type_synonym addr = nat

text \<open>A slice is nil or the first elements of a backing array, which may have room for more.\<close>

datatype slice = NilSlice | Slice addr nat

record go_meta =
  gm_name :: string
  gm_namespace :: string
  gm_generation :: int
  gm_annotations :: "addr option"
  gm_labels :: "addr option"

record go_raw =
  gr_raw :: slice

record go_secret =
  gk_name :: string
  gk_key :: string
  gk_optional :: "addr option"

record go_inject =
  gi_name :: string
  gi_value :: string
  gi_secret :: "addr option"

record go_spec =
  gs_consumption :: string
  gs_manifest :: "addr option"
  gs_update :: "addr option"
  gs_folder :: string
  gs_depends_on :: slice
  gs_inject :: slice

record go_status =
  gt_lock :: string
  gt_relock_token :: string
  gt_resolved :: "addr option"
  gt_realized :: slice
  gt_conditions :: slice

record go_env =
  ge_meta :: go_meta
  ge_spec :: go_spec
  ge_status :: go_status

record go_catalog_status =
  gct_revision :: string
  gct_artifact_url :: string
  gct_flake_ref :: string
  gct_envs_summary :: string
  gct_envs :: slice
  gct_conditions :: slice

record go_catalog =
  gc_meta :: go_meta
  gc_spec :: floxcatalog_spec
  gc_status :: go_catalog_status

record go_list =
  gl_items :: slice

datatype cell =
    MapCell strmap
  | BytesCell string
  | StringsCell "string list"
  | RawCell go_raw
  | UpdateCell update_policy
  | BoolCell bool
  | SecretCell go_secret
  | InjectsCell "go_inject list"
  | RealizedCell "node_realization list"
  | ConditionsCell "condition list"
  | PhasesCell "floxenv_phase list"
  | EnvsCell "go_env list"
  | CatalogsCell "go_catalog list"

type_synonym heap = "cell list"

text \<open>What a cell of each type holds.\<close>

definition map_in :: "cell \<Rightarrow> strmap option" where
  "map_in c = (case c of MapCell m \<Rightarrow> Some m | _ \<Rightarrow> None)"

definition bytes_in :: "cell \<Rightarrow> string option" where
  "bytes_in c = (case c of BytesCell s \<Rightarrow> Some s | _ \<Rightarrow> None)"

definition strings_in :: "cell \<Rightarrow> string list option" where
  "strings_in c = (case c of StringsCell xs \<Rightarrow> Some xs | _ \<Rightarrow> None)"

definition raw_in :: "cell \<Rightarrow> go_raw option" where
  "raw_in c = (case c of RawCell r \<Rightarrow> Some r | _ \<Rightarrow> None)"

definition update_in :: "cell \<Rightarrow> update_policy option" where
  "update_in c = (case c of UpdateCell u \<Rightarrow> Some u | _ \<Rightarrow> None)"

definition bool_in :: "cell \<Rightarrow> bool option" where
  "bool_in c = (case c of BoolCell b \<Rightarrow> Some b | _ \<Rightarrow> None)"

definition secret_in :: "cell \<Rightarrow> go_secret option" where
  "secret_in c = (case c of SecretCell s \<Rightarrow> Some s | _ \<Rightarrow> None)"

definition injects_in :: "cell \<Rightarrow> go_inject list option" where
  "injects_in c = (case c of InjectsCell xs \<Rightarrow> Some xs | _ \<Rightarrow> None)"

definition realized_in :: "cell \<Rightarrow> node_realization list option" where
  "realized_in c = (case c of RealizedCell xs \<Rightarrow> Some xs | _ \<Rightarrow> None)"

definition conditions_in :: "cell \<Rightarrow> condition list option" where
  "conditions_in c = (case c of ConditionsCell xs \<Rightarrow> Some xs | _ \<Rightarrow> None)"

definition phases_in :: "cell \<Rightarrow> floxenv_phase list option" where
  "phases_in c = (case c of PhasesCell xs \<Rightarrow> Some xs | _ \<Rightarrow> None)"

definition envs_in :: "cell \<Rightarrow> go_env list option" where
  "envs_in c = (case c of EnvsCell xs \<Rightarrow> Some xs | _ \<Rightarrow> None)"

definition catalogs_in :: "cell \<Rightarrow> go_catalog list option" where
  "catalogs_in c = (case c of CatalogsCell xs \<Rightarrow> Some xs | _ \<Rightarrow> None)"

lemmas cell_defs = map_in_def bytes_in_def strings_in_def raw_in_def update_in_def bool_in_def secret_in_def
  injects_in_def realized_in_def conditions_in_def phases_in_def envs_in_def catalogs_in_def

subsection \<open>Programs over the heap\<close>

text \<open>
  A dereference of the wrong address is a panic of the runtime; \<open>load\<close> answers a default there, and
  every property supposes well-formed values, for which it does not happen.
\<close>

definition alloc :: "cell \<Rightarrow> (heap, addr) state" where
  "alloc c = State (\<lambda>h. (length h, h @ [c]))"

definition load :: "(cell \<Rightarrow> 'a option) \<Rightarrow> 'a \<Rightarrow> addr \<Rightarrow> (heap, 'a) state" where
  "load p d a = State (\<lambda>h. (if a < length h then (case p (h ! a) of None \<Rightarrow> d | Some x \<Rightarrow> x) else d, h))"

definition store_cell :: "addr \<Rightarrow> cell \<Rightarrow> (heap, unit) state" where
  "store_cell a c = State (\<lambda>h. ((), h[a := c]))"

definition runs :: "(heap, 'a) state \<Rightarrow> heap \<Rightarrow> ('a \<Rightarrow> heap \<Rightarrow> bool) \<Rightarrow> bool" where
  "runs m h Q \<longleftrightarrow> (case run_state m h of (x, h') \<Rightarrow> Q x h')"

lemma runs_return [simp]: "runs (State_Monad.return x) h Q \<longleftrightarrow> Q x h"
  by (simp add: runs_def State_Monad.return_def)

lemma runs_bind [simp]: "runs (State_Monad.bind m f) h Q \<longleftrightarrow> runs m h (\<lambda>x h'. runs (f x) h' Q)"
  by (simp add: runs_def State_Monad.bind_def split_beta)

lemma runs_alloc [simp]: "runs (alloc c) h Q \<longleftrightarrow> Q (length h) (h @ [c])"
  by (simp add: runs_def alloc_def)

lemma runs_load: "a < length h \<Longrightarrow> p (h ! a) = Some x \<Longrightarrow> runs (load p d a) h Q \<longleftrightarrow> Q x h"
  by (simp add: runs_def load_def)

lemma runs_store [simp]: "runs (store_cell a c) h Q \<longleftrightarrow> Q () (h[a := c])"
  by (simp add: runs_def store_cell_def)

lemma runs_mono: "runs m h Q \<Longrightarrow> (\<And>x h'. Q x h' \<Longrightarrow> Q' x h') \<Longrightarrow> runs m h Q'"
  by (auto simp: runs_def)

subsection \<open>Heaps that agree\<close>

definition same_at :: "addr set \<Rightarrow> heap \<Rightarrow> heap \<Rightarrow> bool" where
  "same_at A h h' \<longleftrightarrow> (\<forall>a \<in> A. a < length h' \<and> h' ! a = h ! a)"

definition grown :: "heap \<Rightarrow> heap \<Rightarrow> bool" where
  "grown h h' \<longleftrightarrow> same_at {..<length h} h h'"

lemma same_at_mono: "same_at A h h' \<Longrightarrow> B \<subseteq> A \<Longrightarrow> same_at B h h'"
  by (auto simp: same_at_def)

lemma same_at_trans: "same_at A h h' \<Longrightarrow> same_at A h' h'' \<Longrightarrow> same_at A h h''"
  by (auto simp: same_at_def)

lemma same_at_update: "a \<notin> A \<Longrightarrow> A \<subseteq> {..<length h} \<Longrightarrow> same_at A h (h[a := c])"
  unfolding same_at_def by (metis length_list_update lessThan_iff nth_list_update_neq subsetD)

lemma same_at_append: "A \<subseteq> {..<length h} \<Longrightarrow> same_at A h (h @ cs)"
  by (auto simp: same_at_def nth_append)

lemma grown_refl [simp]: "grown h h"
  by (simp add: grown_def same_at_def)

lemma grown_append [simp]: "grown h (h @ cs)"
  by (simp add: grown_def same_at_append)

lemma grown_length: "grown h h' \<Longrightarrow> length h \<le> length h'"
  by (cases h rule: rev_cases) (auto simp: grown_def same_at_def)

lemma grown_trans: "grown h h' \<Longrightarrow> grown h' h'' \<Longrightarrow> grown h h''"
  using grown_length [of h h'] by (fastforce simp: grown_def same_at_def)

lemma grown_update: "grown h h' \<Longrightarrow> length h \<le> a \<Longrightarrow> grown h (h'[a := c])"
  by (auto simp: grown_def same_at_def)

lemma grown_same_at: "grown h h' \<Longrightarrow> A \<subseteq> {..<length h} \<Longrightarrow> same_at A h h'"
  by (auto simp: grown_def intro: same_at_mono)

definition writes_only :: "addr set \<Rightarrow> heap \<Rightarrow> heap \<Rightarrow> bool" where
  "writes_only A h h' \<longleftrightarrow> same_at ({..<length h} - A) h h' \<and> length h \<le> length h'"

subsection \<open>Shapes\<close>

record ('a, 'v) shape =
  sh_ok :: "heap \<Rightarrow> 'a \<Rightarrow> bool"
  sh_view :: "heap \<Rightarrow> 'a \<Rightarrow> 'v"
  sh_foot :: "heap \<Rightarrow> 'a \<Rightarrow> addr set"

text \<open>What a value is does not depend on cells it does not reach.\<close>

locale go_type =
  fixes T :: "('a, 'v) shape"
  assumes foot_in: "sh_ok T h x \<Longrightarrow> sh_foot T h x \<subseteq> {..<length h}"
    and frame: "sh_ok T h x \<Longrightarrow> same_at (sh_foot T h x) h h' \<Longrightarrow>
      sh_ok T h' x \<and> sh_view T h' x = sh_view T h x \<and> sh_foot T h' x = sh_foot T h x"

text \<open>
  \<open>copied T h0 h x c\<close>: in \<open>h\<close>, which has every cell of \<open>h0\<close> unchanged, \<open>c\<close> means what \<open>x\<close> meant in \<open>h0\<close>
  and reaches no cell of \<open>h0\<close>. \<open>clones T f\<close>: \<open>f\<close> makes such copies.
\<close>

definition copied :: "('a, 'v) shape \<Rightarrow> heap \<Rightarrow> heap \<Rightarrow> 'a \<Rightarrow> 'a \<Rightarrow> bool" where
  "copied T h0 h x c \<longleftrightarrow> grown h0 h \<and> sh_ok T h c \<and> sh_view T h c = sh_view T h0 x \<and>
     sh_foot T h c \<subseteq> {length h0..}"

definition clones :: "('a, 'v) shape \<Rightarrow> ('a \<Rightarrow> (heap, 'a) state) \<Rightarrow> bool" where
  "clones T f \<longleftrightarrow> (\<forall>h x. sh_ok T h x \<longrightarrow> runs (f x) h (\<lambda>c h'. copied T h h' x c))"

context go_type
begin

lemma still:
  assumes "sh_ok T h x" "grown h h'"
  shows "sh_ok T h' x" "sh_view T h' x = sh_view T h x" "sh_foot T h' x = sh_foot T h x"
  using frame [OF assms(1) grown_same_at [OF assms(2) foot_in [OF assms(1)]]] by simp_all

lemma copied_later:
  assumes "copied T h0 h x c" "grown h h'"
  shows "copied T h0 h' x c"
  using assms still [of h c h'] grown_trans by (auto simp: copied_def)

lemma copied_from:
  assumes "sh_ok T h0 x" "grown h0 h1" "copied T h1 h x c"
  shows "copied T h0 h x c"
  using assms still [OF assms(1,2)] grown_length [OF assms(2)] grown_trans by (auto simp: copied_def)

lemma copied_beside:
  assumes "copied T h0 h x c" "length h0 \<le> a" "a \<notin> sh_foot T h c"
  shows "copied T h0 (h[a := d]) x c \<and> sh_foot T (h[a := d]) c = sh_foot T h c"
proof -
  have ok: "sh_ok T h c" using assms(1) by (simp add: copied_def)
  have "same_at (sh_foot T h c) h (h[a := d])" by (rule same_at_update [OF assms(3) foot_in [OF ok]])
  from frame [OF ok this] show ?thesis using assms(1,2) by (auto simp: copied_def grown_update)
qed

lemma clones_run:
  assumes "clones T f" "sh_ok T h0 x" "grown h0 h"
  shows "runs (f x) h (\<lambda>c h'. copied T h0 h' x c \<and> grown h h' \<and> sh_foot T h' c \<subseteq> {length h..})"
proof -
  have "runs (f x) h (\<lambda>c h'. copied T h h' x c)"
    using assms(1) still(1) [OF assms(2,3)] by (simp add: clones_def)
  then show ?thesis
    by (rule runs_mono) (use copied_from [OF assms(2,3)] in \<open>auto simp: copied_def\<close>)
qed

text \<open>A copy is not changed by what happens to the cells there were before it, nor the original by the copy.\<close>

lemma copy_isolated:
  assumes "copied T h0 h x c" "length h \<le> length h2" "\<And>a. length h0 \<le> a \<Longrightarrow> a < length h \<Longrightarrow> h2 ! a = h ! a"
  shows "sh_view T h2 c = sh_view T h0 x"
proof -
  have c: "sh_ok T h c" "sh_view T h c = sh_view T h0 x" "sh_foot T h c \<subseteq> {length h0..}"
    using assms(1) by (simp_all add: copied_def)
  have "same_at (sh_foot T h c) h h2"
    unfolding same_at_def
  proof
    fix a assume "a \<in> sh_foot T h c"
    then have "length h0 \<le> a" "a < length h" using c(3) foot_in [OF c(1)] by auto
    then show "a < length h2 \<and> h2 ! a = h ! a" using assms(2,3) by simp
  qed
  from frame [OF c(1) this] c(2) show ?thesis by simp
qed

lemma original_isolated:
  assumes "sh_ok T h0 x" "copied T h0 h x c" "length h \<le> length h2" "\<And>a. a < length h0 \<Longrightarrow> h2 ! a = h ! a"
  shows "sh_view T h2 x = sh_view T h0 x"
proof (rule still(2) [OF assms(1)])
  have "grown h0 h" using assms(2) by (simp add: copied_def)
  with assms(3,4) show "grown h0 h2" by (auto simp: grown_def same_at_def)
qed

text \<open>A program that writes only to \<open>A\<close> and to new cells leaves what does not reach \<open>A\<close>.\<close>

lemma spared:
  assumes "sh_ok T h x" "writes_only A h h'" "sh_foot T h x \<inter> A = {}"
  shows "sh_ok T h' x" "sh_view T h' x = sh_view T h x" "sh_foot T h' x = sh_foot T h x"
proof -
  have "same_at (sh_foot T h x) h h'"
    by (rule same_at_mono [OF conjunct1 [OF assms(2) [unfolded writes_only_def]]]) (use foot_in [OF assms(1)] assms(3) in auto)
  from frame [OF assms(1) this]
  show "sh_ok T h' x" "sh_view T h' x = sh_view T h x" "sh_foot T h' x = sh_foot T h x" by simp_all
qed

end

subsection \<open>Shapes of the Go types\<close>

text \<open>A value without references, read through \<open>f\<close>.\<close>

definition value_shape :: "('a \<Rightarrow> 'v) \<Rightarrow> ('a, 'v) shape" where
  "value_shape f = \<lparr> sh_ok = (\<lambda>_ _. True), sh_view = (\<lambda>_ x. f x), sh_foot = (\<lambda>_ _. {}) \<rparr>"

text \<open>A field of a struct, two fields of a struct, and a value read further.\<close>

definition field_shape :: "('a \<Rightarrow> 'b) \<Rightarrow> ('b, 'v) shape \<Rightarrow> ('a, 'v) shape" where
  "field_shape f T = \<lparr> sh_ok = (\<lambda>h x. sh_ok T h (f x)), sh_view = (\<lambda>h x. sh_view T h (f x)),
     sh_foot = (\<lambda>h x. sh_foot T h (f x)) \<rparr>"

definition both :: "('a, 'v) shape \<Rightarrow> ('a, 'u) shape \<Rightarrow> ('a, 'v \<times> 'u) shape" where
  "both T U = \<lparr> sh_ok = (\<lambda>h x. sh_ok T h x \<and> sh_ok U h x), sh_view = (\<lambda>h x. (sh_view T h x, sh_view U h x)),
     sh_foot = (\<lambda>h x. sh_foot T h x \<union> sh_foot U h x) \<rparr>"

definition viewed :: "('v \<Rightarrow> 'u) \<Rightarrow> ('a, 'v) shape \<Rightarrow> ('a, 'u) shape" where
  "viewed g T = \<lparr> sh_ok = sh_ok T, sh_view = (\<lambda>h x. g (sh_view T h x)), sh_foot = sh_foot T \<rparr>"

text \<open>A pointer (or a map) and a slice, of a type with the shape \<open>E\<close>, in cells read by \<open>p\<close>.\<close>

definition cell_at :: "(cell \<Rightarrow> 'a option) \<Rightarrow> heap \<Rightarrow> addr \<Rightarrow> 'a option" where
  "cell_at p h a = (if a < length h then p (h ! a) else None)"

definition pointer :: "(cell \<Rightarrow> 'a option) \<Rightarrow> ('a, 'v) shape \<Rightarrow> (addr option, 'v option) shape" where
  "pointer p E =
    \<lparr> sh_ok = (\<lambda>h r. case r of None \<Rightarrow> True
        | Some a \<Rightarrow> (case cell_at p h a of None \<Rightarrow> False | Some x \<Rightarrow> sh_ok E h x)),
      sh_view = (\<lambda>h r. case r of None \<Rightarrow> None | Some a \<Rightarrow> map_option (sh_view E h) (cell_at p h a)),
      sh_foot = (\<lambda>h r. case r of None \<Rightarrow> {}
        | Some a \<Rightarrow> insert a (case cell_at p h a of None \<Rightarrow> {} | Some x \<Rightarrow> sh_foot E h x)) \<rparr>"

definition elements :: "(cell \<Rightarrow> 'a list option) \<Rightarrow> heap \<Rightarrow> slice \<Rightarrow> 'a list" where
  "elements p h s = (case s of NilSlice \<Rightarrow> []
     | Slice a n \<Rightarrow> (case cell_at p h a of None \<Rightarrow> [] | Some xs \<Rightarrow> take n xs))"

definition slice_of :: "(cell \<Rightarrow> 'a list option) \<Rightarrow> ('a, 'v) shape \<Rightarrow> (slice, 'v list) shape" where
  "slice_of p E =
    \<lparr> sh_ok = (\<lambda>h s. (case s of NilSlice \<Rightarrow> True
        | Slice a n \<Rightarrow> (case cell_at p h a of None \<Rightarrow> False | Some xs \<Rightarrow> n \<le> length xs)) \<and>
          list_all (sh_ok E h) (elements p h s)),
      sh_view = (\<lambda>h s. map (sh_view E h) (elements p h s)),
      sh_foot = (\<lambda>h s. (case s of NilSlice \<Rightarrow> {} | Slice a n \<Rightarrow> {a}) \<union> \<Union> (sh_foot E h ` set (elements p h s))) \<rparr>"

lemmas shape_defs = value_shape_def field_shape_def both_def viewed_def

named_theorems shape_intros "every shape of the development is a Go type"

lemma value_type [shape_intros]: "go_type (value_shape f)"
  by unfold_locales (simp_all add: value_shape_def)

lemma field_type [shape_intros]:
  assumes "go_type T"
  shows "go_type (field_shape f T)"
  by unfold_locales (unfold field_shape_def shape.simps,
    erule go_type.foot_in [OF assms], erule (1) go_type.frame [OF assms])

lemma both_type [shape_intros]:
  assumes "go_type T" "go_type U"
  shows "go_type (both T U)"
proof
  fix h x assume ok: "sh_ok (both T U) h x"
  then show "sh_foot (both T U) h x \<subseteq> {..<length h}"
    using go_type.foot_in [OF assms(1)] go_type.foot_in [OF assms(2)] by (simp add: both_def)
  fix h' assume "same_at (sh_foot (both T U) h x) h h'"
  then have "same_at (sh_foot T h x) h h'" "same_at (sh_foot U h x) h h'"
    by (auto simp: both_def intro: same_at_mono)
  moreover have "sh_ok T h x" "sh_ok U h x" using ok by (simp_all add: both_def)
  ultimately show "sh_ok (both T U) h' x \<and> sh_view (both T U) h' x = sh_view (both T U) h x \<and>
      sh_foot (both T U) h' x = sh_foot (both T U) h x"
    by (simp add: both_def go_type.frame [OF assms(1), of h x h'] go_type.frame [OF assms(2), of h x h'])
qed

lemma viewed_type [shape_intros]:
  assumes "go_type T"
  shows "go_type (viewed g T)"
proof
  fix h x assume ok: "sh_ok (viewed g T) h x"
  then show "sh_foot (viewed g T) h x \<subseteq> {..<length h}"
    using go_type.foot_in [OF assms, of h x] by (simp add: viewed_def)
  fix h' assume "same_at (sh_foot (viewed g T) h x) h h'"
  with ok show "sh_ok (viewed g T) h' x \<and> sh_view (viewed g T) h' x = sh_view (viewed g T) h x \<and>
      sh_foot (viewed g T) h' x = sh_foot (viewed g T) h x"
    using go_type.frame [OF assms, of h x h'] by (simp add: viewed_def)
qed

lemma cell_at_frame: "cell_at p h a = Some x \<Longrightarrow> same_at A h h' \<Longrightarrow> a \<in> A \<Longrightarrow> cell_at p h' a = Some x"
  by (auto simp: cell_at_def same_at_def split: if_splits)

lemma cell_at_in: "cell_at p h a = Some x \<Longrightarrow> a < length h"
  by (simp add: cell_at_def split: if_splits)

lemma pointer_type [shape_intros]:
  assumes "go_type E"
  shows "go_type (pointer p E)"
proof
  fix h r assume ok: "sh_ok (pointer p E) h r"
  show "sh_foot (pointer p E) h r \<subseteq> {..<length h}"
    using ok go_type.foot_in [OF assms, of h] cell_at_in [of p h]
    by (auto simp: pointer_def split: option.splits) (metis lessThan_iff option.inject subsetD)
  fix h' assume same: "same_at (sh_foot (pointer p E) h r) h h'"
  show "sh_ok (pointer p E) h' r \<and> sh_view (pointer p E) h' r = sh_view (pointer p E) h r \<and>
      sh_foot (pointer p E) h' r = sh_foot (pointer p E) h r"
  proof (cases r)
    case (Some a)
    with ok obtain x where x: "cell_at p h a = Some x" "sh_ok E h x"
      by (auto simp: pointer_def split: option.splits)
    from same have a: "cell_at p h' a = Some x"
      by (rule cell_at_frame [OF x(1)]) (simp add: pointer_def Some)
    from same have "same_at (sh_foot E h x) h h'"
      by (rule same_at_mono) (auto simp: pointer_def Some x)
    from go_type.frame [OF assms x(2) this] show ?thesis by (simp add: pointer_def Some x a)
  qed (simp add: pointer_def)
qed

lemma slice_type [shape_intros]:
  assumes "go_type E"
  shows "go_type (slice_of p E)"
proof
  fix h s assume ok: "sh_ok (slice_of p E) h s"
  show "sh_foot (slice_of p E) h s \<subseteq> {..<length h}"
    using ok go_type.foot_in [OF assms]
    by (fastforce simp: slice_of_def list_all_iff dest: cell_at_in split: slice.splits option.splits)
  fix h' assume same: "same_at (sh_foot (slice_of p E) h s) h h'"
  show "sh_ok (slice_of p E) h' s \<and> sh_view (slice_of p E) h' s = sh_view (slice_of p E) h s \<and>
      sh_foot (slice_of p E) h' s = sh_foot (slice_of p E) h s"
  proof (cases s)
    case (Slice a n)
    with ok obtain xs where x: "cell_at p h a = Some xs" "n \<le> length xs"
      by (auto simp: slice_of_def split: option.splits)
    from same have a: "cell_at p h' a = Some xs"
      by (rule cell_at_frame [OF x(1)]) (simp add: slice_of_def Slice)
    then have same_elems: "elements p h' s = elements p h s" by (simp add: elements_def Slice x)
    have "sh_ok E h' y \<and> sh_view E h' y = sh_view E h y \<and> sh_foot E h' y = sh_foot E h y"
      if "y \<in> set (elements p h s)" for y
    proof (rule go_type.frame [OF assms])
      show "sh_ok E h y" using ok that by (simp add: slice_of_def list_all_iff)
      show "same_at (sh_foot E h y) h h'"
        by (rule same_at_mono [OF same]) (use that in \<open>auto simp: slice_of_def\<close>)
    qed
    then have "\<forall>y \<in> set (elements p h s). sh_ok E h' y \<and> sh_view E h' y = sh_view E h y \<and> sh_foot E h' y = sh_foot E h y"
      by blast
    then show ?thesis using ok x a
      by (simp add: slice_of_def list_all_iff same_elems) (simp add: Slice)
  qed (simp add: slice_of_def elements_def)
qed

lemma copied_value [simp]: "copied (value_shape f) h0 h x c \<longleftrightarrow> grown h0 h \<and> f c = f x"
  by (simp add: copied_def value_shape_def)

lemma copied_field [simp]: "copied (field_shape f T) h0 h x c \<longleftrightarrow> copied T h0 h (f x) (f c)"
  by (simp add: copied_def field_shape_def)

lemma copied_both [simp]: "copied (both T U) h0 h x c \<longleftrightarrow> copied T h0 h x c \<and> copied U h0 h x c"
  by (auto simp: copied_def both_def)

lemma copied_viewed: "copied T h0 h x c \<Longrightarrow> copied (viewed g T) h0 h x c"
  by (simp add: copied_def viewed_def)

text \<open>The parts of the shape of a struct.\<close>

lemma shape_simps [simp]:
  "sh_ok (value_shape f) h x" "sh_view (value_shape f) h x = f x" "sh_foot (value_shape f) h x = {}"
  "sh_ok (field_shape g F) h s \<longleftrightarrow> sh_ok F h (g s)" "sh_view (field_shape g F) h s = sh_view F h (g s)"
  "sh_foot (field_shape g F) h s = sh_foot F h (g s)"
  "sh_ok (both T U) h y \<longleftrightarrow> sh_ok T h y \<and> sh_ok U h y" "sh_view (both T U) h y = (sh_view T h y, sh_view U h y)"
  "sh_foot (both T U) h y = sh_foot T h y \<union> sh_foot U h y"
  "sh_ok (viewed v V) h z \<longleftrightarrow> sh_ok V h z" "sh_view (viewed v V) h z = v (sh_view V h z)"
  "sh_foot (viewed v V) h z = sh_foot V h z"
  by (simp_all add: shape_defs)

end
