(* ===== verification/GoCopy.thy ===== *)
theory GoCopy
  imports GoHeap
begin

text \<open>
  The statements the copying code of the API types is made of, over the heap of \<open>GoHeap\<close>: the copy of
  a pointer, of a slice and of a map. Each makes copies (\<open>clones\<close>) of what it is given: the result means
  the same and shares no cell with it.
\<close>

subsection \<open>Statements the functions are made of\<close>

text \<open>\<open>*out = new(T); (*in).DeepCopyInto( *out)\<close> for a pointer that is not nil.\<close>

definition copy_pointer ::
  "(cell \<Rightarrow> 'a option) \<Rightarrow> ('a \<Rightarrow> cell) \<Rightarrow> 'a \<Rightarrow> ('a \<Rightarrow> (heap, 'a) state) \<Rightarrow> addr option \<Rightarrow> (heap, addr option) state" where
  "copy_pointer p mk zero f r = (case r of
       None \<Rightarrow> State_Monad.return None
     | Some a \<Rightarrow> do {
         b \<leftarrow> alloc (mk zero);
         x \<leftarrow> load p zero a;
         y \<leftarrow> f x;
         _ \<leftarrow> store_cell b (mk y);
         State_Monad.return (Some b)
       })"

text \<open>\<open>*out = make([]T, len( *in)); for i := range *in { ( *in)[i].DeepCopyInto(&( *out)[i]) }\<close>.\<close>

fun copy_elements ::
  "(cell \<Rightarrow> 'a list option) \<Rightarrow> ('a list \<Rightarrow> cell) \<Rightarrow> ('a \<Rightarrow> (heap, 'a) state) \<Rightarrow> addr \<Rightarrow> addr \<Rightarrow> nat list \<Rightarrow>
     (heap, unit) state" where
  "copy_elements p mk f a b [] = State_Monad.return ()"
| "copy_elements p mk f a b (i # is) = do {
     xs \<leftarrow> load p [] a;
     y \<leftarrow> f (xs ! i);
     ys \<leftarrow> load p [] b;
     _ \<leftarrow> store_cell b (mk (ys[i := y]));
     copy_elements p mk f a b is
   }"

definition copy_slice ::
  "(cell \<Rightarrow> 'a list option) \<Rightarrow> ('a list \<Rightarrow> cell) \<Rightarrow> 'a \<Rightarrow> ('a \<Rightarrow> (heap, 'a) state) \<Rightarrow> slice \<Rightarrow> (heap, slice) state" where
  "copy_slice p mk zero f s = (case s of
       NilSlice \<Rightarrow> State_Monad.return NilSlice
     | Slice a n \<Rightarrow> do {
         b \<leftarrow> alloc (mk (replicate n zero));
         _ \<leftarrow> copy_elements p mk f a b [0..<n];
         State_Monad.return (Slice b n)
       })"

text \<open>\<open>*out = make([]T, len( *in)); copy( *out, *in)\<close>.\<close>

definition copy_values ::
  "(cell \<Rightarrow> 'a list option) \<Rightarrow> ('a list \<Rightarrow> cell) \<Rightarrow> 'a \<Rightarrow> slice \<Rightarrow> (heap, slice) state" where
  "copy_values p mk zero s = (case s of
       NilSlice \<Rightarrow> State_Monad.return NilSlice
     | Slice a n \<Rightarrow> do {
         b \<leftarrow> alloc (mk (replicate n zero));
         xs \<leftarrow> load p [] a;
         _ \<leftarrow> store_cell b (mk (take n xs));
         State_Monad.return (Slice b n)
       })"

text \<open>\<open>*out = make(map[string]string, len( *in)); for key, val := range *in { ( *out)[key] = val }\<close>.\<close>

fun copy_entries :: "addr \<Rightarrow> strmap \<Rightarrow> (heap, unit) state" where
  "copy_entries b [] = State_Monad.return ()"
| "copy_entries b ((k, v) # m) = do {
     m' \<leftarrow> load map_in [] b;
     _ \<leftarrow> store_cell b (MapCell (AList.update k v m'));
     copy_entries b m
   }"

definition copy_map :: "addr option \<Rightarrow> (heap, addr option) state" where
  "copy_map r = (case r of
       None \<Rightarrow> State_Monad.return None
     | Some a \<Rightarrow> do {
         b \<leftarrow> alloc (MapCell []);
         m \<leftarrow> load map_in [] a;
         _ \<leftarrow> copy_entries b m;
         State_Monad.return (Some b)
       })"

text \<open>\<open>DeepCopy\<close>: nil for nil.\<close>

definition or_nil :: "('a \<Rightarrow> (heap, 'a) state) \<Rightarrow> 'a option \<Rightarrow> (heap, 'a option) state" where
  "or_nil f x = (case x of None \<Rightarrow> State_Monad.return None
     | Some v \<Rightarrow> do { out \<leftarrow> f v; State_Monad.return (Some out) })"

subsection \<open>They copy\<close>

lemma cell_at_nth: "cell_at p h a = Some x \<longleftrightarrow> a < length h \<and> p (h ! a) = Some x"
  by (simp add: cell_at_def)

lemma runs_cell: "cell_at p h a = Some x \<Longrightarrow> runs (load p d a) h Q \<longleftrightarrow> Q x h"
  by (simp add: cell_at_nth runs_load)

lemma cell_at_grown: "cell_at p h a = Some x \<Longrightarrow> grown h h' \<Longrightarrow> cell_at p h' a = Some x"
  by (auto simp: cell_at_nth grown_def same_at_def)

lemma clones_pointer:
  assumes E: "go_type E" and f: "clones E f" and mk: "\<And>x. p (mk x) = Some x"
  shows "clones (pointer p E) (copy_pointer p mk zero f)"
  unfolding clones_def
proof (intro allI impI)
  fix h r assume ok: "sh_ok (pointer p E) h r"
  show "runs (copy_pointer p mk zero f r) h (\<lambda>c h'. copied (pointer p E) h h' r c)"
  proof (cases r)
    case None
    then show ?thesis by (simp add: copy_pointer_def copied_def pointer_def)
  next
    case (Some a)
    with ok obtain x where x: "cell_at p h a = Some x" "sh_ok E h x"
      by (auto simp: pointer_def split: option.splits)
    let ?b = "length h" and ?h1 = "h @ [mk zero]"
    have "cell_at p ?h1 a = Some x" using x(1) by (rule cell_at_grown) simp
    then have "runs (copy_pointer p mk zero f r) h Q \<longleftrightarrow>
        runs (f x) ?h1 (\<lambda>y h'. Q (Some ?b) (h'[?b := mk y]))" for Q
      by (simp add: copy_pointer_def Some runs_cell)
    moreover have "runs (f x) ?h1 (\<lambda>y h'. copied (pointer p E) h (h'[?b := mk y]) r (Some ?b))"
    proof (rule runs_mono [OF go_type.clones_run [OF E f x(2) grown_append]])
      fix y h' assume y: "copied E h h' x y \<and> grown ?h1 h' \<and> sh_foot E h' y \<subseteq> {length ?h1..}"
      then have b: "?b \<notin> sh_foot E h' y" "?b < length h'" using grown_length [of ?h1 h'] by auto
      let ?h2 = "h'[?b := mk y]"
      have c: "copied E h ?h2 x y" "sh_foot E ?h2 y = sh_foot E h' y"
        using go_type.copied_beside [OF E _ _ b(1), of h x "mk y"] y by simp_all
      have "cell_at p ?h2 ?b = Some y" using b(2) by (simp add: cell_at_nth mk)
      with c y show "copied (pointer p E) h ?h2 r (Some ?b)"
        by (auto simp: copied_def pointer_def Some x)
    qed
    ultimately show ?thesis by blast
  qed
qed

definition copying :: "('a, 'v) shape \<Rightarrow> (cell \<Rightarrow> 'a list option) \<Rightarrow> heap \<Rightarrow> 'a list \<Rightarrow> nat \<Rightarrow> nat \<Rightarrow> heap \<Rightarrow> bool" where
  "copying E p h0 xs n k h \<longleftrightarrow> grown h0 h \<and> (\<exists>ys. cell_at p h (length h0) = Some ys \<and> length ys = n \<and>
     (\<forall>j < k. copied E h0 h (xs ! j) (ys ! j) \<and> sh_foot E h (ys ! j) \<subseteq> {Suc (length h0)..}))"

lemma copy_element_step:
  assumes E: "go_type E" and f: "clones E f" and mk: "\<And>x. p (mk x) = Some x"
    and xs: "n \<le> length xs" "list_all (sh_ok E h0) (take n xs)"
    and inv: "copying E p h0 xs n k h" and k: "k < n"
  shows "runs (f (xs ! k)) h (\<lambda>y h'. \<exists>ys. cell_at p h' (length h0) = Some ys \<and>
    copying E p h0 xs n (Suc k) (h'[length h0 := mk (ys[k := y])]))"
proof -
  from inv obtain ys where ys: "grown h0 h" "cell_at p h (length h0) = Some ys" "length ys = n"
      "\<forall>j < k. copied E h0 h (xs ! j) (ys ! j) \<and> sh_foot E h (ys ! j) \<subseteq> {Suc (length h0)..}"
    unfolding copying_def by blast
  have ok: "sh_ok E h0 (xs ! k)"
    using xs k by (simp add: list_all_length)
  show ?thesis
  proof (rule runs_mono [OF go_type.clones_run [OF E f ok ys(1)]])
    fix y h' assume y: "copied E h0 h' (xs ! k) y \<and> grown h h' \<and> sh_foot E h' y \<subseteq> {length h..}"
    let ?b = "length h0" and ?h2 = "h'[length h0 := mk (ys[k := y])]"
    have at: "cell_at p h' ?b = Some ys" by (rule cell_at_grown [OF ys(2)]) (simp add: y)
    have b: "?b < length h'" "?b < length h" using ys(2) at by (simp_all add: cell_at_nth)
    have foot_y: "sh_foot E h' y \<subseteq> {Suc ?b..}"
    proof (rule subset_trans)
      show "sh_foot E h' y \<subseteq> {length h..}" using y by simp
      show "{length h..} \<subseteq> {Suc ?b..}" using b(2) by simp
    qed
    have later: "copied E h0 h' (xs ! j) (ys[k := y] ! j) \<and> sh_foot E h' (ys[k := y] ! j) \<subseteq> {Suc ?b..}"
      if "j < Suc k" for j
    proof (cases "j = k")
      case True
      then show ?thesis using y foot_y k ys(3) by simp
    next
      case False
      with that have j: "copied E h0 h (xs ! j) (ys ! j)" "sh_foot E h (ys ! j) \<subseteq> {Suc ?b..}" by (simp_all add: ys(4))
      have ok_j: "sh_ok E h (ys ! j)" using j(1) by (simp add: copied_def)
      have h': "grown h h'" using y by simp
      from j go_type.still(3) [OF E ok_j h'] go_type.copied_later [OF E j(1) h'] False
      show ?thesis by simp
    qed
    have each: "copied E h0 ?h2 (xs ! j) (ys[k := y] ! j) \<and> sh_foot E ?h2 (ys[k := y] ! j) \<subseteq> {Suc ?b..}"
      if "j < Suc k" for j
    proof -
      have "?b \<notin> sh_foot E h' (ys[k := y] ! j)" using later [OF that] by auto
      from go_type.copied_beside [OF E conjunct1 [OF later [OF that]] order.refl this] later [OF that]
      show ?thesis by metis
    qed
    have "cell_at p ?h2 ?b = Some (ys[k := y])" using b by (simp add: cell_at_nth mk)
    moreover have "grown h0 ?h2" using ys(1) y by (meson grown_trans grown_update order.refl)
    moreover have "length (ys[k := y]) = n" using ys(3) by simp
    ultimately have "copying E p h0 xs n (Suc k) ?h2" using each
      unfolding copying_def by (intro conjI exI [of _ "ys[k := y]"] allI impI) simp_all
    with at show "\<exists>ys. cell_at p h' ?b = Some ys \<and> copying E p h0 xs n (Suc k) (h'[?b := mk (ys[k := y])])"
      by (intro exI [of _ ys] conjI)
  qed
qed

lemma copy_elements_run:
  assumes E: "go_type E" and f: "clones E f" and mk: "\<And>x. p (mk x) = Some x"
    and xs: "cell_at p h0 a = Some xs" "n \<le> length xs" "list_all (sh_ok E h0) (take n xs)"
  shows "copying E p h0 xs n k h \<Longrightarrow> k \<le> n \<Longrightarrow>
    runs (copy_elements p mk f a (length h0) [k..<n]) h (\<lambda>_. copying E p h0 xs n n)"
proof (induction "n - k" arbitrary: k h)
  case 0
  then show ?case by simp
next
  case (Suc d)
  then have k: "k < n" by simp
  have "cell_at p h a = Some xs" using xs(1) Suc.prems(1) cell_at_grown by (auto simp: copying_def)
  moreover have "runs (f (xs ! k)) h (\<lambda>y h'. runs (load p [] (length h0)) h' (\<lambda>ys h'.
      runs (copy_elements p mk f a (length h0) [Suc k..<n]) (h'[length h0 := mk (ys[k := y])])
        (\<lambda>_. copying E p h0 xs n n)))"
    by (rule runs_mono [OF copy_element_step [where mk = mk, OF E f mk xs(2,3) Suc.prems(1) k]])
      (use Suc.hyps k in \<open>auto simp: runs_cell\<close>)
  ultimately show ?case by (simp add: upt_conv_Cons [OF k] runs_cell)
qed

lemma clones_slice:
  assumes E: "go_type E" and f: "clones E f" and mk: "\<And>x. p (mk x) = Some x"
  shows "clones (slice_of p E) (copy_slice p mk zero f)"
  unfolding clones_def
proof (intro allI impI)
  fix h s assume ok: "sh_ok (slice_of p E) h s"
  show "runs (copy_slice p mk zero f s) h (\<lambda>c h'. copied (slice_of p E) h h' s c)"
  proof (cases s)
    case NilSlice
    then show ?thesis by (simp add: copy_slice_def copied_def slice_of_def elements_def)
  next
    case (Slice a n)
    with ok obtain xs where xs: "cell_at p h a = Some xs" "n \<le> length xs" "list_all (sh_ok E h) (take n xs)"
      by (auto simp: slice_of_def elements_def split: option.splits)
    let ?h1 = "h @ [mk (replicate n zero)]"
    have "copying E p h xs n 0 ?h1" by (simp add: copying_def cell_at_nth mk)
    then have "runs (copy_elements p mk f a (length h) [0..<n]) ?h1 (\<lambda>_. copying E p h xs n n)"
      by (rule copy_elements_run [OF E f mk xs]) simp
    then have "runs (copy_elements p mk f a (length h) [0..<n]) ?h1
        (\<lambda>_ h'. copied (slice_of p E) h h' s (Slice (length h) n))"
    proof (rule runs_mono)
      fix h' assume "copying E p h xs n n h'"
      then obtain ys where ys: "grown h h'" "cell_at p h' (length h) = Some ys" "length ys = n"
          "\<And>j. j < n \<Longrightarrow> copied E h h' (xs ! j) (ys ! j)"
        by (auto simp: copying_def)
      have each: "sh_ok E h' (ys ! j) \<and> sh_view E h' (ys ! j) = sh_view E h (xs ! j) \<and>
          sh_foot E h' (ys ! j) \<subseteq> {length h..}" if "j < n" for j
        using ys(4) [OF that] by (simp add: copied_def)
      have "map (sh_view E h') ys = map (sh_view E h) (take n xs)"
        using each xs(2) ys(3) by (auto intro!: nth_equalityI)
      moreover have "list_all (sh_ok E h') ys" using each ys(3) by (simp add: list_all_length)
      moreover have "\<Union> (sh_foot E h' ` set ys) \<subseteq> {length h..}" using each ys(3) by (fastforce simp: in_set_conv_nth)
      ultimately show "copied (slice_of p E) h h' s (Slice (length h) n)"
        using ys(1-3) xs(1) by (auto simp: copied_def slice_of_def elements_def Slice)
    qed
    then show ?thesis by (simp add: copy_slice_def Slice)
  qed
qed

lemma clones_values:
  assumes mk: "\<And>x. p (mk x) = Some x"
  shows "clones (slice_of p (value_shape f)) (copy_values p mk zero)"
  unfolding clones_def
proof (intro allI impI)
  fix h s assume ok: "sh_ok (slice_of p (value_shape f)) h s"
  show "runs (copy_values p mk zero s) h (\<lambda>c h'. copied (slice_of p (value_shape f)) h h' s c)"
  proof (cases s)
    case NilSlice
    then show ?thesis by (simp add: copy_values_def copied_def slice_of_def elements_def)
  next
    case (Slice a n)
    with ok obtain xs where xs: "cell_at p h a = Some xs" "n \<le> length xs"
      by (auto simp: slice_of_def split: option.splits)
    let ?h1 = "h @ [mk (replicate n zero)]" let ?h2 = "h @ [mk (take n xs)]"
    have "cell_at p ?h1 a = Some xs" using xs(1) by (rule cell_at_grown) simp
    moreover have "cell_at p ?h2 (length h) = Some (take n xs)" by (simp add: cell_at_nth mk)
    ultimately show ?thesis using xs
      by (auto simp: copy_values_def Slice runs_cell copied_def slice_of_def elements_def value_shape_def list_all_iff)
  qed
qed

definition map_shape :: "(strmap, strmap) shape" where
  "map_shape = (value_shape (\<lambda>m. m))\<lparr> sh_ok := \<lambda>_ m. distinct (map fst m) \<rparr>"

lemma map_type [shape_intros]: "go_type map_shape"
  by unfold_locales (simp_all add: map_shape_def value_shape_def)

lemma update_new: "k \<notin> fst ` set m \<Longrightarrow> AList.update k v m = m @ [(k, v)]"
  by (induction m) auto

lemma copy_entries_run:
  "cell_at map_in h b = Some acc \<Longrightarrow> distinct (map fst (acc @ m)) \<Longrightarrow>
    runs (copy_entries b m) h Q \<longleftrightarrow> Q () (h[b := MapCell (acc @ m)])"
proof (induction m arbitrary: h acc)
  case Nil
  then have "h[b := MapCell acc] = h"
    by (auto simp: cell_at_nth map_in_def list_update_same_conv split: cell.splits)
  then show ?case by simp
next
  case (Cons kv m)
  obtain k v where kv: "kv = (k, v)" by force
  from Cons.prems have b: "b < length h" "k \<notin> fst ` set acc" by (auto simp: cell_at_nth kv)
  then have "cell_at map_in (h[b := MapCell (acc @ [(k, v)])]) b = Some (acc @ [(k, v)])"
    by (simp add: cell_at_nth map_in_def)
  from Cons.IH [OF this] Cons.prems(2) show ?case
    by (simp add: kv runs_cell [OF Cons.prems(1)] update_new [OF b(2)])
qed

lemma clones_map: "clones (pointer map_in map_shape) copy_map"
  unfolding clones_def
proof (intro allI impI)
  fix h r assume ok: "sh_ok (pointer map_in map_shape) h r"
  show "runs (copy_map r) h (\<lambda>c h'. copied (pointer map_in map_shape) h h' r c)"
  proof (cases r)
    case None
    then show ?thesis by (simp add: copy_map_def copied_def pointer_def)
  next
    case (Some a)
    with ok obtain m where m: "cell_at map_in h a = Some m" "distinct (map fst m)"
      by (auto simp: pointer_def map_shape_def split: option.splits)
    have "cell_at map_in (h @ [MapCell []]) a = Some m" using m(1) by (rule cell_at_grown) simp
    moreover have "cell_at map_in (h @ [MapCell []]) (length h) = Some []"
      by (simp add: cell_at_nth map_in_def)
    moreover have "cell_at map_in (h @ [MapCell m]) (length h) = Some m"
      by (simp add: cell_at_nth map_in_def)
    ultimately show ?thesis using m
      by (auto simp: copy_map_def Some runs_cell copy_entries_run copied_def pointer_def map_shape_def value_shape_def)
  qed
qed

lemma clones_viewed: "clones T f \<Longrightarrow> clones (viewed g T) f"
  unfolding clones_def by (auto simp: viewed_def intro: runs_mono copied_viewed [unfolded viewed_def])

lemma clones_return: "clones (value_shape f) State_Monad.return"
  by (simp add: clones_def)

text \<open>A struct is copied when its fields are, one after another.\<close>

lemma copy_field:
  assumes "clones T f" "go_type T" "grown h0 h" "sh_ok T h0 x"
    and "\<And>c h'. copied T h0 h' x c \<Longrightarrow> grown h h' \<Longrightarrow> grown h0 h' \<Longrightarrow> runs (k c) h' (\<lambda>c h'. copied S h0 h' s c)"
  shows "runs (State_Monad.bind (f x) k) h (\<lambda>c h'. copied S h0 h' s c)"
  unfolding runs_bind
  by (rule runs_mono [OF go_type.clones_run [OF assms(2,1,4,3)]])
    (use assms(5) grown_trans [OF assms(3)] in blast)

lemma copy_done: "copied S h0 h s c \<Longrightarrow> runs (State_Monad.return c) h (\<lambda>c h'. copied S h0 h' s c)"
  by simp

lemma copied_while:
  "copied T h0 h x c \<Longrightarrow> go_type T \<Longrightarrow> grown h h' \<Longrightarrow> copied T h0 h' x c"
  by (rule go_type.copied_later)

lemma clonesI: "(\<And>h x. sh_ok T h x \<Longrightarrow> runs (f x) h (\<lambda>c h'. copied T h h' x c)) \<Longrightarrow> clones T f"
  by (simp add: clones_def)

lemma runs_or_nil:
  "clones T f \<Longrightarrow> sh_ok T h x \<Longrightarrow> runs (or_nil f (Some x)) h (\<lambda>c h'. \<exists>y. c = Some y \<and> copied T h h' x y)"
  by (auto simp: clones_def or_nil_def elim!: runs_mono)

end
