(* ===== verification/DeepCopy.thy ===== *)
theory DeepCopy
  imports GoCopy
begin

text \<open>
  The copying code of the API types, \<open>api/v1alpha1/zz_generated.deepcopy.go\<close>, and its contract: what a
  function returns means what the receiver means and shares no cell with it. The copying of the
  library's structs (\<open>ObjectMeta\<close>, \<open>RawExtension\<close>, \<open>Condition\<close>) is a parameter with the same contract.
  Type metadata and the metadata of lists, which no code reads, are left out; \<open>*out = *in\<close> is the
  record the fields are replaced in, and the struct \<open>out\<close> points to is the value returned.
\<close>

subsection \<open>The shapes of the API types\<close>

definition map_ref :: "(addr option, strmap) shape" where
  "map_ref = viewed (\<lambda>r. case r of None \<Rightarrow> [] | Some m \<Rightarrow> m) (pointer map_in map_shape)"

definition meta_shape :: "(go_meta, object_meta) shape" where
  "meta_shape = viewed (\<lambda>(n, ns, g, a, l).
       \<lparr> om_name = n, om_namespace = ns, om_generation = g, om_annotations = a, om_labels = l \<rparr>)
     (both (value_shape gm_name) (both (value_shape gm_namespace) (both (value_shape gm_generation)
       (both (field_shape gm_annotations map_ref) (field_shape gm_labels map_ref)))))"

definition raw_shape :: "(go_raw, string) shape" where
  "raw_shape = field_shape gr_raw (slice_of bytes_in (value_shape (\<lambda>c. c)))"

definition secret_shape :: "(go_secret, secret_key_ref) shape" where
  "secret_shape = viewed (\<lambda>(n, k, o'). \<lparr> sk_name = n, sk_key = k, sk_optional = o' \<rparr>)
     (both (value_shape gk_name) (both (value_shape gk_key) (field_shape gk_optional (pointer bool_in (value_shape (\<lambda>b. b))))))"

definition inject_shape :: "(go_inject, injected_env) shape" where
  "inject_shape = viewed (\<lambda>(n, v, s). \<lparr> ie_name = n, ie_value = v, ie_secret = s \<rparr>)
     (both (value_shape gi_name) (both (value_shape gi_value) (field_shape gi_secret (pointer secret_in secret_shape))))"

definition spec_shape :: "(go_spec, floxenv_spec) shape" where
  "spec_shape = viewed (\<lambda>(c, m, u, f, d, i).
       \<lparr> sp_consumption = c, sp_manifest = m, sp_update = u, sp_folder = f, sp_depends_on = d, sp_inject = i \<rparr>)
     (both (value_shape gs_consumption) (both (field_shape gs_manifest (pointer raw_in raw_shape))
       (both (field_shape gs_update (pointer update_in (value_shape (\<lambda>u. u)))) (both (value_shape gs_folder)
         (both (field_shape gs_depends_on (slice_of strings_in (value_shape (\<lambda>s. s))))
           (field_shape gs_inject (slice_of injects_in inject_shape)))))))"

definition conditions_shape :: "(slice, condition list) shape" where
  "conditions_shape = slice_of conditions_in (value_shape (\<lambda>c. c))"

definition realized_shape :: "(slice, node_realization list) shape" where
  "realized_shape = slice_of realized_in (value_shape (\<lambda>nr. nr))"

definition status_shape :: "(go_status, floxenv_status) shape" where
  "status_shape = viewed (\<lambda>(l, t, r, n, c).
       \<lparr> st_lock = l, st_relock_token = t, st_resolved = r, st_realized = n, st_conditions = c \<rparr>)
     (both (value_shape gt_lock) (both (value_shape gt_relock_token) (both (field_shape gt_resolved map_ref)
       (both (field_shape gt_realized realized_shape) (field_shape gt_conditions conditions_shape)))))"

definition env_shape :: "(go_env, floxenv) shape" where
  "env_shape = viewed (\<lambda>(m, s, t). \<lparr> fe_meta = m, fe_spec = s, fe_status = t \<rparr>)
     (both (field_shape ge_meta meta_shape) (both (field_shape ge_spec spec_shape) (field_shape ge_status status_shape)))"

definition catalog_status_shape :: "(go_catalog_status, floxcatalog_status) shape" where
  "catalog_status_shape = viewed (\<lambda>(r, u, f, s, e, c).
       \<lparr> ct_revision = r, ct_artifact_url = u, ct_flake_ref = f, ct_envs_summary = s, ct_envs = e, ct_conditions = c \<rparr>)
     (both (value_shape gct_revision) (both (value_shape gct_artifact_url) (both (value_shape gct_flake_ref)
       (both (value_shape gct_envs_summary) (both (field_shape gct_envs (slice_of phases_in (value_shape (\<lambda>p. p))))
         (field_shape gct_conditions conditions_shape))))))"

definition catalog_shape :: "(go_catalog, floxcatalog) shape" where
  "catalog_shape = viewed (\<lambda>(m, s, t). \<lparr> fc_meta = m, fc_spec = s, fc_status = t \<rparr>)
     (both (field_shape gc_meta meta_shape) (both (value_shape gc_spec) (field_shape gc_status catalog_status_shape)))"

lemmas api_shapes = map_ref_def meta_shape_def raw_shape_def secret_shape_def inject_shape_def spec_shape_def
  conditions_shape_def realized_shape_def status_shape_def env_shape_def catalog_status_shape_def catalog_shape_def

subsection \<open>The generated functions\<close>

record copy_lib =
  ObjectMeta_DeepCopyInto :: "go_meta \<Rightarrow> (heap, go_meta) state"
  RawExtension_DeepCopyInto :: "go_raw \<Rightarrow> (heap, go_raw) state"
  Condition_DeepCopyInto :: "condition \<Rightarrow> (heap, condition) state"

text \<open>What a new array or struct holds before it is written; no code reads it.\<close>

definition blank_secret :: go_secret where
  "blank_secret = \<lparr> gk_name = [], gk_key = [], gk_optional = None \<rparr>"

definition blank_inject :: go_inject where
  "blank_inject = \<lparr> gi_name = [], gi_value = [], gi_secret = None \<rparr>"

definition blank_realization :: node_realization where
  "blank_realization = \<lparr> nr_node = [], nr_ready = False, nr_store_path = [], nr_env_path = [],
     nr_gcroot_path = [], nr_observed = 0 \<rparr>"

definition blank_condition :: condition where
  "blank_condition = \<lparr> c_type = [], c_status = ConditionUnknown, c_reason = [], c_message = [], c_observed = 0 \<rparr>"

definition blank_meta :: go_meta where
  "blank_meta = \<lparr> gm_name = [], gm_namespace = [], gm_generation = 0, gm_annotations = None, gm_labels = None \<rparr>"

definition blank_env :: go_env where
  "blank_env =
    \<lparr> ge_meta = blank_meta,
      ge_spec = \<lparr> gs_consumption = [], gs_manifest = None, gs_update = None, gs_folder = [],
        gs_depends_on = NilSlice, gs_inject = NilSlice \<rparr>,
      ge_status = \<lparr> gt_lock = [], gt_relock_token = [], gt_resolved = None, gt_realized = NilSlice,
        gt_conditions = NilSlice \<rparr> \<rparr>"

definition blank_catalog :: go_catalog where
  "blank_catalog =
    \<lparr> gc_meta = blank_meta,
      gc_spec = \<lparr> cs_source_ref = \<lparr> sr_kind = [], sr_name = [], sr_namespace = [] \<rparr>, cs_dir = [] \<rparr>,
      gc_status = \<lparr> gct_revision = [], gct_artifact_url = [], gct_flake_ref = [], gct_envs_summary = [],
        gct_envs = NilSlice, gct_conditions = NilSlice \<rparr> \<rparr>"

text \<open>Structs without references.\<close>

definition FloxCatalogSpec_DeepCopyInto :: "floxcatalog_spec \<Rightarrow> (heap, floxcatalog_spec) state" where
  "FloxCatalogSpec_DeepCopyInto i = State_Monad.return (i\<lparr> cs_source_ref := cs_source_ref i \<rparr>)"

definition FloxEnvPhase_DeepCopyInto :: "floxenv_phase \<Rightarrow> (heap, floxenv_phase) state" where
  "FloxEnvPhase_DeepCopyInto i = State_Monad.return i"

definition NodeRealization_DeepCopyInto :: "node_realization \<Rightarrow> (heap, node_realization) state" where
  "NodeRealization_DeepCopyInto i = State_Monad.return i"

definition SourceReference_DeepCopyInto :: "source_reference \<Rightarrow> (heap, source_reference) state" where
  "SourceReference_DeepCopyInto i = State_Monad.return i"

definition UpdatePolicy_DeepCopyInto :: "update_policy \<Rightarrow> (heap, update_policy) state" where
  "UpdatePolicy_DeepCopyInto i = State_Monad.return i"

text \<open>Structs with references.\<close>

definition InjectedSecretKeyRef_DeepCopyInto :: "go_secret \<Rightarrow> (heap, go_secret) state" where
  "InjectedSecretKeyRef_DeepCopyInto i = do {
     o' \<leftarrow> copy_pointer bool_in BoolCell False State_Monad.return (gk_optional i);
     State_Monad.return (i\<lparr> gk_optional := o' \<rparr>)
   }"

definition InjectedEnv_DeepCopyInto :: "go_inject \<Rightarrow> (heap, go_inject) state" where
  "InjectedEnv_DeepCopyInto i = do {
     s \<leftarrow> copy_pointer secret_in SecretCell blank_secret InjectedSecretKeyRef_DeepCopyInto (gi_secret i);
     State_Monad.return (i\<lparr> gi_secret := s \<rparr>)
   }"

definition FloxEnvSpec_DeepCopyInto :: "copy_lib \<Rightarrow> go_spec \<Rightarrow> (heap, go_spec) state" where
  "FloxEnvSpec_DeepCopyInto Q i = do {
     m \<leftarrow> copy_pointer raw_in RawCell \<lparr> gr_raw = NilSlice \<rparr> (RawExtension_DeepCopyInto Q) (gs_manifest i);
     u \<leftarrow> copy_pointer update_in UpdateCell \<lparr> up_mode = [] \<rparr> State_Monad.return (gs_update i);
     d \<leftarrow> copy_values strings_in StringsCell [] (gs_depends_on i);
     e \<leftarrow> copy_slice injects_in InjectsCell blank_inject InjectedEnv_DeepCopyInto (gs_inject i);
     State_Monad.return (i\<lparr> gs_manifest := m, gs_update := u, gs_depends_on := d, gs_inject := e \<rparr>)
   }"

definition FloxEnvStatus_DeepCopyInto :: "copy_lib \<Rightarrow> go_status \<Rightarrow> (heap, go_status) state" where
  "FloxEnvStatus_DeepCopyInto Q i = do {
     r \<leftarrow> copy_map (gt_resolved i);
     n \<leftarrow> copy_values realized_in RealizedCell blank_realization (gt_realized i);
     c \<leftarrow> copy_slice conditions_in ConditionsCell blank_condition (Condition_DeepCopyInto Q) (gt_conditions i);
     State_Monad.return (i\<lparr> gt_resolved := r, gt_realized := n, gt_conditions := c \<rparr>)
   }"

definition FloxEnv_DeepCopyInto :: "copy_lib \<Rightarrow> go_env \<Rightarrow> (heap, go_env) state" where
  "FloxEnv_DeepCopyInto Q i = do {
     m \<leftarrow> ObjectMeta_DeepCopyInto Q (ge_meta i);
     s \<leftarrow> FloxEnvSpec_DeepCopyInto Q (ge_spec i);
     t \<leftarrow> FloxEnvStatus_DeepCopyInto Q (ge_status i);
     State_Monad.return (i\<lparr> ge_meta := m, ge_spec := s, ge_status := t \<rparr>)
   }"

definition FloxCatalogStatus_DeepCopyInto :: "copy_lib \<Rightarrow> go_catalog_status \<Rightarrow> (heap, go_catalog_status) state" where
  "FloxCatalogStatus_DeepCopyInto Q i = do {
     e \<leftarrow> copy_values phases_in PhasesCell \<lparr> ph_name = [], ph_phase = [] \<rparr> (gct_envs i);
     c \<leftarrow> copy_slice conditions_in ConditionsCell blank_condition (Condition_DeepCopyInto Q) (gct_conditions i);
     State_Monad.return (i\<lparr> gct_envs := e, gct_conditions := c \<rparr>)
   }"

definition FloxCatalog_DeepCopyInto :: "copy_lib \<Rightarrow> go_catalog \<Rightarrow> (heap, go_catalog) state" where
  "FloxCatalog_DeepCopyInto Q i = do {
     m \<leftarrow> ObjectMeta_DeepCopyInto Q (gc_meta i);
     t \<leftarrow> FloxCatalogStatus_DeepCopyInto Q (gc_status i);
     State_Monad.return (i\<lparr> gc_meta := m, gc_spec := gc_spec i, gc_status := t \<rparr>)
   }"

definition FloxEnvList_DeepCopyInto :: "copy_lib \<Rightarrow> go_list \<Rightarrow> (heap, go_list) state" where
  "FloxEnvList_DeepCopyInto Q i = do {
     es \<leftarrow> copy_slice envs_in EnvsCell blank_env (FloxEnv_DeepCopyInto Q) (gl_items i);
     State_Monad.return (i\<lparr> gl_items := es \<rparr>)
   }"

definition FloxCatalogList_DeepCopyInto :: "copy_lib \<Rightarrow> go_list \<Rightarrow> (heap, go_list) state" where
  "FloxCatalogList_DeepCopyInto Q i = do {
     cs \<leftarrow> copy_slice catalogs_in CatalogsCell blank_catalog (FloxCatalog_DeepCopyInto Q) (gl_items i);
     State_Monad.return (i\<lparr> gl_items := cs \<rparr>)
   }"

text \<open>\<open>DeepCopy\<close>, on a pointer that may be nil.\<close>

definition FloxCatalogSpec_DeepCopy :: "floxcatalog_spec option \<Rightarrow> (heap, floxcatalog_spec option) state" where
  "FloxCatalogSpec_DeepCopy = or_nil FloxCatalogSpec_DeepCopyInto"

definition FloxEnvPhase_DeepCopy :: "floxenv_phase option \<Rightarrow> (heap, floxenv_phase option) state" where
  "FloxEnvPhase_DeepCopy = or_nil FloxEnvPhase_DeepCopyInto"

definition NodeRealization_DeepCopy :: "node_realization option \<Rightarrow> (heap, node_realization option) state" where
  "NodeRealization_DeepCopy = or_nil NodeRealization_DeepCopyInto"

definition SourceReference_DeepCopy :: "source_reference option \<Rightarrow> (heap, source_reference option) state" where
  "SourceReference_DeepCopy = or_nil SourceReference_DeepCopyInto"

definition UpdatePolicy_DeepCopy :: "update_policy option \<Rightarrow> (heap, update_policy option) state" where
  "UpdatePolicy_DeepCopy = or_nil UpdatePolicy_DeepCopyInto"

definition InjectedSecretKeyRef_DeepCopy :: "go_secret option \<Rightarrow> (heap, go_secret option) state" where
  "InjectedSecretKeyRef_DeepCopy = or_nil InjectedSecretKeyRef_DeepCopyInto"

definition InjectedEnv_DeepCopy :: "go_inject option \<Rightarrow> (heap, go_inject option) state" where
  "InjectedEnv_DeepCopy = or_nil InjectedEnv_DeepCopyInto"

definition FloxEnvSpec_DeepCopy :: "copy_lib \<Rightarrow> go_spec option \<Rightarrow> (heap, go_spec option) state" where
  "FloxEnvSpec_DeepCopy Q = or_nil (FloxEnvSpec_DeepCopyInto Q)"

definition FloxEnvStatus_DeepCopy :: "copy_lib \<Rightarrow> go_status option \<Rightarrow> (heap, go_status option) state" where
  "FloxEnvStatus_DeepCopy Q = or_nil (FloxEnvStatus_DeepCopyInto Q)"

definition FloxEnv_DeepCopy :: "copy_lib \<Rightarrow> go_env option \<Rightarrow> (heap, go_env option) state" where
  "FloxEnv_DeepCopy Q = or_nil (FloxEnv_DeepCopyInto Q)"

definition FloxCatalogStatus_DeepCopy :: "copy_lib \<Rightarrow> go_catalog_status option \<Rightarrow> (heap, go_catalog_status option) state" where
  "FloxCatalogStatus_DeepCopy Q = or_nil (FloxCatalogStatus_DeepCopyInto Q)"

definition FloxCatalog_DeepCopy :: "copy_lib \<Rightarrow> go_catalog option \<Rightarrow> (heap, go_catalog option) state" where
  "FloxCatalog_DeepCopy Q = or_nil (FloxCatalog_DeepCopyInto Q)"

definition FloxEnvList_DeepCopy :: "copy_lib \<Rightarrow> go_list option \<Rightarrow> (heap, go_list option) state" where
  "FloxEnvList_DeepCopy Q = or_nil (FloxEnvList_DeepCopyInto Q)"

definition FloxCatalogList_DeepCopy :: "copy_lib \<Rightarrow> go_list option \<Rightarrow> (heap, go_list option) state" where
  "FloxCatalogList_DeepCopy Q = or_nil (FloxCatalogList_DeepCopyInto Q)"

text \<open>\<open>DeepCopyObject\<close>: the same as a value of the interface \<open>runtime.Object\<close>, nil for nil.\<close>

datatype runtime_object = EnvObject go_env | CatalogObject go_catalog | EnvListObject go_list | CatalogListObject go_list

definition FloxEnv_DeepCopyObject :: "copy_lib \<Rightarrow> go_env option \<Rightarrow> (heap, runtime_object option) state" where
  "FloxEnv_DeepCopyObject Q x = do {
     c \<leftarrow> FloxEnv_DeepCopy Q x;
     State_Monad.return (case c of Some v \<Rightarrow> Some (EnvObject v) | None \<Rightarrow> None)
   }"

definition FloxCatalog_DeepCopyObject :: "copy_lib \<Rightarrow> go_catalog option \<Rightarrow> (heap, runtime_object option) state" where
  "FloxCatalog_DeepCopyObject Q x = do {
     c \<leftarrow> FloxCatalog_DeepCopy Q x;
     State_Monad.return (case c of Some v \<Rightarrow> Some (CatalogObject v) | None \<Rightarrow> None)
   }"

definition FloxEnvList_DeepCopyObject :: "copy_lib \<Rightarrow> go_list option \<Rightarrow> (heap, runtime_object option) state" where
  "FloxEnvList_DeepCopyObject Q x = do {
     c \<leftarrow> FloxEnvList_DeepCopy Q x;
     State_Monad.return (case c of Some v \<Rightarrow> Some (EnvListObject v) | None \<Rightarrow> None)
   }"

definition FloxCatalogList_DeepCopyObject :: "copy_lib \<Rightarrow> go_list option \<Rightarrow> (heap, runtime_object option) state" where
  "FloxCatalogList_DeepCopyObject Q x = do {
     c \<leftarrow> FloxCatalogList_DeepCopy Q x;
     State_Monad.return (case c of Some v \<Rightarrow> Some (CatalogListObject v) | None \<Rightarrow> None)
   }"

subsection \<open>They copy\<close>

definition copy_laws :: "copy_lib \<Rightarrow> bool" where
  "copy_laws Q \<longleftrightarrow> clones meta_shape (ObjectMeta_DeepCopyInto Q) \<and> clones raw_shape (RawExtension_DeepCopyInto Q) \<and>
     clones (value_shape (\<lambda>c. c)) (Condition_DeepCopyInto Q)"

lemma api_types [shape_intros]:
  "go_type map_ref" "go_type meta_shape" "go_type raw_shape" "go_type secret_shape" "go_type inject_shape"
  "go_type spec_shape" "go_type conditions_shape" "go_type realized_shape" "go_type status_shape" "go_type env_shape"
  "go_type catalog_status_shape" "go_type catalog_shape"
  unfolding api_shapes by (intro shape_intros)+

lemma cell_in [simp]:
  "map_in (MapCell m) = Some m" "bytes_in (BytesCell s) = Some s" "strings_in (StringsCell ss) = Some ss"
  "raw_in (RawCell r) = Some r" "update_in (UpdateCell u) = Some u" "bool_in (BoolCell b) = Some b"
  "secret_in (SecretCell k) = Some k" "injects_in (InjectsCell is) = Some is" "realized_in (RealizedCell ns) = Some ns"
  "conditions_in (ConditionsCell cs) = Some cs" "phases_in (PhasesCell ps) = Some ps" "envs_in (EnvsCell es) = Some es"
  "catalogs_in (CatalogsCell fs) = Some fs"
  by (simp_all add: cell_defs)

named_theorems copy_intros "the functions that copy"

lemmas [copy_intros] = clones_return

lemma clones_map_ref [copy_intros]: "clones map_ref copy_map"
  unfolding map_ref_def by (rule clones_viewed [OF clones_map])

lemma clones_fields [copy_intros]:
  "clones (pointer bool_in (value_shape (\<lambda>b. b))) (copy_pointer bool_in BoolCell zb State_Monad.return)"
  "clones (pointer update_in (value_shape (\<lambda>u. u))) (copy_pointer update_in UpdateCell zu State_Monad.return)"
  "clones (slice_of strings_in (value_shape (\<lambda>s. s))) (copy_values strings_in StringsCell zs)"
  "clones (slice_of phases_in (value_shape (\<lambda>p. p))) (copy_values phases_in PhasesCell zp)"
  "clones realized_shape (copy_values realized_in RealizedCell zn)"
  unfolding realized_shape_def
  by (intro clones_pointer clones_values value_type clones_return cell_in)+

lemma clones_secret [copy_intros]: "clones secret_shape InjectedSecretKeyRef_DeepCopyInto"
proof (rule clonesI)
  fix h x assume "sh_ok secret_shape h x"
  then have ok: "sh_ok (pointer bool_in (value_shape (\<lambda>b. b))) h (gk_optional x)"
    by (simp_all add: secret_shape_def)
  show "runs (InjectedSecretKeyRef_DeepCopyInto x) h (\<lambda>c h'. copied secret_shape h h' x c)"
    unfolding InjectedSecretKeyRef_DeepCopyInto_def
    by (rule copy_field copy_done copy_intros shape_intros grown_refl ok | assumption)+
      (auto simp: secret_shape_def intro!: copied_viewed)
qed

lemma clones_secrets [copy_intros]:
  "clones (pointer secret_in secret_shape) (copy_pointer secret_in SecretCell z InjectedSecretKeyRef_DeepCopyInto)"
  by (intro clones_pointer clones_secret shape_intros cell_in)

lemma clones_inject [copy_intros]: "clones inject_shape InjectedEnv_DeepCopyInto"
proof (rule clonesI)
  fix h x assume "sh_ok inject_shape h x"
  then have ok: "sh_ok (pointer secret_in secret_shape) h (gi_secret x)"
    by (simp_all add: inject_shape_def)
  show "runs (InjectedEnv_DeepCopyInto x) h (\<lambda>c h'. copied inject_shape h h' x c)"
    unfolding InjectedEnv_DeepCopyInto_def
    by (rule copy_field copy_done copy_intros shape_intros grown_refl ok | assumption)+
      (auto simp: inject_shape_def intro!: copied_viewed)
qed

lemma clones_injects [copy_intros]:
  "clones (slice_of injects_in inject_shape) (copy_slice injects_in InjectsCell z InjectedEnv_DeepCopyInto)"
  by (intro clones_slice clones_inject shape_intros cell_in)

lemma clones_library:
  assumes "copy_laws Q"
  shows "clones (pointer raw_in raw_shape) (copy_pointer raw_in RawCell zr (RawExtension_DeepCopyInto Q))"
    "clones conditions_shape (copy_slice conditions_in ConditionsCell zc (Condition_DeepCopyInto Q))"
    "clones meta_shape (ObjectMeta_DeepCopyInto Q)"
  using assms unfolding copy_laws_def conditions_shape_def
  by (auto intro!: clones_pointer clones_slice shape_intros)

lemma clones_spec:
  assumes "copy_laws Q"
  shows "clones spec_shape (FloxEnvSpec_DeepCopyInto Q)"
proof (rule clonesI)
  fix h x assume "sh_ok spec_shape h x"
  then have ok: "sh_ok (pointer raw_in raw_shape) h (gs_manifest x)" "sh_ok (pointer update_in (value_shape (\<lambda>u. u))) h (gs_update x)" "sh_ok (slice_of strings_in (value_shape (\<lambda>s. s))) h (gs_depends_on x)" "sh_ok (slice_of injects_in inject_shape) h (gs_inject x)"
    by (simp_all add: spec_shape_def)
  note laws = clones_library [OF assms]
  show "runs (FloxEnvSpec_DeepCopyInto Q x) h (\<lambda>c h'. copied spec_shape h h' x c)"
    unfolding FloxEnvSpec_DeepCopyInto_def
    by (rule copy_field copy_done copy_intros shape_intros grown_refl ok laws | assumption)+
      (auto simp: spec_shape_def intro!: copied_viewed,
       (erule copied_while, (rule shape_intros)+, meson grown_trans)+)
qed

lemma clones_status:
  assumes "copy_laws Q"
  shows "clones status_shape (FloxEnvStatus_DeepCopyInto Q)"
proof (rule clonesI)
  fix h x assume "sh_ok status_shape h x"
  then have ok: "sh_ok map_ref h (gt_resolved x)" "sh_ok realized_shape h (gt_realized x)" "sh_ok conditions_shape h (gt_conditions x)"
    by (simp_all add: status_shape_def)
  note laws = clones_library [OF assms]
  show "runs (FloxEnvStatus_DeepCopyInto Q x) h (\<lambda>c h'. copied status_shape h h' x c)"
    unfolding FloxEnvStatus_DeepCopyInto_def
    by (rule copy_field copy_done copy_intros shape_intros grown_refl ok laws | assumption)+
      (auto simp: status_shape_def intro!: copied_viewed,
       (erule copied_while, (rule shape_intros)+, meson grown_trans)+)
qed

lemma clones_env:
  assumes "copy_laws Q"
  shows "clones env_shape (FloxEnv_DeepCopyInto Q)"
proof (rule clonesI)
  fix h x assume "sh_ok env_shape h x"
  then have ok: "sh_ok meta_shape h (ge_meta x)" "sh_ok spec_shape h (ge_spec x)" "sh_ok status_shape h (ge_status x)"
    by (simp_all add: env_shape_def)
  note laws = clones_library [OF assms] clones_spec [OF assms] clones_status [OF assms]
  show "runs (FloxEnv_DeepCopyInto Q x) h (\<lambda>c h'. copied env_shape h h' x c)"
    unfolding FloxEnv_DeepCopyInto_def
    by (rule copy_field copy_done copy_intros shape_intros grown_refl ok laws | assumption)+
      (auto simp: env_shape_def intro!: copied_viewed,
       (erule copied_while, (rule shape_intros)+, meson grown_trans)+)
qed

lemma clones_catalog_status:
  assumes "copy_laws Q"
  shows "clones catalog_status_shape (FloxCatalogStatus_DeepCopyInto Q)"
proof (rule clonesI)
  fix h x assume "sh_ok catalog_status_shape h x"
  then have ok: "sh_ok (slice_of phases_in (value_shape (\<lambda>p. p))) h (gct_envs x)" "sh_ok conditions_shape h (gct_conditions x)"
    by (simp_all add: catalog_status_shape_def)
  note laws = clones_library [OF assms]
  show "runs (FloxCatalogStatus_DeepCopyInto Q x) h (\<lambda>c h'. copied catalog_status_shape h h' x c)"
    unfolding FloxCatalogStatus_DeepCopyInto_def
    by (rule copy_field copy_done copy_intros shape_intros grown_refl ok laws | assumption)+
      (auto simp: catalog_status_shape_def intro!: copied_viewed,
       (erule copied_while, (rule shape_intros)+, meson grown_trans)+)
qed

lemma clones_catalog:
  assumes "copy_laws Q"
  shows "clones catalog_shape (FloxCatalog_DeepCopyInto Q)"
proof (rule clonesI)
  fix h x assume "sh_ok catalog_shape h x"
  then have ok: "sh_ok meta_shape h (gc_meta x)" "sh_ok catalog_status_shape h (gc_status x)"
    by (simp_all add: catalog_shape_def)
  note laws = clones_library [OF assms] clones_catalog_status [OF assms]
  show "runs (FloxCatalog_DeepCopyInto Q x) h (\<lambda>c h'. copied catalog_shape h h' x c)"
    unfolding FloxCatalog_DeepCopyInto_def
    by (rule copy_field copy_done copy_intros shape_intros grown_refl ok laws | assumption)+
      (auto simp: catalog_shape_def intro!: copied_viewed,
       (erule copied_while, (rule shape_intros)+, meson grown_trans)+)
qed

definition env_list_shape :: "(go_list, floxenv list) shape" where
  "env_list_shape = field_shape gl_items (slice_of envs_in env_shape)"

definition catalog_list_shape :: "(go_list, floxcatalog list) shape" where
  "catalog_list_shape = field_shape gl_items (slice_of catalogs_in catalog_shape)"

lemma list_types [shape_intros]: "go_type env_list_shape" "go_type catalog_list_shape"
  unfolding env_list_shape_def catalog_list_shape_def by (intro shape_intros)+

lemma clones_lists:
  assumes "copy_laws Q"
  shows "clones env_list_shape (FloxEnvList_DeepCopyInto Q)" "clones catalog_list_shape (FloxCatalogList_DeepCopyInto Q)"
proof -
  have items: "clones (slice_of envs_in env_shape) (copy_slice envs_in EnvsCell blank_env (FloxEnv_DeepCopyInto Q))"
    "clones (slice_of catalogs_in catalog_shape) (copy_slice catalogs_in CatalogsCell blank_catalog (FloxCatalog_DeepCopyInto Q))"
    by (intro clones_slice shape_intros clones_env [OF assms] clones_catalog [OF assms] cell_in)+
  show "clones env_list_shape (FloxEnvList_DeepCopyInto Q)"
    by (rule clonesI, unfold FloxEnvList_DeepCopyInto_def,
      (rule copy_field copy_done items shape_intros grown_refl)+) (auto simp: env_list_shape_def)
  show "clones catalog_list_shape (FloxCatalogList_DeepCopyInto Q)"
    by (rule clonesI, unfold FloxCatalogList_DeepCopyInto_def,
      (rule copy_field copy_done items shape_intros grown_refl)+) (auto simp: catalog_list_shape_def)
qed

text \<open>The law of a Go type for the objects the controllers copy.\<close>

interpretation env_object: go_type env_shape by (rule api_types)

interpretation catalog_object: go_type catalog_shape by (rule api_types)

interpretation env_list: go_type env_list_shape by (rule list_types)

interpretation catalog_list: go_type catalog_list_shape by (rule list_types)

lemma DeepCopy_runs:
  assumes "copy_laws Q"
  shows "sh_ok env_shape h x \<Longrightarrow> runs (FloxEnv_DeepCopy Q (Some x)) h (\<lambda>c h'. \<exists>y. c = Some y \<and> copied env_shape h h' x y)"
    "sh_ok catalog_shape h f \<Longrightarrow>
      runs (FloxCatalog_DeepCopy Q (Some f)) h (\<lambda>c h'. \<exists>y. c = Some y \<and> copied catalog_shape h h' f y)"
  by (simp_all add: FloxEnv_DeepCopy_def FloxCatalog_DeepCopy_def
      runs_or_nil [OF clones_env [OF assms]] runs_or_nil [OF clones_catalog [OF assms]])

text \<open>
  \<open>DeepCopy\<close> separates. The copy of an env means what the env means, and stays so whatever is
  written later to the cells there were before the copy was made; the env itself is unchanged by the
  copy and stays so whatever is written to the cells of the copy. So the base of a merge patch is the
  object as it was read, although the code then edits the object in place.
\<close>

theorem deep_copy_separates:
  assumes "copy_laws Q" "sh_ok env_shape h x"
  shows "\<exists>c h'. run_state (FloxEnv_DeepCopy Q (Some x)) h = (Some c, h') \<and>
    (\<forall>h2. length h' \<le> length h2 \<and> (\<forall>a. length h \<le> a \<and> a < length h' \<longrightarrow> h2 ! a = h' ! a) \<longrightarrow>
       sh_view env_shape h2 c = sh_view env_shape h x) \<and>
    (\<forall>h2. length h' \<le> length h2 \<and> (\<forall>a < length h. h2 ! a = h' ! a) \<longrightarrow>
       sh_view env_shape h2 x = sh_view env_shape h x)"
proof -
  from DeepCopy_runs(1) [OF assms] obtain c h' where
      run: "run_state (FloxEnv_DeepCopy Q (Some x)) h = (Some c, h')" and c: "copied env_shape h h' x c"
    by (auto simp: runs_def split: prod.splits)
  have "sh_view env_shape h2 c = sh_view env_shape h x"
    if "length h' \<le> length h2" "\<forall>a. length h \<le> a \<and> a < length h' \<longrightarrow> h2 ! a = h' ! a" for h2
    by (rule env_object.copy_isolated [OF c]) (use that in auto)
  moreover have "sh_view env_shape h2 x = sh_view env_shape h x"
    if "length h' \<le> length h2" "\<forall>a < length h. h2 ! a = h' ! a" for h2
    by (rule env_object.original_isolated [OF assms(2) c]) (use that in auto)
  ultimately show ?thesis using run by blast
qed

subsection \<open>An env in a heap\<close>

text \<open>A library that copies, and an env with a cell of every kind a reconcile touches.\<close>

definition sample_copies :: copy_lib where
  "sample_copies =
    \<lparr> ObjectMeta_DeepCopyInto = (\<lambda>m. do {
        a \<leftarrow> copy_map (gm_annotations m);
        l \<leftarrow> copy_map (gm_labels m);
        State_Monad.return (m\<lparr> gm_annotations := a, gm_labels := l \<rparr>) }),
      RawExtension_DeepCopyInto = (\<lambda>r. do {
        s \<leftarrow> copy_values bytes_in BytesCell CHR ''0'' (gr_raw r);
        State_Monad.return (r\<lparr> gr_raw := s \<rparr>) }),
      Condition_DeepCopyInto = State_Monad.return \<rparr>"

lemma sample_copies_laws: "copy_laws sample_copies"
proof -
  have "clones meta_shape (ObjectMeta_DeepCopyInto sample_copies)"
  proof (rule clonesI)
    fix h x assume "sh_ok meta_shape h x"
    then have ok: "sh_ok map_ref h (gm_annotations x)" "sh_ok map_ref h (gm_labels x)" by (simp_all add: meta_shape_def)
    show "runs (ObjectMeta_DeepCopyInto sample_copies x) h (\<lambda>c h'. copied meta_shape h h' x c)"
      unfolding sample_copies_def copy_lib.simps
      by (rule copy_field copy_done copy_intros shape_intros grown_refl ok | assumption)+
        (auto simp: meta_shape_def intro!: copied_viewed, (erule copied_while, (rule shape_intros)+, meson grown_trans)+)
  qed
  moreover have "clones raw_shape (RawExtension_DeepCopyInto sample_copies)"
  proof (rule clonesI)
    fix h x assume "sh_ok raw_shape h x"
    then have ok: "sh_ok (slice_of bytes_in (value_shape (\<lambda>c. c))) h (gr_raw x)" by (simp add: raw_shape_def)
    show "runs (RawExtension_DeepCopyInto sample_copies x) h (\<lambda>c h'. copied raw_shape h h' x c)"
      unfolding sample_copies_def copy_lib.simps
      by (rule copy_field copy_done clones_values cell_in shape_intros grown_refl ok | assumption)+
        (auto simp: raw_shape_def)
  qed
  ultimately show ?thesis by (simp add: copy_laws_def sample_copies_def clones_return)
qed

definition built_entry :: node_realization where
  "built_entry = \<lparr> nr_node = ''n1'', nr_ready = True, nr_store_path = ''/nix/store/0'', nr_env_path = ''/envs/web'',
     nr_gcroot_path = ''/gc/web'', nr_observed = 1 \<rparr>"

definition web_heap :: heap where
  "web_heap = [MapCell [(''team'', ''a'')], BytesCell ''M1'', RawCell \<lparr> gr_raw = Slice 1 2 \<rparr>,
     RealizedCell [built_entry, blank_realization], ConditionsCell []]"

definition web_in_heap :: go_env where
  "web_in_heap =
    \<lparr> ge_meta = \<lparr> gm_name = ''web'', gm_namespace = ''ns'', gm_generation = 2, gm_annotations = Some 0,
        gm_labels = None \<rparr>,
      ge_spec = \<lparr> gs_consumption = [], gs_manifest = Some 2, gs_update = None, gs_folder = [],
        gs_depends_on = NilSlice, gs_inject = NilSlice \<rparr>,
      ge_status = \<lparr> gt_lock = ''L1'', gt_relock_token = [], gt_resolved = None, gt_realized = Slice 3 1,
        gt_conditions = Slice 4 0 \<rparr> \<rparr>"

lemmas web_heap_defs = web_heap_def web_in_heap_def built_entry_def

lemmas shape_eval = api_shapes pointer_def slice_of_def elements_def cell_at_def map_shape_def value_shape_def

lemma web_in_heap_ok: "sh_ok env_shape web_heap web_in_heap"
  by (simp add: web_heap_defs shape_eval)

theorem deep_copy_separates_witness:
  "\<exists>c h'. run_state (FloxEnv_DeepCopy sample_copies (Some web_in_heap)) web_heap = (Some c, h') \<and>
    (\<forall>h2. length h' \<le> length h2 \<and> (\<forall>a. length web_heap \<le> a \<and> a < length h' \<longrightarrow> h2 ! a = h' ! a) \<longrightarrow>
       sh_view env_shape h2 c = sh_view env_shape web_heap web_in_heap) \<and>
    (\<forall>h2. length h' \<le> length h2 \<and> (\<forall>a < length web_heap. h2 ! a = h' ! a) \<longrightarrow>
       sh_view env_shape h2 web_in_heap = sh_view env_shape web_heap web_in_heap)"
  by (rule deep_copy_separates [OF sample_copies_laws web_in_heap_ok])

end
