(* ===== verification/PatchBases.thy ===== *)
theory PatchBases
  imports DeepCopy Examples Catalog
begin

text \<open>
  The updates the controllers make before a patch, over the heap: the object is copied, then edited in
  place, and the patch is computed from the copy and the object. Each update is shown to give the pair
  of values the model of its controller sends (\<open>FloxEnvController\<close>, \<open>Catalog\<close>), although slices and
  maps are written where they are.
\<close>

subsection \<open>Edits in place\<close>

text \<open>
  \<open>append\<close>: into the room the backing array has left, or into a new array, larger by what the runtime
  chooses (\<open>room\<close>).
\<close>

definition go_append ::
  "(cell \<Rightarrow> 'a list option) \<Rightarrow> ('a list \<Rightarrow> cell) \<Rightarrow> 'a \<Rightarrow> (nat \<Rightarrow> nat) \<Rightarrow> slice \<Rightarrow> 'a \<Rightarrow> (heap, slice) state" where
  "go_append p mk zero room s x = (case s of
       NilSlice \<Rightarrow> do {
         b \<leftarrow> alloc (mk (x # replicate (room 0) zero));
         State_Monad.return (Slice b 1)
       }
     | Slice a n \<Rightarrow> do {
         xs \<leftarrow> load p [] a;
         if n < length xs then do {
           _ \<leftarrow> store_cell a (mk (xs[n := x]));
           State_Monad.return (Slice a (Suc n))
         }
         else do {
           b \<leftarrow> alloc (mk (xs @ x # replicate (room n) zero));
           State_Monad.return (Slice b (Suc n))
         }
       })"

text \<open>
  The library's \<open>SetStatusCondition\<close> edits the list it is given the address of; the growth of a full
  array is the runtime's.
\<close>

record edit_lib =
  lib_copies :: copy_lib
  SetStatusCondition_at :: "slice \<Rightarrow> condition \<Rightarrow> (heap, slice) state"
  append_room :: "nat \<Rightarrow> nat"

text \<open>\<open>upsertRealization\<close>: the loop over the indices of the slice, then the append.\<close>

fun upsert_at ::
  "(nat \<Rightarrow> nat) \<Rightarrow> addr \<Rightarrow> nat \<Rightarrow> node_realization \<Rightarrow> nat list \<Rightarrow> (heap, slice) state" where
  "upsert_at room a n nr [] = go_append realized_in RealizedCell blank_realization room (Slice a n) nr"
| "upsert_at room a n nr (i # is) = do {
     xs \<leftarrow> load realized_in [] a;
     if nr_node (xs ! i) = nr_node nr then do {
       _ \<leftarrow> store_cell a (RealizedCell (xs[i := nr]));
       State_Monad.return (Slice a n)
     }
     else upsert_at room a n nr is
   }"

definition upsertRealization_at :: "(nat \<Rightarrow> nat) \<Rightarrow> go_status \<Rightarrow> node_realization \<Rightarrow> (heap, go_status) state" where
  "upsertRealization_at room st nr = do {
     s \<leftarrow> (case gt_realized st of
         NilSlice \<Rightarrow> go_append realized_in RealizedCell blank_realization room NilSlice nr
       | Slice a n \<Rightarrow> upsert_at room a n nr [0..<n]);
     State_Monad.return (st\<lparr> gt_realized := s \<rparr>)
   }"

definition set_annotation :: "addr option \<Rightarrow> string \<Rightarrow> string \<Rightarrow> (heap, addr) state" where
  "set_annotation annotations k v = do {
     a \<leftarrow> (case annotations of None \<Rightarrow> alloc (MapCell []) | Some a \<Rightarrow> State_Monad.return a);
     m \<leftarrow> load map_in [] a;
     _ \<leftarrow> store_cell a (MapCell (AList.update k v m));
     State_Monad.return a
   }"

definition set_ready :: "edit_lib \<Rightarrow> go_env \<Rightarrow> condition_status \<Rightarrow> string \<Rightarrow> string \<Rightarrow> (heap, go_env) state" where
  "set_ready Q env status reason msg = do {
     cs \<leftarrow> SetStatusCondition_at Q (gt_conditions (ge_status env))
       \<lparr> c_type = ''Ready'', c_status = status, c_reason = reason, c_message = msg,
         c_observed = gm_generation (ge_meta env) \<rparr>;
     State_Monad.return (env\<lparr> ge_status := (ge_status env)\<lparr> gt_conditions := cs \<rparr> \<rparr>)
   }"

text \<open>The success write of the node agent, and the stamp of the catalog controller.\<close>

definition record_realized_at :: "edit_lib \<Rightarrow> string \<Rightarrow> string \<Rightarrow> realize_result \<Rightarrow> go_env \<Rightarrow> (heap, go_env) state" where
  "record_realized_at Q node relock res env = (
     let st0 = ge_status env;
         st1 = (if rs_lock res \<noteq> [] then st0\<lparr> gt_lock := rs_lock res \<rparr> else st0);
         st2 = st1\<lparr> gt_relock_token := relock \<rparr>
     in do {
       st3 \<leftarrow> upsertRealization_at (append_room Q) st2
         \<lparr> nr_node = node, nr_ready = True, nr_store_path = rs_store_path res, nr_env_path = rs_env_path res,
           nr_gcroot_path = rs_gcroot_path res, nr_observed = gm_generation (ge_meta env) \<rparr>;
       set_ready Q (env\<lparr> ge_status := st3 \<rparr>) ConditionTrue ''Realized''
         (''realized on '' @ node @ '' at '' @ rs_store_path res)
     })"

definition with_relock_at :: "string \<Rightarrow> go_env \<Rightarrow> (heap, go_env) state" where
  "with_relock_at revision env = do {
     a \<leftarrow> set_annotation (gm_annotations (ge_meta env)) relockAnnotation revision;
     State_Monad.return (env\<lparr> ge_meta := (ge_meta env)\<lparr> gm_annotations := Some a \<rparr> \<rparr>)
   }"

text \<open>A catalog: its condition, and what a resolution records. \<open>envsRollup\<close> answers nil when its list fails.\<close>

definition set_catalog_ready ::
  "edit_lib \<Rightarrow> go_catalog \<Rightarrow> condition_status \<Rightarrow> string \<Rightarrow> string \<Rightarrow> (heap, go_catalog) state" where
  "set_catalog_ready Q flake status reason msg = do {
     cs \<leftarrow> SetStatusCondition_at Q (gct_conditions (gc_status flake))
       \<lparr> c_type = ''Ready'', c_status = status, c_reason = reason, c_message = msg,
         c_observed = gm_generation (gc_meta flake) \<rparr>;
     State_Monad.return (flake\<lparr> gc_status := (gc_status flake)\<lparr> gct_conditions := cs \<rparr> \<rparr>)
   }"

definition rollup_slice :: "floxenv_phase list option \<Rightarrow> (heap, slice) state" where
  "rollup_slice plan = (case plan of None \<Rightarrow> State_Monad.return NilSlice
     | Some ps \<Rightarrow> do { b \<leftarrow> alloc (PhasesCell ps); State_Monad.return (Slice b (length ps)) })"

definition resolved_catalog_at ::
  "edit_lib \<Rightarrow> go_catalog \<Rightarrow> string \<Rightarrow> string \<Rightarrow> string \<Rightarrow> string \<Rightarrow> floxenv_phase list option \<Rightarrow> (heap, go_catalog) state" where
  "resolved_catalog_at Q flake revision url flakeRef summary plan = do {
     es \<leftarrow> rollup_slice plan;
     set_catalog_ready Q
       (flake\<lparr> gc_status := (gc_status flake)\<lparr> gct_revision := revision, gct_artifact_url := url,
          gct_flake_ref := flakeRef, gct_envs_summary := summary, gct_envs := es \<rparr> \<rparr>)
       ConditionTrue ''Resolved''
       (''resolved from GitRepository '' @ sr_name (cs_source_ref (gc_spec flake)) @ '' at '' @ revision)
   }"

text \<open>What the code gives to \<open>Patch\<close>: the base, copied before the edit, and the object.\<close>

definition env_patch :: "edit_lib \<Rightarrow> (go_env \<Rightarrow> (heap, go_env) state) \<Rightarrow> go_env \<Rightarrow> (heap, go_env option \<times> go_env) state" where
  "env_patch Q edit env = do {
     base \<leftarrow> FloxEnv_DeepCopy (lib_copies Q) (Some env);
     new \<leftarrow> edit env;
     State_Monad.return (base, new)
   }"

definition catalog_patch ::
  "edit_lib \<Rightarrow> (go_catalog \<Rightarrow> (heap, go_catalog) state) \<Rightarrow> go_catalog \<Rightarrow> (heap, go_catalog option \<times> go_catalog) state" where
  "catalog_patch Q edit flake = do {
     base \<leftarrow> FloxCatalog_DeepCopy (lib_copies Q) (Some flake);
     new \<leftarrow> edit flake;
     State_Monad.return (base, new)
   }"

subsection \<open>The edits refine the model's updates\<close>

lemma writes_trans: "writes_only A h h' \<Longrightarrow> writes_only B h' h'' \<Longrightarrow> writes_only (A \<union> B) h h''"
  by (auto simp: writes_only_def same_at_def)

lemma writes_grown: "grown h h' \<Longrightarrow> writes_only {} h h'"
  by (simp add: writes_only_def grown_def grown_length)

lemma writes_store [simp]: "a < length h \<Longrightarrow> writes_only {a} h (h[a := c])"
  by (auto simp: writes_only_def same_at_def nth_list_update)

lemma writes_alloc [simp]: "writes_only A h (h @ cs)"
  by (auto simp: writes_only_def same_at_def nth_append)

text \<open>
  \<open>edited T g h s s' h'\<close>: \<open>s'\<close> means what \<open>g\<close> makes of \<open>s\<close>; only cells of \<open>s\<close> were written, and \<open>s'\<close>
  reaches those and new ones.
\<close>

definition edited :: "('a, 'v) shape \<Rightarrow> ('v \<Rightarrow> 'v) \<Rightarrow> heap \<Rightarrow> 'a \<Rightarrow> 'a \<Rightarrow> heap \<Rightarrow> bool" where
  "edited T g h s s' h' \<longleftrightarrow> writes_only (sh_foot T h s) h h' \<and> sh_ok T h' s' \<and>
     sh_view T h' s' = g (sh_view T h s) \<and> sh_foot T h' s' \<subseteq> sh_foot T h s \<union> {length h..}"

lemma values_simps:
  "sh_ok (slice_of p (value_shape (\<lambda>x. x))) h s \<longleftrightarrow>
     (case s of NilSlice \<Rightarrow> True | Slice a n \<Rightarrow> \<exists>xs. cell_at p h a = Some xs \<and> n \<le> length xs)"
  "sh_view (slice_of p (value_shape (\<lambda>x. x))) h s = elements p h s"
  "sh_foot (slice_of p (value_shape (\<lambda>x. x))) h s = (case s of NilSlice \<Rightarrow> {} | Slice a n \<Rightarrow> {a})"
  by (auto simp: slice_of_def value_shape_def list_all_iff split: slice.splits option.splits)

lemma append_edits:
  assumes "sh_ok (slice_of p (value_shape (\<lambda>x. x))) h s" and mk: "\<And>xs. p (mk xs) = Some xs"
  shows "runs (go_append p mk zero room s x) h (edited (slice_of p (value_shape (\<lambda>x. x))) (\<lambda>xs. xs @ [x]) h s)"
proof (cases s)
  case NilSlice
  then show ?thesis by (simp add: go_append_def edited_def values_simps elements_def cell_at_def mk)
next
  case (Slice a n)
  with assms(1) obtain xs where xs: "cell_at p h a = Some xs" "n \<le> length xs" by (auto simp: values_simps)
  show ?thesis
  proof (cases "n < length xs")
    case True
    with xs [unfolded cell_at_nth] show ?thesis
      by (simp add: go_append_def edited_def values_simps elements_def cell_at_def mk Slice runs_cell [OF xs(1)]
          take_Suc_conv_app_nth)
  next
    case False
    with xs [unfolded cell_at_nth] show ?thesis
      by (simp add: go_append_def edited_def values_simps elements_def cell_at_def mk Slice runs_cell [OF xs(1)] nth_append)
  qed
qed

lemma upsert_list_append:
  "\<forall>x \<in> set xs. nr_node x \<noteq> nr_node nr \<Longrightarrow> upsert_list nr (xs @ ys) = xs @ upsert_list nr ys"
  by (induction xs) auto

lemma upsert_at_edits:
  assumes xs: "cell_at realized_in h a = Some xs" "n \<le> length xs"
  shows "k \<le> n \<Longrightarrow> \<forall>j < k. nr_node (xs ! j) \<noteq> nr_node nr \<Longrightarrow>
    runs (upsert_at room a n nr [k..<n]) h (edited realized_shape (upsert_list nr) h (Slice a n))"
proof (induction "n - k" arbitrary: k)
  case 0
  then have "\<forall>x \<in> set (take n xs). nr_node x \<noteq> nr_node nr" using xs(2) by (auto simp: in_set_conv_nth)
  then have "upsert_list nr (take n xs) = take n xs @ [nr]" using upsert_list_append [of "take n xs" nr "[]"] by simp
  moreover have ok: "sh_ok (slice_of realized_in (value_shape (\<lambda>x. x))) h (Slice a n)" using xs by (simp add: values_simps)
  ultimately show ?case
    using 0 xs append_edits [where p = realized_in and mk = RealizedCell and room = room
        and zero = blank_realization and x = nr, OF ok]
    by (auto simp: realized_shape_def edited_def values_simps elements_def elim!: runs_mono)
next
  case (Suc d)
  then have k: "k < n" by simp
  show ?case
  proof (cases "nr_node (xs ! k) = nr_node nr")
    case True
    have split: "take n xs = take k xs @ xs ! k # drop (Suc k) (take n xs)"
      using id_take_nth_drop [of k "take n xs"] k xs(2) by (simp add: min_def)
    have "\<forall>x \<in> set (take k xs). nr_node x \<noteq> nr_node nr" using Suc.prems(2) k xs(2) by (auto simp: in_set_conv_nth)
    then have "upsert_list nr (take n xs) = take k xs @ nr # drop (Suc k) (take n xs)"
      by (subst split) (simp add: upsert_list_append True)
    moreover have "take n (xs[k := nr]) = take k xs @ nr # drop (Suc k) (take n xs)"
      unfolding take_update_swap using k xs(2) by (simp add: upd_conv_take_nth_drop min_def)
    ultimately show ?thesis using xs [unfolded cell_at_nth] k True
      by (simp add: upt_conv_Cons runs_cell [OF xs(1)] edited_def realized_shape_def values_simps elements_def cell_at_def)
  next
    case False
    then have "\<forall>j < Suc k. nr_node (xs ! j) \<noteq> nr_node nr" using Suc.prems(2) less_Suc_eq by auto
    with Suc k show ?thesis by (simp add: upt_conv_Cons runs_cell [OF xs(1)] False)
  qed
qed

lemma upsert_edits:
  assumes "sh_ok realized_shape h (gt_realized st)"
  shows "runs (upsertRealization_at room st nr) h (\<lambda>st' h'. \<exists>s'. st' = st\<lparr> gt_realized := s' \<rparr> \<and>
    edited realized_shape (upsert_list nr) h (gt_realized st) s' h')"
proof (cases "gt_realized st")
  case NilSlice
  have nil: "sh_ok (slice_of realized_in (value_shape (\<lambda>x. x))) h NilSlice" by (simp add: values_simps)
  show ?thesis
    using append_edits [where p = realized_in and mk = RealizedCell and room = room and zero = blank_realization
        and x = nr, OF nil]
    by (auto simp: upsertRealization_at_def NilSlice realized_shape_def edited_def values_simps elements_def elim!: runs_mono)
next
  case (Slice a n)
  with assms obtain xs where "cell_at realized_in h a = Some xs" "n \<le> length xs"
    by (auto simp: realized_shape_def values_simps)
  then have "runs (upsert_at room a n nr [0..<n]) h (edited realized_shape (upsert_list nr) h (Slice a n))"
    by (rule upsert_at_edits) simp_all
  then show ?thesis by (auto simp: upsertRealization_at_def Slice elim!: runs_mono)
qed

definition edit_laws :: "meta_api \<Rightarrow> edit_lib \<Rightarrow> bool" where
  "edit_laws M Q \<longleftrightarrow> copy_laws (lib_copies Q) \<and> (\<forall>h s c. sh_ok conditions_shape h s \<longrightarrow>
     runs (SetStatusCondition_at Q s c) h (edited conditions_shape (\<lambda>cs. SetStatusCondition M cs c) h s))"

text \<open>The parts of an env that are edited share no cell with its other parts, as when it was just decoded.\<close>

definition env_apart :: "heap \<Rightarrow> go_env \<Rightarrow> bool" where
  "env_apart h e \<longleftrightarrow>
     sh_foot realized_shape h (gt_realized (ge_status e)) \<inter>
       (sh_foot meta_shape h (ge_meta e) \<union> sh_foot spec_shape h (ge_spec e) \<union> sh_foot map_ref h (gt_resolved (ge_status e))) = {} \<and>
     sh_foot conditions_shape h (gt_conditions (ge_status e)) \<inter>
       (sh_foot meta_shape h (ge_meta e) \<union> sh_foot spec_shape h (ge_spec e) \<union> sh_foot map_ref h (gt_resolved (ge_status e)) \<union>
        sh_foot realized_shape h (gt_realized (ge_status e))) = {} \<and>
     sh_foot map_ref h (gm_annotations (ge_meta e)) \<inter>
       (sh_foot map_ref h (gm_labels (ge_meta e)) \<union> sh_foot spec_shape h (ge_spec e) \<union> sh_foot status_shape h (ge_status e)) = {}"

definition env_edited :: "(floxenv \<Rightarrow> floxenv) \<Rightarrow> heap \<Rightarrow> go_env \<Rightarrow> go_env \<Rightarrow> heap \<Rightarrow> bool" where
  "env_edited g h e e' h' \<longleftrightarrow> edited env_shape g h e e' h' \<and> env_apart h' e'"

lemma env_parts:
  "sh_ok env_shape h e \<longleftrightarrow> sh_ok meta_shape h (ge_meta e) \<and> sh_ok spec_shape h (ge_spec e) \<and>
     sh_ok map_ref h (gt_resolved (ge_status e)) \<and> sh_ok realized_shape h (gt_realized (ge_status e)) \<and>
     sh_ok conditions_shape h (gt_conditions (ge_status e))"
  "sh_view env_shape h e = \<lparr> fe_meta = sh_view meta_shape h (ge_meta e), fe_spec = sh_view spec_shape h (ge_spec e),
     fe_status = \<lparr> st_lock = gt_lock (ge_status e), st_relock_token = gt_relock_token (ge_status e),
       st_resolved = sh_view map_ref h (gt_resolved (ge_status e)),
       st_realized = sh_view realized_shape h (gt_realized (ge_status e)),
       st_conditions = sh_view conditions_shape h (gt_conditions (ge_status e)) \<rparr> \<rparr>"
  "sh_foot env_shape h e = sh_foot meta_shape h (ge_meta e) \<union> sh_foot spec_shape h (ge_spec e) \<union>
     sh_foot map_ref h (gt_resolved (ge_status e)) \<union> sh_foot realized_shape h (gt_realized (ge_status e)) \<union>
     sh_foot conditions_shape h (gt_conditions (ge_status e))"
  by (auto simp: env_shape_def status_shape_def)

lemma edited_trans:
  assumes "edited T g h s s' h'" "edited T k h' s' s'' h''"
  shows "edited T (\<lambda>v. k (g v)) h s s'' h''"
proof -
  let ?A = "sh_foot T h s"
  have w: "same_at ({..<length h} - ?A) h h'" "length h \<le> length h'"
      "same_at ({..<length h'} - sh_foot T h' s') h' h''" "length h' \<le> length h''"
      "sh_foot T h' s' \<subseteq> ?A \<union> {length h..}" "sh_foot T h'' s'' \<subseteq> sh_foot T h' s' \<union> {length h'..}"
    using assms by (simp_all add: edited_def writes_only_def)
  have "same_at ({..<length h} - ?A) h' h''"
    by (rule same_at_mono [OF w(3)]) (use w(2,5) in auto)
  then have "writes_only ?A h h''"
    using same_at_trans [OF w(1)] w(2,4) by (simp add: writes_only_def)
  moreover have "sh_foot T h'' s'' \<subseteq> sh_foot T h s \<union> {length h..}"
    using w(2,5,6) by fastforce
  ultimately show ?thesis using assms by (simp add: edited_def)
qed

lemma env_edited_trans:
  "env_edited g h e e' h' \<Longrightarrow> env_edited k h' e' e'' h'' \<Longrightarrow> env_edited (\<lambda>v. k (g v)) h e e'' h''"
  unfolding env_edited_def by (blast intro: edited_trans)

lemma part_spared:
  assumes "go_type T" "sh_ok T h x" "writes_only A h h'" "sh_foot T h x \<inter> A = {}"
  shows "sh_ok T h' x" "sh_view T h' x = sh_view T h x" "sh_foot T h' x = sh_foot T h x" "sh_foot T h x \<subseteq> {..<length h}"
  using go_type.spared [OF assms] go_type.foot_in [OF assms(1,2)] by simp_all

lemma env_pieces:
  assumes "sh_ok env_shape h e"
  shows "sh_ok meta_shape h (ge_meta e)"
    "sh_ok spec_shape h (ge_spec e)"
    "sh_ok map_ref h (gt_resolved (ge_status e))"
    "sh_ok realized_shape h (gt_realized (ge_status e))"
    "sh_ok conditions_shape h (gt_conditions (ge_status e))"
    "sh_ok map_ref h (gm_annotations (ge_meta e))"
    "sh_ok map_ref h (gm_labels (ge_meta e))"
  using assms by (simp_all add: env_parts meta_shape_def)

text \<open>An edit of one part of the object is an edit of the object.\<close>

lemma realized_edit:
  assumes ok: "sh_ok env_shape h e" and apart: "env_apart h e"
    and ed: "edited realized_shape g h (gt_realized (ge_status e)) s' h'"
  shows "env_edited (\<lambda>v. v\<lparr> fe_status := (fe_status v)\<lparr> st_realized := g (st_realized (fe_status v)) \<rparr> \<rparr>) h e
    (e\<lparr> ge_status := (ge_status e)\<lparr> gt_realized := s' \<rparr> \<rparr>) h'"
proof -
  let ?A = "sh_foot realized_shape h (gt_realized (ge_status e))"
  have w: "writes_only ?A h h'" and s': "sh_foot realized_shape h' s' \<subseteq> ?A \<union> {length h..}"
    using ed by (simp_all add: edited_def)
  have d: "sh_foot meta_shape h (ge_meta e) \<inter> ?A = {}"
      "sh_foot spec_shape h (ge_spec e) \<inter> ?A = {}"
      "sh_foot map_ref h (gt_resolved (ge_status e)) \<inter> ?A = {}"
      "sh_foot conditions_shape h (gt_conditions (ge_status e)) \<inter> ?A = {}"
      "sh_foot map_ref h (gm_annotations (ge_meta e)) \<inter> ?A = {}"
      "sh_foot map_ref h (gm_labels (ge_meta e)) \<inter> ?A = {}"
    using apart by (auto simp: env_apart_def meta_shape_def status_shape_def)
  note same = part_spared [OF api_types(2) env_pieces(1) [OF ok] w d(1)]
    part_spared [OF api_types(6) env_pieces(2) [OF ok] w d(2)]
    part_spared [OF api_types(1) env_pieces(3) [OF ok] w d(3)]
    part_spared [OF api_types(7) env_pieces(5) [OF ok] w d(4)]
    part_spared [OF api_types(1) env_pieces(6) [OF ok] w d(5)]
    part_spared [OF api_types(1) env_pieces(7) [OF ok] w d(6)]
  have "env_apart h' (e\<lparr> ge_status := (ge_status e)\<lparr> gt_realized := s' \<rparr> \<rparr>)"
    using apart s' same by (fastforce simp: same(3,7,11,15,19,23) env_apart_def status_shape_def)
  moreover have "edited env_shape (\<lambda>v. v\<lparr> fe_status := (fe_status v)\<lparr> st_realized := g (st_realized (fe_status v)) \<rparr> \<rparr>) h e
      (e\<lparr> ge_status := (ge_status e)\<lparr> gt_realized := s' \<rparr> \<rparr>) h'"
    using ed same s' by (auto simp: edited_def env_parts writes_only_def same_at_def)
  ultimately show ?thesis by (simp add: env_edited_def)
qed

lemma conditions_edit:
  assumes ok: "sh_ok env_shape h e" and apart: "env_apart h e"
    and ed: "edited conditions_shape g h (gt_conditions (ge_status e)) s' h'"
  shows "env_edited (\<lambda>v. v\<lparr> fe_status := (fe_status v)\<lparr> st_conditions := g (st_conditions (fe_status v)) \<rparr> \<rparr>) h e
    (e\<lparr> ge_status := (ge_status e)\<lparr> gt_conditions := s' \<rparr> \<rparr>) h'"
proof -
  let ?A = "sh_foot conditions_shape h (gt_conditions (ge_status e))"
  have w: "writes_only ?A h h'" and s': "sh_foot conditions_shape h' s' \<subseteq> ?A \<union> {length h..}"
    using ed by (simp_all add: edited_def)
  have d: "sh_foot meta_shape h (ge_meta e) \<inter> ?A = {}"
      "sh_foot spec_shape h (ge_spec e) \<inter> ?A = {}"
      "sh_foot map_ref h (gt_resolved (ge_status e)) \<inter> ?A = {}"
      "sh_foot realized_shape h (gt_realized (ge_status e)) \<inter> ?A = {}"
      "sh_foot map_ref h (gm_annotations (ge_meta e)) \<inter> ?A = {}"
      "sh_foot map_ref h (gm_labels (ge_meta e)) \<inter> ?A = {}"
    using apart by (auto simp: env_apart_def meta_shape_def status_shape_def)
  note same = part_spared [OF api_types(2) env_pieces(1) [OF ok] w d(1)]
    part_spared [OF api_types(6) env_pieces(2) [OF ok] w d(2)]
    part_spared [OF api_types(1) env_pieces(3) [OF ok] w d(3)]
    part_spared [OF api_types(8) env_pieces(4) [OF ok] w d(4)]
    part_spared [OF api_types(1) env_pieces(6) [OF ok] w d(5)]
    part_spared [OF api_types(1) env_pieces(7) [OF ok] w d(6)]
  have "env_apart h' (e\<lparr> ge_status := (ge_status e)\<lparr> gt_conditions := s' \<rparr> \<rparr>)"
    using apart s' same by (fastforce simp: same(3,7,11,15,19,23) env_apart_def status_shape_def)
  moreover have "edited env_shape (\<lambda>v. v\<lparr> fe_status := (fe_status v)\<lparr> st_conditions := g (st_conditions (fe_status v)) \<rparr> \<rparr>) h e
      (e\<lparr> ge_status := (ge_status e)\<lparr> gt_conditions := s' \<rparr> \<rparr>) h'"
    using ed same s' by (auto simp: edited_def env_parts writes_only_def same_at_def)
  ultimately show ?thesis by (simp add: env_edited_def)
qed

lemma annotations_edit:
  assumes ok: "sh_ok env_shape h e" and apart: "env_apart h e"
    and ed: "edited map_ref g h (gm_annotations (ge_meta e)) s' h'"
  shows "env_edited (\<lambda>v. v\<lparr> fe_meta := (fe_meta v)\<lparr> om_annotations := g (om_annotations (fe_meta v)) \<rparr> \<rparr>) h e
    (e\<lparr> ge_meta := (ge_meta e)\<lparr> gm_annotations := s' \<rparr> \<rparr>) h'"
proof -
  let ?A = "sh_foot map_ref h (gm_annotations (ge_meta e))"
  have w: "writes_only ?A h h'" and s': "sh_foot map_ref h' s' \<subseteq> ?A \<union> {length h..}"
    using ed by (simp_all add: edited_def)
  have d: "sh_foot spec_shape h (ge_spec e) \<inter> ?A = {}"
      "sh_foot map_ref h (gt_resolved (ge_status e)) \<inter> ?A = {}"
      "sh_foot realized_shape h (gt_realized (ge_status e)) \<inter> ?A = {}"
      "sh_foot conditions_shape h (gt_conditions (ge_status e)) \<inter> ?A = {}"
      "sh_foot map_ref h (gm_labels (ge_meta e)) \<inter> ?A = {}"
    using apart by (auto simp: env_apart_def meta_shape_def status_shape_def)
  note same = part_spared [OF api_types(6) env_pieces(2) [OF ok] w d(1)]
    part_spared [OF api_types(1) env_pieces(3) [OF ok] w d(2)]
    part_spared [OF api_types(8) env_pieces(4) [OF ok] w d(3)]
    part_spared [OF api_types(7) env_pieces(5) [OF ok] w d(4)]
    part_spared [OF api_types(1) env_pieces(7) [OF ok] w d(5)]
  have "env_apart h' (e\<lparr> ge_meta := (ge_meta e)\<lparr> gm_annotations := s' \<rparr> \<rparr>)"
    using apart s' same by (fastforce simp: same(3,7,11,15,19) env_apart_def status_shape_def meta_shape_def)
  moreover have "edited env_shape (\<lambda>v. v\<lparr> fe_meta := (fe_meta v)\<lparr> om_annotations := g (om_annotations (fe_meta v)) \<rparr> \<rparr>) h e
      (e\<lparr> ge_meta := (ge_meta e)\<lparr> gm_annotations := s' \<rparr> \<rparr>) h'"
    using ed same s' by (auto simp: edited_def env_parts meta_shape_def writes_only_def same_at_def)
  ultimately show ?thesis by (simp add: env_edited_def)
qed

lemma annotation_set:
  assumes "sh_ok map_ref h r"
  shows "runs (set_annotation r k v) h (\<lambda>a. edited map_ref (AList.update k v) h r (Some a))"
proof (cases r)
  case None
  then show ?thesis
    by (simp add: set_annotation_def load_def runs_def State_Monad.bind_def State_Monad.return_def alloc_def store_cell_def
        edited_def map_ref_def pointer_def map_shape_def value_shape_def cell_at_def)
next
  case (Some a)
  with assms obtain m where m: "cell_at map_in h a = Some m" "distinct (map fst m)"
    by (auto simp: map_ref_def pointer_def map_shape_def split: option.splits)
  with m(1) [unfolded cell_at_nth] show ?thesis
    by (simp add: set_annotation_def Some runs_cell [OF m(1)] edited_def map_ref_def pointer_def map_shape_def
        value_shape_def cell_at_def distinct_update)
qed

text \<open>Fields that hold no reference.\<close>

lemma status_fields_edit:
  assumes "sh_ok env_shape h e" "env_apart h e"
  shows "env_edited (\<lambda>v. v\<lparr> fe_status := (fe_status v)\<lparr> st_lock := l, st_relock_token := t \<rparr> \<rparr>) h e
    (e\<lparr> ge_status := (ge_status e)\<lparr> gt_lock := l, gt_relock_token := t \<rparr> \<rparr>) h"
  using assms by (auto simp: env_edited_def edited_def env_parts env_apart_def status_shape_def writes_only_def same_at_def)

lemma env_view_fields:
  "fe_meta (sh_view env_shape h e) = sh_view meta_shape h (ge_meta e)"
  "om_generation (sh_view meta_shape h (ge_meta e)) = gm_generation (ge_meta e)"
  "st_lock (fe_status (sh_view env_shape h e)) = gt_lock (ge_status e)"
  "(fe_status (sh_view env_shape h e))\<lparr> st_lock := gt_lock (ge_status e), st_relock_token := t \<rparr> =
     (fe_status (sh_view env_shape h e))\<lparr> st_relock_token := t \<rparr>"
  by (simp_all add: env_parts meta_shape_def)

lemma set_ready_edits:
  assumes laws: "edit_laws (lib_meta L) Q" and e: "sh_ok env_shape h e" "env_apart h e"
  shows "runs (set_ready Q e status reason msg) h (env_edited (\<lambda>v. with_ready L v status reason msg) h e)"
proof -
  let ?c = "\<lparr> c_type = ''Ready'', c_status = status, c_reason = reason, c_message = msg,
    c_observed = gm_generation (ge_meta e) \<rparr>"
  have "sh_ok conditions_shape h (gt_conditions (ge_status e))" using e(1) by (simp add: env_parts)
  then have "runs (SetStatusCondition_at Q (gt_conditions (ge_status e)) ?c) h
      (edited conditions_shape (\<lambda>cs. SetStatusCondition (lib_meta L) cs ?c) h (gt_conditions (ge_status e)))"
    using laws by (simp add: edit_laws_def)
  then have "runs (SetStatusCondition_at Q (gt_conditions (ge_status e)) ?c) h (\<lambda>s'. env_edited
      (\<lambda>v. v\<lparr> fe_status := (fe_status v)\<lparr> st_conditions := SetStatusCondition (lib_meta L) (st_conditions (fe_status v)) ?c \<rparr> \<rparr>) h e
      (e\<lparr> ge_status := (ge_status e)\<lparr> gt_conditions := s' \<rparr> \<rparr>))"
    by (rule runs_mono) (rule conditions_edit [OF e])
  then show ?thesis
    unfolding set_ready_def runs_bind runs_return
    by (rule runs_mono) (auto simp: env_edited_def edited_def with_ready_def env_view_fields)
qed

lemma apart_grown:
  assumes "sh_ok env_shape h e" "env_apart h e" "grown h h'"
  shows "env_apart h' e"
proof -
  note same = env_pieces [OF assms(1)]
  have "sh_foot meta_shape h' (ge_meta e) = sh_foot meta_shape h (ge_meta e)"
      "sh_foot spec_shape h' (ge_spec e) = sh_foot spec_shape h (ge_spec e)"
      "sh_foot map_ref h' (gt_resolved (ge_status e)) = sh_foot map_ref h (gt_resolved (ge_status e))"
      "sh_foot realized_shape h' (gt_realized (ge_status e)) = sh_foot realized_shape h (gt_realized (ge_status e))"
      "sh_foot conditions_shape h' (gt_conditions (ge_status e)) = sh_foot conditions_shape h (gt_conditions (ge_status e))"
      "sh_foot map_ref h' (gm_annotations (ge_meta e)) = sh_foot map_ref h (gm_annotations (ge_meta e))"
      "sh_foot map_ref h' (gm_labels (ge_meta e)) = sh_foot map_ref h (gm_labels (ge_meta e))"
    by (rule go_type.still(3) [OF _ _ assms(3)], intro shape_intros, rule same)+
  then show ?thesis using assms(2) by (simp add: env_apart_def status_shape_def)
qed

text \<open>What is edited after the copy leaves the copy alone.\<close>

lemma base_kept:
  assumes T: "go_type T" and x: "sh_ok T h x" and c: "copied T h h1 x c" and ed: "edited T g h1 x x' h'"
  shows "sh_view T h' c = sh_view T h x" "sh_view T h' x' = g (sh_view T h x)"
proof -
  have g: "grown h h1" and foot: "sh_foot T h1 c \<subseteq> {length h..}" and ok: "sh_ok T h1 c"
      and view: "sh_view T h1 c = sh_view T h x" using c by (simp_all add: copied_def)
  note still = go_type.still [OF T x g]
  have "sh_foot T h1 x \<subseteq> {..<length h}" using still(3) go_type.foot_in [OF T x] by simp
  with foot have "sh_foot T h1 c \<inter> sh_foot T h1 x = {}" by fastforce
  moreover have "writes_only (sh_foot T h1 x) h1 h'" using ed by (simp add: edited_def)
  ultimately show "sh_view T h' c = sh_view T h x" using go_type.spared(2) [OF T ok] view by simp
  show "sh_view T h' x' = g (sh_view T h x)" using ed still(2) by (simp add: edited_def)
qed

lemma patch_pair:
  assumes T: "go_type T" and x: "sh_ok T h x"
    and copy: "runs dc h (\<lambda>c h1. \<exists>y. c = Some y \<and> copied T h h1 x y)"
    and edit: "\<And>h1. grown h h1 \<Longrightarrow> runs m h1 (edited T g h1 x)"
  shows "\<exists>b new h'. run_state (State_Monad.bind dc (\<lambda>base. State_Monad.bind m
        (\<lambda>new. State_Monad.return (base, new)))) h = ((Some b, new), h') \<and>
    sh_view T h' b = sh_view T h x \<and> sh_view T h' new = g (sh_view T h x)"
proof -
  have "runs dc h (\<lambda>base h1. runs m h1 (\<lambda>new h'. \<exists>b. base = Some b \<and>
      sh_view T h' b = sh_view T h x \<and> sh_view T h' new = g (sh_view T h x)))"
  proof (rule runs_mono [OF copy])
    fix base h1 assume "\<exists>y. base = Some y \<and> copied T h h1 x y"
    then obtain b where b: "base = Some b" "copied T h h1 x b" by blast
    then have "grown h h1" by (simp add: copied_def)
    from edit [OF this] show "runs m h1 (\<lambda>new h'. \<exists>b. base = Some b \<and>
        sh_view T h' b = sh_view T h x \<and> sh_view T h' new = g (sh_view T h x))"
      by (rule runs_mono) (use base_kept [OF T x b(2)] b(1) in auto)
  qed
  then show ?thesis
    by (auto simp: runs_def State_Monad.bind_def State_Monad.return_def split: prod.splits)
qed

lemma env_patch_pair:
  assumes "copy_laws (lib_copies Q)" and e: "sh_ok env_shape h e" "env_apart h e"
    and edit: "\<And>h1. sh_ok env_shape h1 e \<Longrightarrow> env_apart h1 e \<Longrightarrow> runs (m e) h1 (env_edited g h1 e)"
  shows "\<exists>b new h'. run_state (env_patch Q m e) h = ((Some b, new), h') \<and>
    sh_view env_shape h' b = sh_view env_shape h e \<and> sh_view env_shape h' new = g (sh_view env_shape h e)"
  unfolding env_patch_def
proof (rule patch_pair [OF api_types(10) e(1) DeepCopy_runs(1) [OF assms(1) e(1)]])
  fix h1 assume g: "grown h h1"
  show "runs (m e) h1 (edited env_shape g h1 e)"
    by (rule runs_mono [OF edit [OF env_object.still(1) [OF e(1) g] apart_grown [OF e g]]]) (simp add: env_edited_def)
qed

text \<open>The node agent's edits and the stamp.\<close>

lemma upserted:
  assumes "sh_ok env_shape h e" "env_apart h e"
  shows "runs (upsertRealization_at room (ge_status e) nr) h (\<lambda>st'. env_edited
    (\<lambda>v. v\<lparr> fe_status := upsertRealization (fe_status v) nr \<rparr>) h e (e\<lparr> ge_status := st' \<rparr>))"
proof -
  have "sh_ok realized_shape h (gt_realized (ge_status e))" using assms(1) by (simp add: env_parts)
  from upsert_edits [OF this] show ?thesis
    by (rule runs_mono) (use realized_edit [OF assms] in \<open>fastforce simp: upsertRealization_def\<close>)
qed

lemma record_realized_edits:
  assumes laws: "edit_laws (lib_meta L) Q" and e: "sh_ok env_shape h e" "env_apart h e"
  shows "runs (record_realized_at Q (er_node_name R) relock res e) h (env_edited (record_realized L R relock res) h e)"
proof -
  obtain l where l: "l = (if rs_lock res \<noteq> [] then rs_lock res else gt_lock (ge_status e))" by simp
  let ?e2 = "e\<lparr> ge_status := (ge_status e)\<lparr> gt_lock := l, gt_relock_token := relock \<rparr> \<rparr>"
  let ?nr = "\<lparr> nr_node = er_node_name R, nr_ready = True, nr_store_path = rs_store_path res, nr_env_path = rs_env_path res,
    nr_gcroot_path = rs_gcroot_path res, nr_observed = gm_generation (ge_meta e) \<rparr>"
  note fields = status_fields_edit [OF e, where l = l and t = relock]
  then have ok2: "sh_ok env_shape h ?e2" "env_apart h ?e2" by (simp_all add: env_edited_def edited_def)
  have "runs (upsertRealization_at (append_room Q) (ge_status ?e2) ?nr) h (\<lambda>st3 h1. runs
      (set_ready Q (?e2\<lparr> ge_status := st3 \<rparr>) ConditionTrue ''Realized''
        (''realized on '' @ er_node_name R @ '' at '' @ rs_store_path res)) h1
      (env_edited (record_realized L R relock res) h e))"
  proof (rule runs_mono [OF upserted [OF ok2]])
    fix st3 h1 assume up: "env_edited (\<lambda>v. v\<lparr> fe_status := upsertRealization (fe_status v) ?nr \<rparr>) h ?e2 (?e2\<lparr> ge_status := st3 \<rparr>) h1"
    then have ok3: "sh_ok env_shape h1 (?e2\<lparr> ge_status := st3 \<rparr>)" "env_apart h1 (?e2\<lparr> ge_status := st3 \<rparr>)"
      by (simp_all add: env_edited_def edited_def)
    show "runs (set_ready Q (?e2\<lparr> ge_status := st3 \<rparr>) ConditionTrue ''Realized''
        (''realized on '' @ er_node_name R @ '' at '' @ rs_store_path res)) h1 (env_edited (record_realized L R relock res) h e)"
    proof (rule runs_mono [OF set_ready_edits [OF laws ok3]])
      fix new h' assume "env_edited (\<lambda>v. with_ready L v ConditionTrue ''Realized''
          (''realized on '' @ er_node_name R @ '' at '' @ rs_store_path res)) h1 (?e2\<lparr> ge_status := st3 \<rparr>) new h'"
      from env_edited_trans [OF env_edited_trans [OF fields up] this]
      show "env_edited (record_realized L R relock res) h e new h'"
        by (auto simp: env_edited_def edited_def record_realized_def Let_def env_view_fields l)
    qed
  qed
  moreover have "(if rs_lock res \<noteq> [] then (ge_status e)\<lparr> gt_lock := rs_lock res \<rparr> else ge_status e)\<lparr> gt_relock_token := relock \<rparr> =
      ge_status ?e2"
    by (simp add: l)
  ultimately show ?thesis by (simp add: record_realized_at_def Let_def)
qed

lemma with_relock_edits:
  assumes e: "sh_ok env_shape h e" "env_apart h e"
  shows "runs (with_relock_at revision e) h (env_edited (with_relock revision) h e)"
proof -
  have "sh_ok map_ref h (gm_annotations (ge_meta e))" using e(1) by (rule env_pieces)
  from annotation_set [OF this] show ?thesis
    unfolding with_relock_at_def runs_bind runs_return
    by (rule runs_mono) (use annotations_edit [OF e] in \<open>auto simp: with_relock_def [abs_def]\<close>)
qed

text \<open>The same for a catalog, whose condition list shares no cell with its other parts.\<close>

definition catalog_apart :: "heap \<Rightarrow> go_catalog \<Rightarrow> bool" where
  "catalog_apart h f \<longleftrightarrow> sh_foot conditions_shape h (gct_conditions (gc_status f)) \<inter>
     (sh_foot meta_shape h (gc_meta f) \<union> sh_foot (slice_of phases_in (value_shape (\<lambda>p. p))) h (gct_envs (gc_status f))) = {}"

lemma catalog_parts:
  "sh_ok catalog_shape h f \<longleftrightarrow> sh_ok meta_shape h (gc_meta f) \<and>
     sh_ok (slice_of phases_in (value_shape (\<lambda>p. p))) h (gct_envs (gc_status f)) \<and>
     sh_ok conditions_shape h (gct_conditions (gc_status f))"
  "sh_view catalog_shape h f = \<lparr> fc_meta = sh_view meta_shape h (gc_meta f), fc_spec = gc_spec f,
     fc_status = \<lparr> ct_revision = gct_revision (gc_status f), ct_artifact_url = gct_artifact_url (gc_status f),
       ct_flake_ref = gct_flake_ref (gc_status f), ct_envs_summary = gct_envs_summary (gc_status f),
       ct_envs = sh_view (slice_of phases_in (value_shape (\<lambda>p. p))) h (gct_envs (gc_status f)),
       ct_conditions = sh_view conditions_shape h (gct_conditions (gc_status f)) \<rparr> \<rparr>"
  "sh_foot catalog_shape h f = sh_foot meta_shape h (gc_meta f) \<union>
     sh_foot (slice_of phases_in (value_shape (\<lambda>p. p))) h (gct_envs (gc_status f)) \<union>
     sh_foot conditions_shape h (gct_conditions (gc_status f))"
  by (auto simp: catalog_shape_def catalog_status_shape_def)

lemma set_catalog_ready_edits:
  assumes laws: "edit_laws M Q" and ok: "sh_ok catalog_shape h f" and apart: "catalog_apart h f"
  shows "runs (set_catalog_ready Q f status reason msg) h (edited catalog_shape (\<lambda>v. catalog_ready M v status reason msg) h f)"
proof -
  let ?c = "\<lparr> c_type = ''Ready'', c_status = status, c_reason = reason, c_message = msg,
    c_observed = gm_generation (gc_meta f) \<rparr>"
  let ?A = "sh_foot conditions_shape h (gct_conditions (gc_status f))"
  have oks: "sh_ok meta_shape h (gc_meta f)" "sh_ok (slice_of phases_in (value_shape (\<lambda>p. p))) h (gct_envs (gc_status f))"
      "sh_ok conditions_shape h (gct_conditions (gc_status f))"
    using ok by (simp_all add: catalog_parts)
  have "runs (SetStatusCondition_at Q (gct_conditions (gc_status f)) ?c) h
      (edited conditions_shape (\<lambda>cs. SetStatusCondition M cs ?c) h (gct_conditions (gc_status f)))"
    using laws oks(3) by (simp add: edit_laws_def)
  then show ?thesis
    unfolding set_catalog_ready_def runs_bind runs_return
  proof (rule runs_mono)
    fix cs h' assume ed: "edited conditions_shape (\<lambda>cs. SetStatusCondition M cs ?c) h (gct_conditions (gc_status f)) cs h'"
    then have w: "writes_only ?A h h'" by (simp add: edited_def)
    have d: "sh_foot meta_shape h (gc_meta f) \<inter> ?A = {}"
        "sh_foot (slice_of phases_in (value_shape (\<lambda>p. p))) h (gct_envs (gc_status f)) \<inter> ?A = {}"
      using apart by (auto simp: catalog_apart_def)
    have phases: "go_type (slice_of phases_in (value_shape (\<lambda>p. p)))" by (intro shape_intros)
    note same = part_spared [OF api_types(2) oks(1) w d(1)] part_spared [OF phases oks(2) w d(2)]
    have "om_generation (sh_view meta_shape h (gc_meta f)) = gm_generation (gc_meta f)" by (simp add: meta_shape_def)
    with ed same show "edited catalog_shape (\<lambda>v. catalog_ready M v status reason msg) h f
        (f\<lparr> gc_status := (gc_status f)\<lparr> gct_conditions := cs \<rparr> \<rparr>) h'"
      by (auto simp: edited_def catalog_parts catalog_ready_def writes_only_def same_at_def)
  qed
qed

lemma rollup_slice_runs:
  "runs (rollup_slice plan) h (\<lambda>s h'. grown h h' \<and> sh_ok (slice_of phases_in (value_shape (\<lambda>p. p))) h' s \<and>
     sh_view (slice_of phases_in (value_shape (\<lambda>p. p))) h' s = (case plan of None \<Rightarrow> [] | Some ps \<Rightarrow> ps) \<and>
     sh_foot (slice_of phases_in (value_shape (\<lambda>p. p))) h' s \<subseteq> {length h..})"
  by (auto simp: rollup_slice_def values_simps elements_def cell_at_def split: option.split)

lemma resolved_catalog_edits:
  assumes laws: "edit_laws M Q" and ok: "sh_ok catalog_shape h f" and apart: "catalog_apart h f"
  shows "runs (resolved_catalog_at Q f revision url flakeRef summary plan) h (edited catalog_shape
    (\<lambda>v. resolved_catalog M v revision url flakeRef (summary, case plan of None \<Rightarrow> [] | Some ps \<Rightarrow> ps)) h f)"
  unfolding resolved_catalog_at_def runs_bind
proof (rule runs_mono [OF rollup_slice_runs])
  fix es h1
  assume es: "grown h h1 \<and> sh_ok (slice_of phases_in (value_shape (\<lambda>p. p))) h1 es \<and>
     sh_view (slice_of phases_in (value_shape (\<lambda>p. p))) h1 es = (case plan of None \<Rightarrow> [] | Some ps \<Rightarrow> ps) \<and>
     sh_foot (slice_of phases_in (value_shape (\<lambda>p. p))) h1 es \<subseteq> {length h..}"
  let ?f1 = "f\<lparr> gc_status := (gc_status f)\<lparr> gct_revision := revision, gct_artifact_url := url,
    gct_flake_ref := flakeRef, gct_envs_summary := summary, gct_envs := es \<rparr> \<rparr>"
  have oks: "sh_ok meta_shape h (gc_meta f)" "sh_ok conditions_shape h (gct_conditions (gc_status f))"
    using ok by (simp_all add: catalog_parts)
  have g: "grown h h1" using es by simp
  note same = go_type.still [OF api_types(2) oks(1) g] go_type.still [OF api_types(7) oks(2) g]
  have "sh_foot conditions_shape h (gct_conditions (gc_status f)) \<subseteq> {..<length h}" by (rule go_type.foot_in [OF api_types(7) oks(2)])
  then have apart1: "catalog_apart h1 ?f1" using apart es same by (fastforce simp: catalog_apart_def same)
  have ed: "edited catalog_shape (\<lambda>v. v\<lparr> fc_status := (fc_status v)\<lparr> ct_revision := revision, ct_artifact_url := url,
      ct_flake_ref := flakeRef, ct_envs_summary := summary, ct_envs := case plan of None \<Rightarrow> [] | Some ps \<Rightarrow> ps \<rparr> \<rparr>) h f ?f1 h1"
    using es same oks grown_length [OF g] by (auto simp: edited_def catalog_parts writes_only_def grown_def same_at_def)
  then have ok1: "sh_ok catalog_shape h1 ?f1" by (simp add: edited_def)
  show "runs (set_catalog_ready Q ?f1 ConditionTrue ''Resolved''
      (''resolved from GitRepository '' @ sr_name (cs_source_ref (gc_spec f)) @ '' at '' @ revision)) h1
    (edited catalog_shape
      (\<lambda>v. resolved_catalog M v revision url flakeRef (summary, case plan of None \<Rightarrow> [] | Some ps \<Rightarrow> ps)) h f)"
    by (rule runs_mono [OF set_catalog_ready_edits [OF laws ok1 apart1]])
      (drule edited_trans [OF ed], auto simp: edited_def resolved_catalog_def catalog_parts)
qed

lemma catalog_patch_pair:
  assumes "copy_laws (lib_copies Q)" and f: "sh_ok catalog_shape h f" "catalog_apart h f"
    and edit: "\<And>h1. sh_ok catalog_shape h1 f \<Longrightarrow> catalog_apart h1 f \<Longrightarrow> runs (m f) h1 (edited catalog_shape g h1 f)"
  shows "\<exists>b new h'. run_state (catalog_patch Q m f) h = ((Some b, new), h') \<and>
    sh_view catalog_shape h' b = sh_view catalog_shape h f \<and> sh_view catalog_shape h' new = g (sh_view catalog_shape h f)"
  unfolding catalog_patch_def
proof (rule patch_pair [OF api_types(12) f(1) DeepCopy_runs(2) [OF assms(1) f(1)]])
  fix h1 assume g: "grown h h1"
  have phases: "go_type (slice_of phases_in (value_shape (\<lambda>p. p)))" by (intro shape_intros)
  have "sh_ok meta_shape h (gc_meta f)" "sh_ok (slice_of phases_in (value_shape (\<lambda>p. p))) h (gct_envs (gc_status f))"
      "sh_ok conditions_shape h (gct_conditions (gc_status f))"
    using f(1) by (simp_all add: catalog_parts)
  note same = go_type.still [OF api_types(2) this(1) g] go_type.still [OF phases this(2) g] go_type.still [OF api_types(7) this(3) g]
  have "catalog_apart h1 f" using f(2) by (simp add: catalog_apart_def same)
  then show "runs (m f) h1 (edited catalog_shape g h1 f)" by (rule edit [OF catalog_object.still(1) [OF f(1) g]])
qed

text \<open>
  C32: The patches of the envs are the model's. Whatever the status holds and however its slices and
  maps are stored, the base of every status patch of the node agent, and of the stamp of the catalog
  controller, is the object as it was before the edit, and the edited object is the one the models of
  the controllers send: the condition set, this node's entry replaced or appended, the lock pinned and
  the relock token recorded, the annotation stamped. That the edits write slices and maps in place
  does not reach the base.
\<close>

theorem env_patches_refine:
  assumes "edit_laws (lib_meta L) Q" "sh_ok env_shape h e" "env_apart h e"
  shows "(\<exists>b new h'. run_state (env_patch Q (\<lambda>e. set_ready Q e status reason msg) e) h = ((Some b, new), h') \<and>
      sh_view env_shape h' b = sh_view env_shape h e \<and>
      sh_view env_shape h' new = with_ready L (sh_view env_shape h e) status reason msg) \<and>
    (\<exists>b new h'. run_state (env_patch Q (record_realized_at Q (er_node_name R) relock res) e) h = ((Some b, new), h') \<and>
      sh_view env_shape h' b = sh_view env_shape h e \<and>
      sh_view env_shape h' new = record_realized L R relock res (sh_view env_shape h e)) \<and>
    (\<exists>b new h'. run_state (env_patch Q (with_relock_at revision) e) h = ((Some b, new), h') \<and>
      sh_view env_shape h' b = sh_view env_shape h e \<and>
      sh_view env_shape h' new = with_relock revision (sh_view env_shape h e))" (is "?ready \<and> ?realized \<and> ?stamped")
proof -
  have copies: "copy_laws (lib_copies Q)" using assms(1) by (simp add: edit_laws_def)
  note pair = env_patch_pair [OF copies assms(2,3)]
  have ?ready by (rule pair) (rule set_ready_edits [OF assms(1)])
  moreover have ?realized by (rule pair) (rule record_realized_edits [OF assms(1)])
  moreover have ?stamped by (rule pair) (rule with_relock_edits)
  ultimately show ?thesis by simp
qed

text \<open>
  C33: The status patches of a catalog are the model's: the base is the catalog as it was read, the
  object has the condition, and for a resolution the source's revision, the URL, the reference and the
  rollup, of the model.
\<close>

theorem catalog_patches_refine:
  assumes "edit_laws M Q" "sh_ok catalog_shape h f" "catalog_apart h f"
  shows "(\<exists>b new h'. run_state (catalog_patch Q (\<lambda>f. set_catalog_ready Q f ConditionFalse reason msg) f) h = ((Some b, new), h') \<and>
      sh_view catalog_shape h' b = sh_view catalog_shape h f \<and>
      sh_view catalog_shape h' new = catalog_ready M (sh_view catalog_shape h f) ConditionFalse reason msg) \<and>
    (\<exists>b new h'. run_state (catalog_patch Q (\<lambda>f. resolved_catalog_at Q f revision url flakeRef summary plan) f) h =
        ((Some b, new), h') \<and>
      sh_view catalog_shape h' b = sh_view catalog_shape h f \<and>
      sh_view catalog_shape h' new = resolved_catalog M (sh_view catalog_shape h f) revision url flakeRef
        (summary, case plan of None \<Rightarrow> [] | Some ps \<Rightarrow> ps))" (is "?ready \<and> ?resolved")
proof -
  have copies: "copy_laws (lib_copies Q)" using assms(1) by (simp add: edit_laws_def)
  note pair = catalog_patch_pair [OF copies assms(2,3)]
  have ?ready by (rule pair) (rule set_catalog_ready_edits [OF assms(1)])
  moreover have ?resolved by (rule pair) (rule resolved_catalog_edits [OF assms(1)])
  ultimately show ?thesis by simp
qed

subsection \<open>A library that edits in place\<close>

definition set_condition_at :: "slice \<Rightarrow> condition \<Rightarrow> (heap, slice) state" where
  "set_condition_at s c = (case s of
       NilSlice \<Rightarrow> go_append conditions_in ConditionsCell blank_condition (\<lambda>_. 0) NilSlice c
     | Slice a n \<Rightarrow> do {
         xs \<leftarrow> load conditions_in [] a;
         if list_ex (\<lambda>d. c_type d = c_type c) (take n xs) then do {
           _ \<leftarrow> store_cell a (ConditionsCell (list_set_condition (take n xs) c @ drop n xs));
           State_Monad.return (Slice a n)
         }
         else go_append conditions_in ConditionsCell blank_condition (\<lambda>_. 0) (Slice a n) c
       })"

definition sample_edits :: edit_lib where
  "sample_edits = \<lparr> lib_copies = sample_copies, SetStatusCondition_at = set_condition_at, append_room = (\<lambda>n. n) \<rparr>"

lemma list_set_new: "\<not> list_ex (\<lambda>d. c_type d = c_type c) cs \<Longrightarrow> list_set_condition cs c = cs @ [c]"
  by (induction cs) auto

lemma list_set_length: "list_ex (\<lambda>d. c_type d = c_type c) cs \<Longrightarrow> length (list_set_condition cs c) = length cs"
  by (induction cs) auto

lemma set_condition_edits:
  assumes "sh_ok conditions_shape h s"
  shows "runs (set_condition_at s c) h (edited conditions_shape (\<lambda>cs. list_set_condition cs c) h s)"
proof -
  have ok: "sh_ok (slice_of conditions_in (value_shape (\<lambda>x. x))) h s" using assms by (simp add: conditions_shape_def)
  note appended = append_edits [where p = conditions_in and mk = ConditionsCell and room = "\<lambda>_. 0"
      and zero = blank_condition and x = c, OF ok cell_in(10)]
  show ?thesis
  proof (cases s)
    case NilSlice
    with appended show ?thesis
      by (auto simp: set_condition_at_def conditions_shape_def edited_def values_simps elements_def elim!: runs_mono)
  next
    case (Slice a n)
    with ok obtain xs where xs: "cell_at conditions_in h a = Some xs" "n \<le> length xs" by (auto simp: values_simps)
    show ?thesis
    proof (cases "list_ex (\<lambda>d. c_type d = c_type c) (take n xs)")
      case True
      from list_set_length [OF this] xs(2) have "length (list_set_condition (take n xs) c) = n" by simp
      with xs [unfolded cell_at_nth] True show ?thesis
        by (simp add: set_condition_at_def Slice runs_cell [OF xs(1)] conditions_shape_def edited_def values_simps
            elements_def cell_at_def)
    next
      case False
      with appended show ?thesis
        by (auto simp: set_condition_at_def Slice runs_cell [OF xs(1)] conditions_shape_def edited_def values_simps
            elements_def xs(1) list_set_new elim!: runs_mono)
    qed
  qed
qed

lemma sample_edits_laws: "edit_laws list_meta sample_edits"
  using set_condition_edits sample_copies_laws by (simp add: edit_laws_def sample_edits_def list_meta_def)

lemma web_in_heap_apart: "env_apart web_heap web_in_heap"
  by (simp add: env_apart_def web_heap_defs shape_eval)

theorem env_patches_refine_witness:
  "(\<exists>b new h'. run_state (env_patch sample_edits (\<lambda>e. set_ready sample_edits e ConditionFalse ''Pending'' []) web_in_heap) web_heap =
      ((Some b, new), h') \<and> sh_view env_shape h' b = sh_view env_shape web_heap web_in_heap \<and>
      sh_view env_shape h' new = with_ready store_libs (sh_view env_shape web_heap web_in_heap) ConditionFalse ''Pending'' []) \<and>
    (\<exists>b new h'. run_state (env_patch sample_edits
        (record_realized_at sample_edits (er_node_name (store_agent ''n2'')) ''r2'' store_result) web_in_heap) web_heap =
      ((Some b, new), h') \<and> sh_view env_shape h' b = sh_view env_shape web_heap web_in_heap \<and>
      sh_view env_shape h' new = record_realized store_libs (store_agent ''n2'') ''r2'' store_result
        (sh_view env_shape web_heap web_in_heap)) \<and>
    (\<exists>b new h'. run_state (env_patch sample_edits (with_relock_at ''r2'') web_in_heap) web_heap = ((Some b, new), h') \<and>
      sh_view env_shape h' b = sh_view env_shape web_heap web_in_heap \<and>
      sh_view env_shape h' new = with_relock ''r2'' (sh_view env_shape web_heap web_in_heap))"
proof (rule env_patches_refine [OF _ web_in_heap_ok web_in_heap_apart])
  show "edit_laws (lib_meta store_libs) sample_edits" using sample_edits_laws by (simp add: store_libs_def)
qed

text \<open>In place: the entry of a second node goes into the room the array of the object has, the base keeps its own.\<close>

lemma entry_added_in_place:
  "case run_state (env_patch sample_edits (record_realized_at sample_edits ''n2'' [] store_result) web_in_heap) web_heap of
     ((Some b, new), h') \<Rightarrow> gt_realized (ge_status new) = Slice 3 2 \<and>
       map nr_node (sh_view realized_shape h' (gt_realized (ge_status new))) = [''n1'', ''n2''] \<and>
       map nr_node (sh_view realized_shape h' (gt_realized (ge_status b))) = [''n1'']
   | _ \<Rightarrow> False"
  by code_simp

definition catalog_heap :: heap where
  "catalog_heap = [PhasesCell [\<lparr> ph_name = ''web'', ph_phase = ''Pending'' \<rparr>], ConditionsCell []]"

definition catalog_in_heap :: go_catalog where
  "catalog_in_heap = blank_catalog\<lparr> gc_status := (gc_status blank_catalog)\<lparr> gct_envs := Slice 0 1, gct_conditions := Slice 1 0 \<rparr> \<rparr>"

lemmas catalog_heap_defs = catalog_heap_def catalog_in_heap_def blank_catalog_def blank_meta_def

theorem catalog_patches_refine_witness:
  "(\<exists>b new h'. run_state (catalog_patch sample_edits
        (\<lambda>f. set_catalog_ready sample_edits f ConditionFalse ''SourceNotFound'' ''none'') catalog_in_heap) catalog_heap =
      ((Some b, new), h') \<and> sh_view catalog_shape h' b = sh_view catalog_shape catalog_heap catalog_in_heap \<and>
      sh_view catalog_shape h' new =
        catalog_ready list_meta (sh_view catalog_shape catalog_heap catalog_in_heap) ConditionFalse ''SourceNotFound'' ''none'') \<and>
    (\<exists>b new h'. run_state (catalog_patch sample_edits
        (\<lambda>f. resolved_catalog_at sample_edits f ''r2'' ''u'' ''f'' ''0/0 ready'' (Some [])) catalog_in_heap) catalog_heap =
      ((Some b, new), h') \<and> sh_view catalog_shape h' b = sh_view catalog_shape catalog_heap catalog_in_heap \<and>
      sh_view catalog_shape h' new = resolved_catalog list_meta (sh_view catalog_shape catalog_heap catalog_in_heap)
        ''r2'' ''u'' ''f'' (''0/0 ready'', case Some [] of None \<Rightarrow> [] | Some ps \<Rightarrow> ps))"
proof (rule catalog_patches_refine [OF sample_edits_laws])
  show "sh_ok catalog_shape catalog_heap catalog_in_heap" by (simp add: catalog_heap_defs shape_eval)
  show "catalog_apart catalog_heap catalog_in_heap" by (simp add: catalog_apart_def catalog_heap_defs shape_eval)
qed

end
