(* ===== verification/AgentLoop.thy ===== *)
theory AgentLoop
  imports FloxEnvRaces Watches
begin

text \<open>
  The node agent in its event loop, for one FloxEnv (\<open>SetupWithManager\<close> of \<open>floxenv_controller.go\<close>). The
  versions the object goes through on the API server reach the agent's cache one by one, each at its
  own time; the watch queues the key when a version asks for something new (\<open>env_agent_wakes\<close>). A
  queued key is given to one worker at a time; the worker's pass reads the cache and writes to the
  server, and is queued again when it fails or asks for it. The theorem says that the loop does its
  work: when it has come to rest, the node has realised the env as the server has it.
\<close>

subsection \<open>The loop\<close>

text \<open>
  \<open>lo_seen\<close> counts the versions the cache has seen, \<open>lo_written\<close> the versions there were after the last
  write of this agent.
\<close>

record agent_loop =
  lo_versions :: "floxenv list"
  lo_seen :: nat
  lo_written :: nat
  lo_queued :: bool
  lo_busy :: "event list option"

definition loop_start :: agent_loop where
  "loop_start = \<lparr> lo_versions = [], lo_seen = 0, lo_written = 0, lo_queued = False, lo_busy = None \<rparr>"

definition lo_cache :: "agent_loop \<Rightarrow> floxenv option" where
  "lo_cache s = (if lo_seen s = 0 then None else Some (lo_versions s ! (lo_seen s - 1)))"

definition next_change :: "agent_loop \<Rightarrow> floxenv change" where
  "next_change s = (case lo_cache s of None \<Rightarrow> Created (lo_versions s ! lo_seen s)
     | Some old \<Rightarrow> Updated old (lo_versions s ! lo_seen s))"

text \<open>
  What a request about the env may be answered: a read by the cache, an accepted status write by the
  merge with the server's version, which is then the newest. Everything else is up to the outside.
\<close>

fun answered :: "objkey \<Rightarrow> agent_loop \<Rightarrow> event \<Rightarrow> bool" where
  "answered k s (GetFloxEnv k' (Inr e)) \<longleftrightarrow> (k' = k \<longrightarrow> lo_cache s = Some e)"
| "answered k s (GetFloxEnv k' (Inl e)) \<longleftrightarrow> (k' = k \<and> IgnoreNotFound e = None \<longrightarrow> lo_cache s = None)"
| "answered k s (PatchFloxEnvStatus base new (Inr stored)) \<longleftrightarrow>
     lo_versions s \<noteq> [] \<and> stored = merge_env base new (last (lo_versions s))"
| "answered k s _ \<longleftrightarrow> True"

fun stored_by :: "event \<Rightarrow> floxenv list" where
  "stored_by (PatchFloxEnvStatus base new (Inr stored)) = [stored]"
| "stored_by _ = []"

definition comes_back :: "outcome \<Rightarrow> bool" where
  "comes_back out \<longleftrightarrow> out \<noteq> (done_result, None)"

text \<open>
  \<open>Q\<close> says what the changes others make are like; with \<open>fresh\<close>, a pass does not start before the cache
  has seen what this agent wrote last.
\<close>

inductive agent_step ::
  "libs \<Rightarrow> 'w env_reconciler \<Rightarrow> predicates \<Rightarrow> objkey \<Rightarrow> (floxenv \<Rightarrow> floxenv \<Rightarrow> bool) \<Rightarrow> bool \<Rightarrow> agent_loop \<Rightarrow> agent_loop \<Rightarrow> bool"
  for L R P k Q fresh where
  env_created: "lo_versions s = [] \<Longrightarrow> agent_step L R P k Q fresh s (s\<lparr> lo_versions := [v] \<rparr>)"
| env_changed: "lo_versions s \<noteq> [] \<Longrightarrow> Q (last (lo_versions s)) v \<Longrightarrow>
    agent_step L R P k Q fresh s (s\<lparr> lo_versions := lo_versions s @ [v] \<rparr>)"
| version_seen: "lo_seen s < length (lo_versions s) \<Longrightarrow>
    agent_step L R P k Q fresh s (s\<lparr> lo_seen := Suc (lo_seen s),
      lo_queued := lo_queued s \<or> env_agent_wakes P (next_change s) \<noteq> [] \<rparr>)"
| key_taken: "lo_queued s \<Longrightarrow> lo_busy s = None \<Longrightarrow> (fresh \<Longrightarrow> lo_written s \<le> lo_seen s) \<Longrightarrow>
    agent_step L R P k Q fresh s (s\<lparr> lo_queued := False, lo_busy := Some [] \<rparr>)"
| pass_moved: "lo_busy s = Some evs \<Longrightarrow> trace_of (FloxEnv_Reconcile L R k) w = evs @ ev # rest \<Longrightarrow> answered k s ev \<Longrightarrow>
    agent_step L R P k Q fresh s (s\<lparr> lo_busy := Some (evs @ [ev]), lo_versions := lo_versions s @ stored_by ev,
      lo_written := (if stored_by ev = [] then lo_written s else Suc (length (lo_versions s))) \<rparr>)"
| pass_ended: "lo_busy s = Some evs \<Longrightarrow> trace_of (FloxEnv_Reconcile L R k) w = evs \<Longrightarrow>
    agent_step L R P k Q fresh s (s\<lparr> lo_busy := None,
      lo_queued := lo_queued s \<or> comes_back (outcome_of (FloxEnv_Reconcile L R k) w) \<rparr>)"

inductive agent_reaches ::
  "libs \<Rightarrow> 'w env_reconciler \<Rightarrow> predicates \<Rightarrow> objkey \<Rightarrow> (floxenv \<Rightarrow> floxenv \<Rightarrow> bool) \<Rightarrow> bool \<Rightarrow> agent_loop \<Rightarrow> bool"
  for L R P k Q fresh where
  agent_started: "agent_reaches L R P k Q fresh loop_start"
| agent_moved: "agent_reaches L R P k Q fresh s \<Longrightarrow> agent_step L R P k Q fresh s t \<Longrightarrow> agent_reaches L R P k Q fresh t"

text \<open>At rest: every version seen, the key not queued, no pass running.\<close>

definition at_rest :: "agent_loop \<Rightarrow> bool" where
  "at_rest s \<longleftrightarrow> lo_seen s = length (lo_versions s) \<and> \<not> lo_queued s \<and> lo_busy s = None"

subsection \<open>What others leave alone\<close>

definition same_ask :: "floxenv \<Rightarrow> floxenv \<Rightarrow> bool" where
  "same_ask e e' \<longleftrightarrow> fe_generation e' = fe_generation e \<and> map_of (fe_annotations e') = map_of (fe_annotations e)"

definition own_entries :: "'w env_reconciler \<Rightarrow> floxenv \<Rightarrow> node_realization list" where
  "own_entries R e = filter (\<lambda>nr. nr_node nr = er_node_name R) (st_realized (fe_status e))"

text \<open>Nothing new is asked, the node's entry stands and a request that was honoured stays honoured.\<close>

definition undisturbed :: "'w env_reconciler \<Rightarrow> floxenv \<Rightarrow> floxenv \<Rightarrow> bool" where
  "undisturbed R e e' \<longleftrightarrow> same_ask e e' \<and> own_entries R e' = own_entries R e \<and>
     (st_relock_token (fe_status e) = relock_of e \<longrightarrow> st_relock_token (fe_status e') = relock_of e)"

text \<open>
  What the theorem asks of the changes of others: one that asks for nothing new leaves the entry of
  this node and an honoured token as they are.
\<close>

definition leaves_alone :: "'w env_reconciler \<Rightarrow> floxenv \<Rightarrow> floxenv \<Rightarrow> bool" where
  "leaves_alone R e e' \<longleftrightarrow> fe_generation e' = fe_generation e \<and> map_of (fe_annotations e') = map_of (fe_annotations e) \<longrightarrow>
     filter (\<lambda>nr. nr_node nr = er_node_name R) (st_realized (fe_status e')) =
       filter (\<lambda>nr. nr_node nr = er_node_name R) (st_realized (fe_status e)) \<and>
     (st_relock_token (fe_status e) = map_get (fe_annotations e) relockAnnotation \<longrightarrow>
        st_relock_token (fe_status e') = map_get (fe_annotations e) relockAnnotation)"

lemma leaves_alone_iff: "leaves_alone R e e' \<longleftrightarrow> (same_ask e e' \<longrightarrow> undisturbed R e e')"
  by (auto simp: leaves_alone_def undisturbed_def same_ask_def own_entries_def relock_of_def)

lemma same_ask_refl [simp]: "same_ask e e"
  by (simp add: same_ask_def)

lemma same_ask_trans [trans]: "same_ask e e' \<Longrightarrow> same_ask e' e'' \<Longrightarrow> same_ask e e''"
  by (simp add: same_ask_def)

lemma same_ask_relock: "same_ask e e' \<Longrightarrow> relock_of e' = relock_of e"
  by (simp add: same_ask_def relock_of_def map_get_def)

lemma undisturbed_refl [simp]: "undisturbed R e e"
  by (simp add: undisturbed_def)

lemma undisturbed_same_ask: "undisturbed R e e' \<Longrightarrow> same_ask e e'"
  by (simp add: undisturbed_def)

lemma undisturbed_trans [trans]: "undisturbed R e e' \<Longrightarrow> undisturbed R e' e'' \<Longrightarrow> undisturbed R e e''"
  using same_ask_relock [of e e'] by (auto simp: undisturbed_def intro: same_ask_trans)

lemma settled_iff: "alreadyRealized R e \<longleftrightarrow> st_relock_token (fe_status e) = relock_of e \<and>
    list_ex (\<lambda>nr. nr_ready nr \<and> nr_observed nr = fe_generation e) (own_entries R e)"
  by (auto simp: alreadyRealized_def own_entries_def relock_of_def list_ex_iff)

lemma settled_undisturbed: "undisturbed R e e' \<Longrightarrow> alreadyRealized R e \<Longrightarrow> alreadyRealized R e'"
  using same_ask_relock [of e e'] by (auto simp: undisturbed_def settled_iff same_ask_def)

lemma watch_wakes:
  assumes "predicate_laws P"
  shows "env_agent_wakes P (Created e) \<noteq> []" "env_agent_wakes P (Updated e e') \<noteq> [] \<longleftrightarrow> \<not> same_ask e e'"
  unfolding env_watch [OF assms] by (auto simp: env_agent_wakes_def same_ask_def)

subsection \<open>The writes of a pass\<close>

lemma not_ready_fields:
  assumes "not_ready_write L base new"
  shows "fe_meta new = fe_meta base" "st_realized (fe_status new) = st_realized (fe_status base)"
    "st_relock_token (fe_status new) = st_relock_token (fe_status base)"
  using assms by (auto simp: not_ready_write_def)

lemma merge_env_simps [simp]:
  "fe_meta (merge_env base new e) = fe_meta e"
  "st_relock_token (fe_status (merge_env base new e)) =
     merge_field (st_relock_token (fe_status base)) (st_relock_token (fe_status new)) (st_relock_token (fe_status e))"
  "st_realized (fe_status (merge_env base new e)) =
     merge_field (st_realized (fe_status base)) (st_realized (fe_status new)) (st_realized (fe_status e))"
  by (simp_all add: merge_env_def merge_status_def)

lemma same_ask_merge [simp]: "same_ask e (merge_env base new e)"
  by (simp add: same_ask_def)

lemma not_ready_undisturbed:
  assumes "not_ready_write L base new"
  shows "undisturbed R e (merge_env base new e)"
  using not_ready_fields [OF assms] by (simp add: undisturbed_def own_entries_def merge_field_def)

text \<open>The success write, when neither the object it starts from nor the server's has been asked for more.\<close>

lemma success_write_settles:
  assumes "undisturbed R base e" "relock_of base = relock"
  shows "alreadyRealized R (merge_env base (record_realized L R relock res base) e)" (is "alreadyRealized R ?e'")
proof -
  let ?nr = "node_entry R base res"
  have e: "relock_of ?e' = relock" "fe_generation ?e' = nr_observed ?nr"
    using assms same_ask_relock [of base e] by (simp_all add: undisturbed_def same_ask_def relock_of_def node_entry_def)
  have token: "st_relock_token (fe_status ?e') = relock"
    using assms by (simp add: merge_field_def record_realized_fields undisturbed_def)
  have "?nr \<in> set (own_entries R base) \<Longrightarrow> ?nr \<in> set (own_entries R e)" using assms(1) by (simp add: undisturbed_def)
  then have "?nr \<in> set (st_realized (fe_status base)) \<Longrightarrow> ?nr \<in> set (st_realized (fe_status e))"
    by (simp add: own_entries_def node_entry_def)
  moreover have "?nr \<in> set (upsert_list ?nr (st_realized (fe_status base)))" by (rule realized.ups_member)
  ultimately have "?nr \<in> set (st_realized (fe_status ?e'))"
    by (simp add: merge_field_def record_realized_fields) metis
  then have "?nr \<in> set (own_entries R ?e')" by (simp add: own_entries_def node_entry_def)
  moreover have "nr_ready ?nr" by (simp add: node_entry_def)
  ultimately show ?thesis using e token unfolding settled_iff list_ex_iff by metis
qed

text \<open>A pass with a success write: the write ends it, and the other writes before say the env is not Ready.\<close>

lemma success_not_unready:
  assumes "meta_laws (lib_meta L)"
  shows "\<not> not_ready_write L base (record_realized L R relock res base')"
  using not_ready_not_true [OF assms] true_with_ready [OF assms] by (metis record_realized_def)

text \<open>What a realise asks for, in terms of the env the pass read and the answers it had by then.\<close>

definition asked_for :: "libs \<Rightarrow> floxenv \<Rightarrow> event list \<Rightarrow> realize_request \<Rightarrow> bool" where
  "asked_for L e pre q \<longleftrightarrow> (\<exists>manifest resolved. parseManifest L (sp_manifest (fe_spec e)) = Inr manifest \<and>
       manifest_resolved L (fe_namespace e) pre manifest resolved \<and> manifestToTOML L resolved = Inr (rr_manifest_toml q)) \<and>
     ref_folder (rr_ref q) = effectiveFolder e \<and> rr_consumption q = consumption_of e \<and> rr_lock q = lock_to_use e"

lemma success_run:
  assumes "PatchFloxEnvStatus base new r \<in> set (trace_of (FloxEnv_Reconcile L R k) w)" "\<not> not_ready_write L base new"
  obtains e pre t q res rolls r0 where
    "trace_of (FloxEnv_Reconcile L R k) w =
      GetFloxEnv k (Inr e) # (pre @ Realize t q (Inr res) # rolls) @ [PatchFloxEnvStatus base new r, ReleaseSlot]"
    "asked_for L e pre q"
    "PatchFloxEnvStatus e (marked_env L R e (Inl (OtherErr []))) r0 \<in> set pre" "base = marked_env L R e r0"
    "new = record_realized L R (relock_of e) res base"
    "\<And>b n a. PatchFloxEnvStatus b n a \<in> set (pre @ Realize t q (Inr res) # rolls) \<Longrightarrow> not_ready_write L b n"
proof (cases rule: slot_or_quiet [of L R k w])
  case quiet
  then show ?thesis using assms by (auto simp: quiet_def)
next
  case (slot e reads t q answer)
  let ?mark = "PatchFloxEnvStatus e (marked_env L R e (Inl (OtherErr [])))"
  obtain toml r0 rest where evs: "trace_of (FloxEnv_Reconcile L R k) w = GetFloxEnv k (Inr e) # reads @ AcquireSlot None #
      ?mark r0 # Realize t q answer # rest @ [ReleaseSlot]"
    and reads: "\<exists>creads dreads. reads = creads @ dreads \<and> slot_pass L R e toml creads dreads"
    and q: "q = \<lparr> rr_ref = EnvRef (effectiveFolder e) (fe_name (marked_env L R e r0)), rr_manifest_toml = toml,
              rr_lock = lock_to_use e, rr_consumption = consumption_of e \<rparr>"
    and rest: "case answer of
       Inl err \<Rightarrow> failed_write L (marked_env L R e r0) ''RealizeFailed'' err (outcome_of (FloxEnv_Reconcile L R k) w) rest
     | Inr res \<Rightarrow> after_realize L R (marked_env L R e r0) (relock_of e) (st_lock (fe_status e)) res
         (outcome_of (FloxEnv_Reconcile L R k) w) rest"
    using slot unfolding realise_pass_def by blast
  have mark: "not_ready_write L e (marked_env L R e (Inl (OtherErr [])))" by (simp add: marked_Inl)
  have noread: "PatchFloxEnvStatus b n a \<notin> set reads" for b n a
    using reads by (auto simp: slot_pass_def catalog_reads_def env_reads_def)
  have "PatchFloxEnvStatus base new r \<in> set rest" using assms mark noread unfolding evs by auto
  moreover from this obtain res where "answer = Inr res" using rest assms(2) by (cases answer) (auto simp: failed_write_def)
  ultimately have res: "after_realize L R (marked_env L R e r0) (relock_of e) (st_lock (fe_status e)) res
         (outcome_of (FloxEnv_Reconcile L R k) w) rest" "PatchFloxEnvStatus base new r \<in> set rest" "answer = Inr res"
    using rest by simp_all
  from after_realize_write [OF res(1,2)] assms(2) obtain rolls where b: "base = marked_env L R e r0"
      "new = record_realized L R (relock_of e) res base" "rest = rolls @ [PatchFloxEnvStatus base new r]"
      "roll_outcome base (st_lock (fe_status e)) res None rolls" by blast
  let ?pre = "reads @ [AcquireSlot None, ?mark r0]"
  have "asked_for L e ?pre q"
    using reads q unfolding asked_for_def slot_pass_def by (fastforce elim: manifest_resolved_mono)
  then show ?thesis
  proof (rule that [of e ?pre t q res rolls r0, rotated])
    show "not_ready_write L b n" if "PatchFloxEnvStatus b n a \<in> set (?pre @ Realize t q (Inr res) # rolls)" for b n a
      using that noread mark b(4) by (auto simp: roll_outcome_def roll_events_def split: if_splits)
  qed (use evs b res(3) in simp_all)
qed

subsection \<open>The loop does its work\<close>

text \<open>A wake is due when the key is queued, or when a version on its way will queue it.\<close>

definition new_ask :: "floxenv list \<Rightarrow> nat \<Rightarrow> bool" where
  "new_ask vs i \<longleftrightarrow> i = 0 \<or> \<not> same_ask (vs ! (i - 1)) (vs ! i)"

definition due :: "agent_loop \<Rightarrow> bool" where
  "due s \<longleftrightarrow> lo_queued s \<or> (\<exists>i < length (lo_versions s). lo_seen s \<le> i \<and> new_ask (lo_versions s) i)"

lemma new_ask_append:
  "i < length vs \<Longrightarrow> new_ask (vs @ [v]) i = new_ask vs i"
  "vs \<noteq> [] \<Longrightarrow> new_ask (vs @ [v]) (length vs) \<longleftrightarrow> \<not> same_ask (last vs) v"
  by (auto simp: new_ask_def nth_append last_conv_nth)

lemma due_append:
  assumes "lo_versions s \<noteq> []" "lo_seen s \<le> length (lo_versions s)"
  shows "due (s\<lparr> lo_versions := lo_versions s @ [v] \<rparr>) \<longleftrightarrow> due s \<or> \<not> same_ask (last (lo_versions s)) v"
  using assms(2) new_ask_append(2) [OF assms(1), of v] by (auto simp: due_def less_Suc_eq new_ask_append(1))

definition recorded :: "libs \<Rightarrow> event list \<Rightarrow> bool" where
  "recorded L evs \<longleftrightarrow> (\<exists>b n st. PatchFloxEnvStatus b n (Inr st) \<in> set evs \<and> \<not> not_ready_write L b n)"

text \<open>
  A pass that read \<open>e\<close> and has done \<open>evs\<close>, with no wake due: up to its success write everything it
  holds is as the server has it, and from then on the server's version is settled.
\<close>

definition reading :: "libs \<Rightarrow> 'w env_reconciler \<Rightarrow> floxenv list \<Rightarrow> floxenv \<Rightarrow> event list \<Rightarrow> bool" where
  "reading L R vs e evs \<longleftrightarrow> vs \<noteq> [] \<and>
     (if recorded L evs then alreadyRealized R (last vs)
      else undisturbed R e (last vs) \<and>
        (\<forall>b n st. PatchFloxEnvStatus b n (Inr st) \<in> set evs \<longrightarrow> undisturbed R st (last vs)))"

definition midpass :: "libs \<Rightarrow> 'w env_reconciler \<Rightarrow> objkey \<Rightarrow> agent_loop \<Rightarrow> event list \<Rightarrow> bool" where
  "midpass L R k s evs \<longleftrightarrow>
     (evs = [] \<longrightarrow> lo_written s \<le> lo_seen s) \<and>
     (\<forall>err rest. evs = GetFloxEnv k (Inl err) # rest \<longrightarrow> IgnoreNotFound err = None \<longrightarrow> lo_versions s = []) \<and>
     (\<forall>e rest. evs = GetFloxEnv k (Inr e) # rest \<longrightarrow> reading L R (lo_versions s) e evs)"

definition by_others :: "'w env_reconciler \<Rightarrow> agent_loop \<Rightarrow> bool" where
  "by_others R s \<longleftrightarrow> (\<forall>i. 0 < i \<and> lo_written s \<le> i \<and> i < length (lo_versions s) \<longrightarrow>
     leaves_alone R (lo_versions s ! (i - 1)) (lo_versions s ! i))"

definition loop_inv :: "libs \<Rightarrow> 'w env_reconciler \<Rightarrow> objkey \<Rightarrow> agent_loop \<Rightarrow> bool" where
  "loop_inv L R k s \<longleftrightarrow> lo_seen s \<le> length (lo_versions s) \<and> by_others R s \<and>
     (\<not> due s \<longrightarrow> (case lo_busy s of
        None \<Rightarrow> lo_versions s \<noteq> [] \<longrightarrow> alreadyRealized R (last (lo_versions s))
      | Some evs \<Rightarrow> midpass L R k s evs))"

lemma loop_invD:
  assumes "loop_inv L R k s"
  shows "lo_seen s \<le> length (lo_versions s)" "by_others R s"
    "\<not> due s \<Longrightarrow> lo_busy s = None \<Longrightarrow> lo_versions s \<noteq> [] \<Longrightarrow> alreadyRealized R (last (lo_versions s))"
    "\<not> due s \<Longrightarrow> lo_busy s = Some evs \<Longrightarrow> midpass L R k s evs"
  using assms by (auto simp: loop_inv_def)

lemma loop_invI:
  assumes "lo_seen s \<le> length (lo_versions s)" "by_others R s"
    and "\<not> due s \<Longrightarrow> lo_busy s = None \<Longrightarrow> lo_versions s \<noteq> [] \<Longrightarrow> alreadyRealized R (last (lo_versions s))"
    and "\<And>evs. \<not> due s \<Longrightarrow> lo_busy s = Some evs \<Longrightarrow> midpass L R k s evs"
  shows "loop_inv L R k s"
  using assms by (auto simp: loop_inv_def split: option.split)

text \<open>With no wake due and no write of its own on the way, the agent reads what stands.\<close>

lemma cache_stands:
  assumes "by_others R s" "\<not> due s" "lo_written s \<le> lo_seen s" "lo_seen s \<le> length (lo_versions s)" "lo_cache s = Some e"
  shows "lo_versions s \<noteq> [] \<and> undisturbed R e (last (lo_versions s))"
proof -
  let ?vs = "lo_versions s"
  have seen: "0 < lo_seen s" "e = ?vs ! (lo_seen s - 1)" using assms(5) by (auto simp: lo_cache_def split: if_splits)
  have "undisturbed R e (?vs ! j)" if "lo_seen s - 1 \<le> j" "j < length ?vs" for j
    using that
  proof (induction j rule: dec_induct)
    case base
    show ?case by (simp add: seen)
  next
    case (step j)
    then have "same_ask (?vs ! j) (?vs ! Suc j)" "leaves_alone R (?vs ! j) (?vs ! Suc j)"
      using assms(1-3) unfolding due_def new_ask_def by_others_def by (auto dest: spec [of _ "Suc j"])
    then have "undisturbed R (?vs ! j) (?vs ! Suc j)" by (simp add: leaves_alone_iff)
    with step show ?case by (auto intro: undisturbed_trans)
  qed
  moreover have "?vs \<noteq> []" using seen(1) assms(4) by auto
  moreover have "lo_seen s - 1 \<le> length ?vs - 1" using assms(4) by (rule diff_le_mono)
  ultimately show ?thesis by (simp add: last_conv_nth)
qed

text \<open>A version that disturbs nothing keeps what is known of a pass.\<close>

lemma reading_undisturbed:
  "reading L R vs e evs \<Longrightarrow> undisturbed R (last vs) v \<Longrightarrow> reading L R (vs @ [v]) e evs"
  by (auto simp: reading_def intro: undisturbed_trans settled_undisturbed split: if_splits)

lemma recorded_snoc: "recorded L (evs @ [ev]) \<longleftrightarrow> recorded L evs \<or> recorded L [ev]"
  by (auto simp: recorded_def)

subsection \<open>Every step keeps it\<close>

lemma by_others_append:
  assumes "by_others R s" "lo_versions s \<noteq> []" "leaves_alone R (last (lo_versions s)) v"
  shows "by_others R (s\<lparr> lo_versions := lo_versions s @ [v] \<rparr>)"
  using assms by (auto simp: by_others_def nth_append last_conv_nth less_Suc_eq)

lemma keeps_changed:
  assumes inv: "loop_inv L R k s" and vs: "lo_versions s \<noteq> []" and alone: "leaves_alone R (last (lo_versions s)) v"
  shows "loop_inv L R k (s\<lparr> lo_versions := lo_versions s @ [v] \<rparr>)" (is "loop_inv L R k ?t")
proof (rule loop_invI)
  note I = loop_invD [OF inv]
  show "lo_seen ?t \<le> length (lo_versions ?t)" using I(1) by simp
  show "by_others R ?t" by (rule by_others_append [OF I(2) vs alone])
  assume "\<not> due ?t"
  then have d: "\<not> due s" and u: "undisturbed R (last (lo_versions s)) v"
    using alone by (auto simp: due_append [OF vs I(1)] leaves_alone_iff)
  show "alreadyRealized R (last (lo_versions ?t))" if "lo_busy ?t = None"
    using I(3) [OF d _ vs] that settled_undisturbed [OF u] by simp
  show "midpass L R k ?t evs" if "lo_busy ?t = Some evs" for evs
    using I(4) [OF d] that vs by (auto simp: midpass_def intro: reading_undisturbed [OF _ u])
qed

lemma keeps_created:
  assumes "loop_inv L R k s" "lo_versions s = []"
  shows "loop_inv L R k (s\<lparr> lo_versions := [v] \<rparr>)"
  using assms by (intro loop_invI) (auto simp: loop_inv_def by_others_def due_def new_ask_def)

lemma seen_due:
  assumes "predicate_laws P" "lo_seen s < length (lo_versions s)"
  shows "due s \<Longrightarrow> due (s\<lparr> lo_seen := Suc (lo_seen s), lo_queued := lo_queued s \<or> env_agent_wakes P (next_change s) \<noteq> [] \<rparr>)"
  using assms watch_wakes [OF assms(1)]
  by (auto simp: due_def next_change_def lo_cache_def new_ask_def le_eq_less_or_eq Suc_le_eq)

lemma keeps_seen:
  assumes inv: "loop_inv L R k s" and P: "predicate_laws P" and l: "lo_seen s < length (lo_versions s)"
  shows "loop_inv L R k (s\<lparr> lo_seen := Suc (lo_seen s), lo_queued := lo_queued s \<or> env_agent_wakes P (next_change s) \<noteq> [] \<rparr>)"
    (is "loop_inv L R k ?t")
proof (rule loop_invI)
  note I = loop_invD [OF inv]
  show "lo_seen ?t \<le> length (lo_versions ?t)" using l by simp
  show "by_others R ?t" using I(2) by (simp add: by_others_def)
  assume "\<not> due ?t"
  then have d: "\<not> due s" using seen_due [OF P l] by blast
  show "alreadyRealized R (last (lo_versions ?t))" if "lo_busy ?t = None" "lo_versions ?t \<noteq> []"
    using I(3) [OF d] that by simp
  show "midpass L R k ?t evs" if "lo_busy ?t = Some evs" for evs
    using I(4) [OF d, of evs] that by (auto simp: midpass_def)
qed

lemma loop_keeps_taken:
  assumes inv: "loop_inv L R k s" and w: "lo_written s \<le> lo_seen s"
  shows "loop_inv L R k (s\<lparr> lo_queued := False, lo_busy := Some [] \<rparr>)"
  using loop_invD(1,2) [OF inv] w by (intro loop_invI) (auto simp: by_others_def midpass_def)

lemma loop_keeps_ended:
  assumes inv: "loop_inv L R k s" and M: "meta_laws (lib_meta L)"
    and b: "lo_busy s = Some evs" "trace_of (FloxEnv_Reconcile L R k) w = evs"
  shows "loop_inv L R k (s\<lparr> lo_busy := None,
    lo_queued := lo_queued s \<or> comes_back (outcome_of (FloxEnv_Reconcile L R k) w) \<rparr>)" (is "loop_inv L R k ?t")
proof (rule loop_invI)
  note I = loop_invD [OF inv]
  show "lo_seen ?t \<le> length (lo_versions ?t)" using I(1) by simp
  show "by_others R ?t" using I(2) by (simp add: by_others_def)
  assume "\<not> due ?t"
  then have d: "\<not> due s" and out: "outcome_of (FloxEnv_Reconcile L R k) w = (done_result, None)"
    by (auto simp: due_def comes_back_def)
  assume vs: "lo_versions ?t \<noteq> []"
  note mid = I(4) [OF d b(1), unfolded midpass_def]
  obtain got rest where got: "evs = GetFloxEnv k got # rest"
    using reconcile_run [of L R k w] unfolding b(2) reconcile_trace_def by blast
  from silent_stop [OF out] show "alreadyRealized R (last (lo_versions ?t))"
    unfolding b(2)
  proof (elim disjE exE conjE)
    fix e assume "evs = [GetFloxEnv k (Inl e)]" "IsNotFound e"
    then show ?thesis using mid vs by (simp add: IgnoreNotFound_def)
  next
    fix env assume e: "evs = [GetFloxEnv k (Inr env)]" "alreadyRealized R env"
    then have "reading L R (lo_versions s) env evs" using mid by simp
    then show ?thesis using e settled_undisturbed [of R env] by (simp add: reading_def recorded_def)
  next
    fix pre q res rolls base relock stored
    assume e: "evs = pre @ Realize (realize_timeout R) q (Inr res) # rolls @
      [PatchFloxEnvStatus base (record_realized L R relock res base) (Inr stored), ReleaseSlot]"
    have rec: "recorded L evs" unfolding recorded_def e using success_not_unready [OF M] by fastforce
    obtain env where "got = Inr env"
    proof (cases got)
      case (Inl err)
      then have "rest = []" using reconcile_run [of L R k w] unfolding b(2) got reconcile_trace_def by auto
      then show thesis using rec by (simp add: got recorded_def)
    qed (rule that)
    then have "reading L R (lo_versions s) env evs" using mid got by blast
    then show ?thesis using rec by (simp add: reading_def)
  qed
qed simp

text \<open>A request of a pass: a first read, a request that stores nothing, or an accepted status write.\<close>

lemma stored_by_cases:
  obtains (unchanged) "stored_by ev = []" | (stored) b n st where "ev = PatchFloxEnvStatus b n (Inr st)" "stored_by ev = [st]"
  by (cases ev rule: stored_by.cases) simp_all

lemma midpass_first:
  assumes "by_others R s" "\<not> due s" "lo_seen s \<le> length (lo_versions s)" "midpass L R k s []"
    and "trace_of (FloxEnv_Reconcile L R k) w = ev # rest" "answered k s ev"
  shows "midpass L R k (s\<lparr> lo_busy := Some [ev] \<rparr>) [ev]"
proof -
  obtain got where ev: "ev = GetFloxEnv k got"
    using reconcile_run [of L R k w] unfolding assms(5) reconcile_trace_def by auto
  have w: "lo_written s \<le> lo_seen s" using assms(4) by (simp add: midpass_def)
  show ?thesis
  proof (cases got)
    case (Inl err)
    have "lo_versions s = []" if "IgnoreNotFound err = None"
    proof -
      have "lo_seen s = 0" using assms(6) that by (auto simp: ev Inl lo_cache_def split: if_splits)
      then show ?thesis using assms(2) by (auto simp: due_def new_ask_def)
    qed
    then show ?thesis by (auto simp: midpass_def ev Inl)
  next
    case (Inr e)
    then have "lo_cache s = Some e" using assms(6) by (simp add: ev)
    from cache_stands [OF assms(1,2) w assms(3) this] show ?thesis
      by (auto simp: midpass_def ev Inr reading_def recorded_def)
  qed
qed

lemma midpass_nothing:
  assumes "midpass L R k s evs" "evs \<noteq> []" "stored_by ev = []"
  shows "midpass L R k (s\<lparr> lo_busy := b \<rparr>) (evs @ [ev])"
proof -
  have "PatchFloxEnvStatus x y (Inr st) \<in> set (evs @ [ev]) \<longleftrightarrow> PatchFloxEnvStatus x y (Inr st) \<in> set evs" for x y st
    using assms(3) by auto
  then have "reading L R vs e (evs @ [ev]) = reading L R vs e evs" for vs e
    by (simp only: reading_def recorded_def)
  then show ?thesis using assms(1,2) by (cases evs) (auto simp: midpass_def)
qed

text \<open>The two kinds of accepted writes, after reading \<open>e\<close>.\<close>

lemma reading_unready:
  assumes "reading L R vs e evs" "not_ready_write L b n"
  shows "reading L R (vs @ [merge_env b n (last vs)]) e (evs @ [PatchFloxEnvStatus b n (Inr (merge_env b n (last vs)))])"
proof -
  have "recorded L (evs @ [PatchFloxEnvStatus b n (Inr st)]) = recorded L evs" for st
    using assms(2) by (auto simp: recorded_def)
  then show ?thesis
    using reading_undisturbed [OF assms(1) not_ready_undisturbed [OF assms(2)]] by (auto simp: reading_def)
qed

lemma first_occurrence: "xs @ x # ys = pre @ p # post \<Longrightarrow> x \<notin> set pre \<Longrightarrow> x \<noteq> p \<Longrightarrow> p \<in> set xs"
  by (induction xs arbitrary: pre) (auto simp: Cons_eq_append_conv)

lemma reading_success:
  assumes read: "reading L R vs e (GetFloxEnv k (Inr e) # evs)" and n: "\<not> not_ready_write L b n"
    and run: "trace_of (FloxEnv_Reconcile L R k) w = (GetFloxEnv k (Inr e) # evs) @ PatchFloxEnvStatus b n (Inr st) # rest"
    and st: "st = merge_env b n (last vs)"
  shows "alreadyRealized R st"
proof -
  let ?ev = "PatchFloxEnvStatus b n (Inr st)"
  have "?ev \<in> set (trace_of (FloxEnv_Reconcile L R k) w)" by (simp add: run)
  from success_run [OF this n] obtain e' pre r0 res where p:
      "trace_of (FloxEnv_Reconcile L R k) w = GetFloxEnv k (Inr e') # pre @ [?ev, ReleaseSlot]"
      "PatchFloxEnvStatus e' (marked_env L R e' (Inl (OtherErr []))) r0 \<in> set pre" "b = marked_env L R e' r0"
      "n = record_realized L R (relock_of e') res b"
      "\<And>b n a. PatchFloxEnvStatus b n a \<in> set pre \<Longrightarrow> not_ready_write L b n"
    by (metis Un_iff set_append)
  have "?ev \<notin> set pre" using p(5) n by blast
  moreover have eqs: "pre @ ?ev # [ReleaseSlot] = evs @ ?ev # rest" "e' = e" using run p(1) by simp_all
  ultimately have "evs = pre" using append_Cons_eq_iff [of ?ev pre "[ReleaseSlot]" evs rest] by simp
  then have fresh: "undisturbed R e (last vs)" "\<And>b n st. PatchFloxEnvStatus b n (Inr st) \<in> set evs \<Longrightarrow> undisturbed R st (last vs)"
    using read p(5) by (auto simp: reading_def recorded_def split: if_splits)
  have "undisturbed R b (last vs) \<and> relock_of b = relock_of e"
  proof (cases r0)
    case (Inl err)
    then have "undisturbed R b e" "undisturbed R e b"
      by (simp_all add: p(3) eqs(2) marked_env_def undisturbed_def same_ask_def own_entries_def relock_of_def)
    with fresh(1) same_ask_relock show ?thesis by (blast intro: undisturbed_trans dest: undisturbed_same_ask)
  next
    case (Inr a)
    then have "undisturbed R b (last vs)"
      using fresh(2) p(2,3) \<open>evs = pre\<close> by (auto simp: marked_env_def)
    moreover from this have "relock_of b = relock_of e"
      using fresh(1) same_ask_relock by (metis undisturbed_same_ask)
    ultimately show ?thesis by blast
  qed
  then show ?thesis unfolding st p(4) eqs(2) by (intro success_write_settles) simp_all
qed

lemma midpass_stored:
  assumes mid: "midpass L R k s evs" and vs: "lo_versions s \<noteq> []"
    and run: "trace_of (FloxEnv_Reconcile L R k) w = evs @ PatchFloxEnvStatus b n (Inr st) # rest"
    and st: "st = merge_env b n (last (lo_versions s))"
  shows "midpass L R k (s\<lparr> lo_busy := Some evs', lo_versions := lo_versions s @ [st], lo_written := m \<rparr>)
    (evs @ [PatchFloxEnvStatus b n (Inr st)])"
proof -
  obtain got es where evs: "evs = GetFloxEnv k got # es"
    using reconcile_run [of L R k w] unfolding run reconcile_trace_def by (cases evs) auto
  have "reading L R (lo_versions s @ [st]) e (evs @ [PatchFloxEnvStatus b n (Inr st)])" if "got = Inr e" for e
  proof -
    have read: "reading L R (lo_versions s) e evs" using mid that evs by (simp add: midpass_def)
    show ?thesis
    proof (cases "not_ready_write L b n")
      case True
      from reading_unready [OF read this] show ?thesis by (simp add: st)
    next
      case False
      have "alreadyRealized R st"
        by (rule reading_success [OF read [unfolded evs that] False run [unfolded evs that] st])
      then show ?thesis using False by (auto simp: reading_def recorded_def)
    qed
  qed
  then show ?thesis using mid vs by (auto simp: midpass_def evs)
qed

lemma keeps_moved:
  assumes inv: "loop_inv L R k s" and b: "lo_busy s = Some evs"
    and run: "trace_of (FloxEnv_Reconcile L R k) w = evs @ ev # rest" and a: "answered k s ev"
  shows "loop_inv L R k (s\<lparr> lo_busy := Some (evs @ [ev]), lo_versions := lo_versions s @ stored_by ev,
    lo_written := (if stored_by ev = [] then lo_written s else Suc (length (lo_versions s))) \<rparr>)"
proof (rule stored_by_cases [of ev])
  assume quiet_ev: "stored_by ev = []"
  note I = loop_invD [OF inv]
  have "midpass L R k (s\<lparr> lo_busy := Some (evs @ [ev]) \<rparr>) (evs @ [ev])" if d: "\<not> due s"
  proof (cases evs)
    case Nil
    then show ?thesis using midpass_first [OF I(2) d I(1) _ _ a] I(4) [OF d b] run by simp
  next
    case (Cons x xs)
    have "evs \<noteq> []" by (simp add: Cons)
    from midpass_nothing [OF I(4) [OF d b] this quiet_ev] show ?thesis .
  qed
  then show ?thesis
    using I(1,2) quiet_ev by (intro loop_invI) (auto simp: by_others_def due_def)
next
  fix c n st assume stored: "ev = PatchFloxEnvStatus c n (Inr st)" "stored_by ev = [st]"
  note I = loop_invD [OF inv]
  have vs: "lo_versions s \<noteq> []" and st: "st = merge_env c n (last (lo_versions s))" using a by (simp_all add: stored)
  show ?thesis
  proof (rule loop_invI)
    fix evs' assume d: "\<not> due (s\<lparr> lo_busy := Some (evs @ [ev]), lo_versions := lo_versions s @ stored_by ev,
        lo_written := (if stored_by ev = [] then lo_written s else Suc (length (lo_versions s))) \<rparr>)"
    then have "\<not> due s" using due_append [OF vs I(1), of st] by (simp add: stored due_def) blast
    from midpass_stored [OF I(4) [OF this b] vs run [unfolded stored] st]
    show "midpass L R k (s\<lparr> lo_busy := Some (evs @ [ev]), lo_versions := lo_versions s @ stored_by ev,
        lo_written := (if stored_by ev = [] then lo_written s else Suc (length (lo_versions s))) \<rparr>) evs'"
      if "lo_busy (s\<lparr> lo_busy := Some (evs @ [ev]), lo_versions := lo_versions s @ stored_by ev,
        lo_written := (if stored_by ev = [] then lo_written s else Suc (length (lo_versions s))) \<rparr>) = Some evs'"
      using that by (simp add: stored)
  qed (use I(1,2) in \<open>auto simp: by_others_def stored\<close>)
qed

lemma agent_step_inv:
  assumes "agent_step L R P k (leaves_alone R) True s t" "loop_inv L R k s" "meta_laws (lib_meta L)" "predicate_laws P"
  shows "loop_inv L R k t"
  using assms(1)
proof (cases rule: agent_step.cases)
  case (env_created v)
  then show ?thesis using keeps_created [OF assms(2)] by simp
next
  case (env_changed v)
  then show ?thesis using keeps_changed [OF assms(2)] by simp
next
  case version_seen
  then show ?thesis using keeps_seen [OF assms(2,4)] by simp
next
  case key_taken
  then show ?thesis using loop_keeps_taken [OF assms(2)] by simp
next
  case (pass_moved evs w ev rest)
  then show ?thesis using keeps_moved [OF assms(2)] by simp
next
  case (pass_ended evs w)
  then show ?thesis using loop_keeps_ended [OF assms(2,3)] by simp
qed

lemma agent_reaches_inv:
  assumes "agent_reaches L R P k (leaves_alone R) True s" "meta_laws (lib_meta L)" "predicate_laws P"
  shows "loop_inv L R k s"
  using assms(1)
proof (induction rule: agent_reaches.induct)
  case agent_started
  show ?case by (intro loop_invI) (simp_all add: loop_start_def by_others_def)
next
  case (agent_moved s t)
  then show ?case using agent_step_inv assms(2,3) by blast
qed

text \<open>At rest the env is settled.\<close>

lemma rest_settled:
  assumes "agent_reaches L R P k (leaves_alone R) True s" "at_rest s" "lo_cache s = Some e"
    and "meta_laws (lib_meta L)" "predicate_laws P"
  shows "alreadyRealized R e \<and> e = last (lo_versions s)"
proof -
  have "\<not> due s" "lo_versions s \<noteq> []" "e = last (lo_versions s)"
    using assms(2,3) by (auto simp: at_rest_def due_def lo_cache_def last_conv_nth split: if_splits)
  then show ?thesis
    using loop_invD(3) [OF agent_reaches_inv [OF assms(1,4,5)]] assms(2) by (auto simp: at_rest_def)
qed

subsection \<open>Runs of the loop\<close>

definition do_event :: "event \<Rightarrow> agent_loop \<Rightarrow> agent_loop" where
  "do_event ev s = s\<lparr> lo_busy := map_option (\<lambda>evs. evs @ [ev]) (lo_busy s), lo_versions := lo_versions s @ stored_by ev,
     lo_written := (if stored_by ev = [] then lo_written s else Suc (length (lo_versions s))) \<rparr>"

fun all_answered :: "objkey \<Rightarrow> agent_loop \<Rightarrow> event list \<Rightarrow> bool" where
  "all_answered k s [] \<longleftrightarrow> True"
| "all_answered k s (ev # evs) \<longleftrightarrow> answered k s ev \<and> all_answered k (do_event ev s) evs"

text \<open>A set of states that is closed under the steps of the loop; the reachable states are one.\<close>

definition agent_closed ::
  "libs \<Rightarrow> 'w env_reconciler \<Rightarrow> predicates \<Rightarrow> objkey \<Rightarrow> (floxenv \<Rightarrow> floxenv \<Rightarrow> bool) \<Rightarrow> bool \<Rightarrow> (agent_loop \<Rightarrow> bool) \<Rightarrow> bool" where
  "agent_closed L R P k Q fresh A \<longleftrightarrow> (\<forall>s t. A s \<longrightarrow> agent_step L R P k Q fresh s t \<longrightarrow> A t)"

lemma agent_closedD: "agent_closed L R P k Q fresh A \<Longrightarrow> A s \<Longrightarrow> agent_step L R P k Q fresh s t \<Longrightarrow> A t"
  unfolding agent_closed_def by blast

lemma reaches_closed: "agent_closed L R P k Q fresh (agent_reaches L R P k Q fresh)"
  unfolding agent_closed_def by (blast intro: agent_moved)

lemma pass_goes:
  assumes closed: "agent_closed L R P k Q fresh A"
    and "A s" "lo_busy s = Some pre" "trace_of (FloxEnv_Reconcile L R k) w = pre @ evs @ rest" "all_answered k s evs"
  shows "A (fold do_event evs s)"
  using assms(2-)
proof (induction evs arbitrary: s pre)
  case (Cons ev evs)
  have "A (do_event ev s)"
    using agent_closedD [OF closed Cons.prems(1) pass_moved [OF Cons.prems(2), of L R k w ev "evs @ rest"]] Cons.prems
    by (simp add: do_event_def)
  with Cons.IH [of "do_event ev s" "pre @ [ev]"] Cons.prems show ?case by (simp add: do_event_def)
qed simp

text \<open>A pass that begins now and does the first part of its trace.\<close>

lemma pass_begins:
  assumes closed: "agent_closed L R P k Q fresh A"
    and "A s" "lo_queued s" "lo_busy s = None" "fresh \<Longrightarrow> lo_written s \<le> lo_seen s"
    and "trace_of (FloxEnv_Reconcile L R k) w = evs @ rest" "all_answered k (s\<lparr> lo_queued := False, lo_busy := Some [] \<rparr>) evs"
  shows "A (fold do_event evs (s\<lparr> lo_queued := False, lo_busy := Some [] \<rparr>))"
  using pass_goes [OF closed agent_closedD [OF closed assms(2) key_taken [OF assms(3-5)]] _ _ assms(7), of "[]" w rest] assms(6)
  by simp

lemma pass_ends:
  assumes closed: "agent_closed L R P k Q fresh A"
    and "A s" "lo_busy s = Some pre" "trace_of (FloxEnv_Reconcile L R k) w = pre @ evs"
    and "all_answered k s evs" "outcome_of (FloxEnv_Reconcile L R k) w = (done_result, None)"
  shows "A ((fold do_event evs s)\<lparr> lo_busy := None \<rparr>)"
proof -
  have "lo_busy (fold do_event evs s) = Some (pre @ evs)"
    using assms(3) by (induction evs arbitrary: s pre) (simp_all add: do_event_def)
  moreover have "t\<lparr> lo_busy := None, lo_queued := lo_queued t \<rparr> = t\<lparr> lo_busy := None \<rparr>" for t :: agent_loop
    by (cases t) simp
  moreover have "A (fold do_event evs s)"
    by (rule pass_goes [OF closed assms(2,3) _ assms(5), of w "[]"]) (simp add: assms(4))
  ultimately show ?thesis
    using agent_closedD [OF closed _ pass_ended [of _ "pre @ evs" L R k w]] assms(4,6) by (fastforce simp: comes_back_def)
qed

lemma seen_next:
  assumes closed: "agent_closed L R P k Q fresh A"
    and "A s" "predicate_laws P" "lo_seen s < length (lo_versions s)" "lo_seen s \<noteq> 0"
  shows "A (s\<lparr> lo_seen := Suc (lo_seen s), lo_queued := lo_queued s \<or>
    \<not> same_ask (lo_versions s ! (lo_seen s - 1)) (lo_versions s ! lo_seen s) \<rparr>)"
  using agent_closedD [OF closed assms(2) version_seen [OF assms(4)]] watch_wakes(2) [OF assms(3)] assms(5)
  by (simp add: next_change_def lo_cache_def)

text \<open>The first life of an env: it is created, the agent sees it and realises it.\<close>

definition settled_loop :: agent_loop where
  "settled_loop = \<lparr> lo_versions = [pinned_env ''web'', marked_web, realized_web], lo_seen = 3, lo_written = 3,
     lo_queued = False, lo_busy = None \<rparr>"

lemma settled_loop_reached:
  assumes closed: "agent_closed L R P web Q fresh A" and start: "A loop_start" and P: "predicate_laws P"
    and run: "trace_of (FloxEnv_Reconcile L R web) w = trace_of (FloxEnv_Reconcile store_libs agent web) (store_of [pinned_env ''web''])"
      "outcome_of (FloxEnv_Reconcile L R web) w = (done_result, None)"
  shows "A settled_loop"
proof -
  have merges: "merge_env (pinned_env ''web'') marked_web (pinned_env ''web'') = marked_web"
      "merge_env marked_web realized_web marked_web = realized_web"
    by (simp_all add: web_defs go_defs)
  have same: "same_ask (pinned_env ''web'') marked_web" "same_ask marked_web realized_web"
    by (simp_all add: web_defs go_defs same_ask_def)
  let ?s = "\<lambda>seen q. \<lparr> lo_versions = [pinned_env ''web''], lo_seen = seen, lo_written = 0, lo_queued = q, lo_busy = None \<rparr>"
  have "A (?s 0 False)"
    using agent_closedD [OF closed start env_created [of loop_start]] by (simp add: loop_start_def)
  from agent_closedD [OF closed this version_seen] have "A (?s 1 True)"
    using watch_wakes(1) [OF P] by (simp add: next_change_def lo_cache_def)
  from agent_closedD [OF closed this key_taken]
  have "A ((?s 1 False)\<lparr> lo_busy := Some [] \<rparr>)" by simp
  from pass_ends [OF closed this _ _ _ run(2), of "[]" "trace_of (FloxEnv_Reconcile L R web) w"]
  have "A \<lparr> lo_versions = [pinned_env ''web'', marked_web, realized_web], lo_seen = 1, lo_written = 3,
     lo_queued = False, lo_busy = None \<rparr>"
    unfolding run(1) pinned_trace by (simp add: do_event_def lo_cache_def merges numeral_3_eq_3)
  from seen_next [OF closed this P]
  have "A \<lparr> lo_versions = [pinned_env ''web'', marked_web, realized_web], lo_seen = 2, lo_written = 3,
     lo_queued = False, lo_busy = None \<rparr>"
    by (simp add: same numeral_2_eq_2)
  from seen_next [OF closed this P] show ?thesis
    by (simp add: same settled_loop_def numeral_2_eq_2 numeral_3_eq_3)
qed

subsection \<open>Both assumptions are needed\<close>

text \<open>
  The agent of n2 writes its success from the version it had read before n1's was stored. The merge patch
  drops the entry of n1, the watch of n1 passes no status write, and n1 is at rest with an env it no
  longer counts as realised.
\<close>

definition written_by :: "'w env_reconciler \<Rightarrow> floxenv \<Rightarrow> floxenv \<Rightarrow> bool" where
  "written_by R e e' \<longleftrightarrow> (\<exists>w base new r. PatchFloxEnvStatus base new r \<in> set (trace_of (FloxEnv_Reconcile store_libs R web) w) \<and>
     e' = merge_env base new e)"

definition marked_by_other :: floxenv where
  "marked_by_other = with_ready store_libs (pinned_env ''web'') ConditionFalse ''Realizing'' ''realising the env closure on n2''"

definition realized_by_other :: floxenv where
  "realized_by_other = record_realized store_libs (store_agent ''n2'') [] store_result marked_by_other"

lemma other_trace:
  "PatchFloxEnvStatus marked_by_other realized_by_other (Inr realized_by_other)
     \<in> set (trace_of (FloxEnv_Reconcile store_libs (store_agent ''n2'') web) (store_of [pinned_env ''web'']))"
  by (simp add: go_defs marked_by_other_def realized_by_other_def)

theorem lost_entry_is_not_rebuilt:
  "\<exists>s e. agent_reaches store_libs agent update_predicates web (written_by (store_agent ''n2'')) True s \<and> at_rest s \<and>
     lo_cache s = Some e \<and> \<not> alreadyRealized agent e"
proof -
  let ?e = "merge_env marked_by_other realized_by_other realized_web"
  let ?vs = "[pinned_env ''web'', marked_web, realized_web, ?e]"
  have "agent_reaches store_libs agent update_predicates web (written_by (store_agent ''n2'')) True settled_loop"
    by (rule settled_loop_reached [OF reaches_closed agent_started update_predicate_laws refl]) (simp add: outcome_of_def pinned_run)
  moreover have "written_by (store_agent ''n2'') realized_web ?e" using other_trace by (auto simp: written_by_def)
  ultimately have "agent_reaches store_libs agent update_predicates web (written_by (store_agent ''n2'')) True
      (settled_loop\<lparr> lo_versions := ?vs \<rparr>)"
    using agent_moved [OF _ env_changed [of settled_loop "written_by (store_agent ''n2'')" ?e]] by (simp add: settled_loop_def)
  from seen_next [OF reaches_closed this update_predicate_laws]
  have "agent_reaches store_libs agent update_predicates web (written_by (store_agent ''n2'')) True
      (settled_loop\<lparr> lo_versions := ?vs, lo_seen := 4 \<rparr>)" (is "agent_reaches _ _ _ _ _ _ ?s")
    by (simp add: settled_loop_def numeral_nat)
  moreover have "at_rest ?s" "lo_cache ?s = Some ?e"
    by (simp_all add: at_rest_def settled_loop_def lo_cache_def numeral_nat)
  moreover have "\<not> alreadyRealized agent ?e"
    by (simp add: go_defs web_defs marked_by_other_def realized_by_other_def)
  ultimately show ?thesis by blast
qed

text \<open>
  A stamp that is taken back while the agent builds under it. The pass that the second change wakes
  starts before the cache has seen what the first pass wrote, finds the env settled and stops; the
  token of the withdrawn stamp then stands in the status, and no event brings the agent back.
\<close>

definition unstamped :: "floxenv \<Rightarrow> floxenv" where
  "unstamped e = e\<lparr> fe_meta := (fe_meta e)\<lparr> om_annotations := [] \<rparr> \<rparr>"

definition overtaken_agent :: "store env_reconciler" where
  "overtaken_agent = agent\<lparr> er_provisioner := (\<lambda>t q w. (Inr store_result, edit_env web unstamped w)) \<rparr>"

definition annotated :: "floxenv \<Rightarrow> floxenv \<Rightarrow> bool" where
  "annotated e e' \<longleftrightarrow> (\<exists>annotations. e' = e\<lparr> fe_meta := (fe_meta e)\<lparr> om_annotations := annotations \<rparr> \<rparr>)"

lemma annotated_leaves_alone: "annotated e e' \<Longrightarrow> leaves_alone R e e'"
  by (auto simp: annotated_def leaves_alone_def)

definition stamped_web :: floxenv where
  "stamped_web = with_relock ''r2'' realized_web"

definition marked_again :: floxenv where
  "marked_again = with_ready store_libs stamped_web ConditionFalse ''Realizing'' ''realising the env closure on n1''"

definition realized_again :: floxenv where
  "realized_again = record_realized store_libs agent ''r2'' store_result marked_again"

lemmas again_defs = stamped_web_def marked_again_def realized_again_def

lemma overtaken_first:
  "trace_of (FloxEnv_Reconcile store_libs overtaken_agent web) (store_of [pinned_env ''web'']) =
     trace_of (FloxEnv_Reconcile store_libs agent web) (store_of [pinned_env ''web''])"
  "outcome_of (FloxEnv_Reconcile store_libs overtaken_agent web) (store_of [pinned_env ''web'']) = (done_result, None)"
  unfolding pinned_trace
  by (simp_all add: go_defs web_defs overtaken_agent_def unstamped_def realize_timeout_def defaultRealizeTimeout_def)

lemma overtaken_run:
  "run_state (FloxEnv_Reconcile store_libs overtaken_agent web) (start (store_of [stamped_web])) =
     ((done_result, None),
      \<lparr> world = store_of [unstamped realized_again],
        trace = [GetFloxEnv web (Inr stamped_web), AcquireSlot None,
          PatchFloxEnvStatus stamped_web marked_again (Inr marked_again),
          Realize (30 * minute) (web_request\<lparr> rr_lock := [] \<rparr>) (Inr store_result),
          PatchFloxEnvStatus marked_again realized_again (Inr (unstamped realized_again)), ReleaseSlot] \<rparr>)"
  by (simp add: go_defs web_defs again_defs overtaken_agent_def unstamped_def with_relock_def
      realize_timeout_def defaultRealizeTimeout_def relockAnnotation_def)

lemma overtaken_second:
  "trace_of (FloxEnv_Reconcile store_libs overtaken_agent web) (store_of [stamped_web]) =
     [GetFloxEnv web (Inr stamped_web), AcquireSlot None, PatchFloxEnvStatus stamped_web marked_again (Inr marked_again),
      Realize (30 * minute) (web_request\<lparr> rr_lock := [] \<rparr>) (Inr store_result),
      PatchFloxEnvStatus marked_again realized_again (Inr (unstamped realized_again)), ReleaseSlot]"
  "outcome_of (FloxEnv_Reconcile store_libs overtaken_agent web) (store_of [stamped_web]) = (done_result, None)"
  by (simp_all add: trace_of_def outcome_of_def overtaken_run)

lemma overtaken_third:
  "trace_of (FloxEnv_Reconcile store_libs overtaken_agent web) (store_of [unstamped marked_again]) =
     [GetFloxEnv web (Inr (unstamped marked_again))]"
  "outcome_of (FloxEnv_Reconcile store_libs overtaken_agent web) (store_of [unstamped marked_again]) = (done_result, None)"
  by (simp_all add: go_defs web_defs again_defs overtaken_agent_def unstamped_def with_relock_def relockAnnotation_def)

lemma again_merges:
  "merge_env stamped_web marked_again stamped_web = marked_again"
  "merge_env marked_again realized_again (unstamped marked_again) = unstamped realized_again"
  by (simp_all add: go_defs web_defs again_defs unstamped_def with_relock_def)

lemma again_asks:
  "annotated realized_web stamped_web" "\<not> same_ask realized_web stamped_web" "same_ask stamped_web marked_again"
  "annotated marked_again (unstamped marked_again)" "\<not> same_ask marked_again (unstamped marked_again)"
  "same_ask (unstamped marked_again) (unstamped realized_again)"
  by (auto simp: annotated_def same_ask_def go_defs web_defs again_defs unstamped_def with_relock_def relockAnnotation_def
      dest!: fun_cong [where x = "''flox.seedmatic.io/relock''"])

definition life :: "floxenv list" where
  "life = [pinned_env ''web'', marked_web, realized_web, stamped_web, marked_again, unstamped marked_again,
     unstamped realized_again]"

abbreviation at_stage :: "nat \<Rightarrow> nat \<Rightarrow> nat \<Rightarrow> bool \<Rightarrow> event list option \<Rightarrow> agent_loop" where
  "at_stage n seen written q b \<equiv> \<lparr> lo_versions = take n life, lo_seen = seen, lo_written = written, lo_queued = q, lo_busy = b \<rparr>"

abbreviation overtaken_reaches :: "agent_loop \<Rightarrow> bool" where
  "overtaken_reaches \<equiv> agent_reaches store_libs overtaken_agent update_predicates web annotated False"

lemma overtaken_sees:
  assumes "overtaken_reaches (at_stage n i m q b)" "i < n" "n \<le> 7" "i \<noteq> 0"
  shows "overtaken_reaches (at_stage n (Suc i) m (q \<or> \<not> same_ask (life ! (i - 1)) (life ! i)) b)"
  using seen_next [OF reaches_closed assms(1) update_predicate_laws] assms(2-4) by (simp add: life_def)

definition half_pass :: "event list" where
  "half_pass = [GetFloxEnv web (Inr stamped_web), AcquireSlot None, PatchFloxEnvStatus stamped_web marked_again (Inr marked_again),
     Realize (30 * minute) (web_request\<lparr> rr_lock := [] \<rparr>) (Inr store_result)]"

lemma overtaken_half: "overtaken_reaches (at_stage 6 6 5 True (Some half_pass))"
proof -
  have "overtaken_reaches (at_stage 3 3 3 False None)"
    using settled_loop_reached [OF reaches_closed agent_started update_predicate_laws overtaken_first] by (simp add: settled_loop_def life_def numeral_nat)
  from agent_moved [OF this env_changed [of _ annotated stamped_web]]
  have "overtaken_reaches (at_stage 4 3 3 False None)" using again_asks by (simp add: life_def numeral_nat)
  from overtaken_sees [OF this]
  have "overtaken_reaches (at_stage 4 4 3 True None)" using again_asks by (simp add: life_def numeral_nat)
  from pass_begins [OF reaches_closed this, of "store_of [stamped_web]" half_pass
      "[PatchFloxEnvStatus marked_again realized_again (Inr (unstamped realized_again)), ReleaseSlot]"]
  have "overtaken_reaches (at_stage 5 4 5 False (Some half_pass))"
    by (simp add: overtaken_second half_pass_def do_event_def lo_cache_def again_merges life_def numeral_nat)
  from agent_moved [OF this env_changed [of _ annotated "unstamped marked_again"]]
  have "overtaken_reaches (at_stage 6 4 5 False (Some half_pass))" using again_asks by (simp add: life_def numeral_nat)
  from overtaken_sees [OF this]
  have "overtaken_reaches (at_stage 6 5 5 False (Some half_pass))" using again_asks by (simp add: life_def numeral_nat)
  from overtaken_sees [OF this] show ?thesis using again_asks by (simp add: life_def numeral_nat)
qed

theorem stale_read_is_final:
  "\<exists>s e. agent_reaches store_libs overtaken_agent update_predicates web annotated False s \<and> at_rest s \<and>
     lo_cache s = Some e \<and> \<not> alreadyRealized overtaken_agent e"
proof -
  from pass_ends [OF reaches_closed overtaken_half, of half_pass "store_of [stamped_web]"
      "[PatchFloxEnvStatus marked_again realized_again (Inr (unstamped realized_again)), ReleaseSlot]"]
  have "overtaken_reaches (at_stage 7 6 7 True None)"
    by (simp add: overtaken_second half_pass_def do_event_def again_merges life_def numeral_nat)
  from pass_begins [OF reaches_closed this, of "store_of [unstamped marked_again]" "[GetFloxEnv web (Inr (unstamped marked_again))]" "[]"]
  have "overtaken_reaches (at_stage 7 6 7 False (Some [GetFloxEnv web (Inr (unstamped marked_again))]))"
    by (simp add: overtaken_third do_event_def lo_cache_def life_def numeral_nat)
  from pass_ends [OF reaches_closed this, of "[GetFloxEnv web (Inr (unstamped marked_again))]" "store_of [unstamped marked_again]" "[]"]
  have "overtaken_reaches (at_stage 7 6 7 False None)" by (simp add: overtaken_third)
  from overtaken_sees [OF this]
  have "overtaken_reaches (at_stage 7 7 7 False None)" using again_asks by (simp add: life_def numeral_nat)
  moreover have "at_rest (at_stage 7 7 7 False None)" "lo_cache (at_stage 7 7 7 False None) = Some (unstamped realized_again)"
    by (simp_all add: at_rest_def lo_cache_def life_def)
  moreover have "\<not> alreadyRealized overtaken_agent (unstamped realized_again)"
    by (simp add: go_defs web_defs again_defs unstamped_def with_relock_def relockAnnotation_def)
  ultimately show ?thesis by blast
qed

end
