(* ===== verification/GateLoop.thy ===== *)
theory GateLoop
  imports PodGateProperties Watches
begin

text \<open>
  The gate reconciler in its event loop (\<open>SetupWithManager\<close> of \<open>podgate_controller.go\<close>). The API
  server's changes reach the process as two streams, of pods and of FloxEnvs, each at its own pace;
  each updates a cache the reconciler reads, and then wakes keys: the pod watch its own key, when
  \<open>gatedOnly\<close> passes, the FloxEnv watch the keys \<open>gatedPodsForEnv\<close> answers, which lists the cached pods
  some time after the change. The work queue holds a key once, gives it to one worker at a time, and
  gets it back when the pass fails. A pass reads at several moments, between which anything may
  happen. The theorem says that nothing is missed: when there is nothing left to do, no gated pod
  could be released.
\<close>

subsection \<open>The loop\<close>

record gate_loop =
  gg_pods :: "objkey \<Rightarrow> pod option"
  gg_envs :: "objkey \<Rightarrow> floxenv option"
  gg_pod_events :: "(objkey \<times> pod option) list"
  gg_env_events :: "(objkey \<times> floxenv option) list"
  gg_changed :: "floxenv list"
  gg_queue :: "objkey set"
  gg_busy :: "objkey \<Rightarrow> event list option"

definition gate_idle :: gate_loop where
  "gate_idle = \<lparr> gg_pods = (\<lambda>_. None), gg_envs = (\<lambda>_. None), gg_pod_events = [], gg_env_events = [],
     gg_changed = [], gg_queue = {}, gg_busy = (\<lambda>_. None) \<rparr>"

text \<open>Whether the pod watch passes a change, and the objects of a change the FloxEnv watch maps.\<close>

definition pod_event_passes :: "pod option \<Rightarrow> pod option \<Rightarrow> bool" where
  "pod_event_passes old new = (case change_of old new of None \<Rightarrow> False | Some ch \<Rightarrow> gate_agent_wakes ch \<noteq> [])"

definition event_objects :: "floxenv option \<Rightarrow> floxenv option \<Rightarrow> floxenv list" where
  "event_objects old new = (case change_of old new of None \<Rightarrow> [] | Some ch \<Rightarrow> objects_of ch)"

lemma pod_event_passes_eq: "pod_event_passes old new = gatedOnly (case new of None \<Rightarrow> old | Some p \<Rightarrow> Some p)"
  by (cases old; cases new) (simp_all add: pod_event_passes_def gate_agent_wakes_def gatedOnly_def)

lemma event_objects_eq:
  "event_objects old new = (case old of None \<Rightarrow> [] | Some e \<Rightarrow> [e]) @ (case new of None \<Rightarrow> [] | Some e \<Rightarrow> [e])"
  by (cases old; cases new) (simp_all add: event_objects_def)

text \<open>What a read of the cache may answer; a read may also fail.\<close>

fun cache_answers :: "gate_loop \<Rightarrow> event \<Rightarrow> bool" where
  "cache_answers s (GetPod k (Inr p)) \<longleftrightarrow> gg_pods s k = Some p"
| "cache_answers s (GetPod k (Inl e)) \<longleftrightarrow> (IgnoreNotFound e = None \<longrightarrow> gg_pods s k = None)"
| "cache_answers s (ListFloxEnvs None (Inr es)) \<longleftrightarrow> set es = ran (gg_envs s)"
| "cache_answers s (ListFloxEnvs None (Inl e)) \<longleftrightarrow> True"
| "cache_answers s _ \<longleftrightarrow> False"

fun update_sent :: "event \<Rightarrow> bool" where
  "update_sent (UpdatePod q r) = True"
| "update_sent _ = False"

fun accepted_updates :: "event list \<Rightarrow> (objkey \<times> pod option) list" where
  "accepted_updates [] = []"
| "accepted_updates (UpdatePod q None # evs) = (pod_key q, Some q) # accepted_updates evs"
| "accepted_updates (_ # evs) = accepted_updates evs"

text \<open>
  One step; \<open>lossy\<close> lets the listing of the map function fail. A pass is a run of \<open>PodGate_Reconcile\<close>
  whose reads were answered by the cache, each when it was made, and whose update, if it is accepted,
  is a change like any other.
\<close>

inductive gate_step :: "'w client \<Rightarrow> bool \<Rightarrow> gate_loop \<Rightarrow> gate_loop \<Rightarrow> bool" for C lossy where
  pod_written: "(\<And>p. v = Some p \<Longrightarrow> pod_key p = k) \<Longrightarrow>
    gate_step C lossy s (s\<lparr> gg_pod_events := gg_pod_events s @ [(k, v)] \<rparr>)"
| env_written: "gate_step C lossy s (s\<lparr> gg_env_events := gg_env_events s @ [(k, v)] \<rparr>)"
| pod_seen: "gg_pod_events s = (k, v) # rest \<Longrightarrow>
    gate_step C lossy s (s\<lparr> gg_pods := (gg_pods s)(k := v), gg_pod_events := rest,
      gg_queue := (if pod_event_passes (gg_pods s k) v then insert k (gg_queue s) else gg_queue s) \<rparr>)"
| env_seen: "gg_env_events s = (k, v) # rest \<Longrightarrow>
    gate_step C lossy s (s\<lparr> gg_envs := (gg_envs s)(k := v), gg_env_events := rest,
      gg_changed := gg_changed s @ event_objects (gg_envs s k) v \<rparr>)"
| env_mapped: "gg_changed s = e # rest \<Longrightarrow> trace_of (gatedPodsForEnv C e) w = [ListPods (Inr ps)] \<Longrightarrow>
    set ps = ran (gg_pods s) \<Longrightarrow>
    gate_step C lossy s (s\<lparr> gg_changed := rest, gg_queue := gg_queue s \<union> set (outcome_of (gatedPodsForEnv C e) w) \<rparr>)"
| env_dropped: "lossy \<Longrightarrow> gg_changed s = e # rest \<Longrightarrow> trace_of (gatedPodsForEnv C e) w = [ListPods (Inl err)] \<Longrightarrow>
    gate_step C lossy s (s\<lparr> gg_changed := rest, gg_queue := gg_queue s \<union> set (outcome_of (gatedPodsForEnv C e) w) \<rparr>)"
| key_taken: "k \<in> gg_queue s \<Longrightarrow> gg_busy s k = None \<Longrightarrow>
    gate_step C lossy s (s\<lparr> gg_queue := gg_queue s - {k}, gg_busy := (gg_busy s)(k \<mapsto> []) \<rparr>)"
| cache_read: "gg_busy s k = Some evs \<Longrightarrow> cache_answers s ev \<Longrightarrow>
    gate_step C lossy s (s\<lparr> gg_busy := (gg_busy s)(k \<mapsto> evs @ [ev]) \<rparr>)"
| pass_ended: "gg_busy s k = Some evs \<Longrightarrow> trace_of (PodGate_Reconcile C k) w = evs @ sent \<Longrightarrow> list_all update_sent sent \<Longrightarrow>
    gate_step C lossy s (s\<lparr> gg_busy := (gg_busy s)(k := None), gg_pod_events := gg_pod_events s @ accepted_updates sent,
      gg_queue := (if snd (outcome_of (PodGate_Reconcile C k) w) = None then gg_queue s else insert k (gg_queue s)) \<rparr>)"

inductive gate_reaches :: "'w client \<Rightarrow> bool \<Rightarrow> gate_loop \<Rightarrow> bool" for C lossy where
  gate_started: "gate_reaches C lossy gate_idle"
| gate_moved: "gate_reaches C lossy s \<Longrightarrow> gate_step C lossy s s' \<Longrightarrow> gate_reaches C lossy s'"

definition nothing_left :: "gate_loop \<Rightarrow> bool" where
  "nothing_left s \<longleftrightarrow> gg_pod_events s = [] \<and> gg_env_events s = [] \<and> gg_changed s = [] \<and> gg_queue s = {} \<and>
     (\<forall>k. gg_busy s k = None)"

subsection \<open>When a pass waits\<close>

text \<open>
  A ref is surely served on a node when envs match it and each of them is realised there (two envs of
  different namespaces may have the same folder and name; the code takes the first it finds).
\<close>

definition surely_served :: "floxenv set \<Rightarrow> string \<Rightarrow> env_ref \<Rightarrow> bool" where
  "surely_served E n ref \<longleftrightarrow> (\<exists>e \<in> E. matches_ref ref e) \<and> (\<forall>e \<in> E. matches_ref ref e \<longrightarrow> realised_on n e)"

definition pod_refs :: "pod \<Rightarrow> env_ref set" where
  "pod_refs p = set (RefsFromAnnotations (pd_annotations p))"

definition could_release :: "floxenv set \<Rightarrow> pod \<Rightarrow> bool" where
  "could_release E p \<longleftrightarrow> hasGate p \<and> (\<exists>n. \<forall>ref \<in> pod_refs p. surely_served E n ref)"

definition all_served :: "string \<Rightarrow> env_ref set \<Rightarrow> event list \<Rightarrow> bool" where
  "all_served n refs evs \<longleftrightarrow>
     (\<forall>es. ListFloxEnvs None (Inr es) \<in> set evs \<longrightarrow> (\<forall>ref \<in> refs. surely_served (set es) n ref))"

lemma surely_found:
  assumes "surely_served (set es) n ref"
  obtains env where "List.find (matches_ref ref) es = Some env" "realised_on n env"
proof -
  from assms obtain env where "List.find (matches_ref ref) es = Some env"
    unfolding surely_served_def by (cases "List.find (matches_ref ref) es") (auto simp: find_None_iff)
  moreover from this have "env \<in> set es" "matches_ref ref env"
    by (auto simp: find_Some_iff)
  ultimately show thesis using assms that by (auto simp: surely_served_def)
qed

lemma all_served_Cons [simp]:
  "all_served n refs (ListFloxEnvs None (Inr es) # evs) \<longleftrightarrow> (\<forall>ref \<in> refs. surely_served (set es) n ref) \<and> all_served n refs evs"
  by (auto simp: all_served_def)

definition found_all :: "string list option \<Rightarrow> env_ref list \<Rightarrow> go_error + string list option \<Rightarrow> event list \<Rightarrow> bool" where
  "found_all acc refs x evs \<longleftrightarrow> (\<forall>n. all_served n (set refs) evs \<longrightarrow>
     (case acc of None \<Rightarrow> True | Some ns \<Rightarrow> n \<in> set ns) \<longrightarrow> x \<noteq> Inr None)"

lemma found_all_Cons:
  assumes "found_all (Some eligible) refs x evs" "List.find (matches_ref ref) es = Some env"
    and "eligible = (case acc of None \<Rightarrow> readyNodesForEnv env | Some ns \<Rightarrow> intersect ns (readyNodesForEnv env))"
  shows "found_all acc (ref # refs) x (ListFloxEnvs None (Inr es) # evs)"
  unfolding found_all_def
proof (intro allI impI)
  fix n
  assume all: "all_served n (set (ref # refs)) (ListFloxEnvs None (Inr es) # evs)"
    and acc: "case acc of None \<Rightarrow> True | Some ns \<Rightarrow> n \<in> set ns"
  then have served: "surely_served (set es) n ref" "all_served n (set refs) evs" by (auto simp: all_served_def)
  obtain env' where "List.find (matches_ref ref) es = Some env'" "realised_on n env'"
    by (rule surely_found [OF served(1)])
  with assms(2) have "n \<in> set (readyNodesForEnv env)" by (simp add: set_readyNodesForEnv)
  with acc have "n \<in> set eligible" unfolding assms(3) by (cases acc) simp_all
  moreover note served(2)
  ultimately show "x \<noteq> Inr None" using assms(1) by (simp add: found_all_def)
qed

lemma found_all_stop:
  "found_all acc (ref # refs) (Inl e) evs"
  "List.find (matches_ref ref) es = None \<Longrightarrow> found_all acc (ref # refs) x [ListFloxEnvs None (Inr es)]"
proof -
  show "found_all acc (ref # refs) (Inl e) evs" by (simp add: found_all_def)
  assume "List.find (matches_ref ref) es = None"
  then have "\<not> surely_served (set es) n ref" for n by (auto simp: surely_served_def find_None_iff)
  then show "found_all acc (ref # refs) x [ListFloxEnvs None (Inr es)]" by (auto simp: found_all_def all_served_def)
qed

lemma found_all_empty:
  assumes "(case acc of None \<Rightarrow> readyNodesForEnv env | Some ns \<Rightarrow> intersect ns (readyNodesForEnv env)) = []"
    and "List.find (matches_ref ref) es = Some env"
  shows "found_all acc (ref # refs) x [ListFloxEnvs None (Inr es)]"
proof -
  have "found_all (Some []) refs x []" by (simp add: found_all_def)
  from found_all_Cons [OF this assms(2) assms(1) [symmetric]] show ?thesis .
qed

lemma eligible_nodes_found: "emits (eligible_nodes C acc refs) (found_all acc refs)"
proof (induction refs arbitrary: acc)
  case Nil
  show ?case unfolding eligible_nodes.simps by (intro emits_intros) (simp add: found_all_def)
next
  case (Cons ref refs)
  show ?case
    unfolding eligible_nodes.simps resolveFloxEnv_def list_envs_def Let_def
    by (intro emits_intros emits_mono [OF Cons.IH])
      (auto split: sum.splits intro: found_all_stop found_all_empty found_all_Cons [OF _ _ refl])
qed

text \<open>A pass that ends without an error and without a write found no gated pod, or no node that serves every ref.\<close>

definition waited_rightly :: "objkey \<Rightarrow> outcome \<Rightarrow> event list \<Rightarrow> bool" where
  "waited_rightly k out evs \<longleftrightarrow> list_ex update_sent evs \<or> snd out \<noteq> None \<or>
     (\<exists>e. GetPod k (Inl e) \<in> set evs \<and> IgnoreNotFound e = None) \<or>
     (\<exists>p. GetPod k (Inr p) \<in> set evs \<and> (hasGate p \<longrightarrow> (\<forall>n. \<not> all_served n (pod_refs p) evs)))"

lemma all_served_read [simp]: "all_served n refs (GetPod k r # evs) \<longleftrightarrow> all_served n refs evs"
  by (auto simp: all_served_def)

lemma release_sends: "emits (release C pod nodes) (\<lambda>out evs. list_ex update_sent evs)"
  unfolding release_def update_pod_def by (intro emits_intros) simp

lemma reconcile_waits_rightly: "emits (PodGate_Reconcile C k) (waited_rightly k)"
proof -
  have sent: "waited_rightly k out (ev # evs)" if "list_ex update_sent evs" for out ev evs
    using that by (simp add: waited_rightly_def)
  have decide: "emits (State_Monad.bind (eligible_nodes C None (RefsFromAnnotations (pd_annotations pod)))
      (\<lambda>x. case x of Inl e \<Rightarrow> State_Monad.return (done_result, Some e)
        | Inr decision \<Rightarrow> (case decision of None \<Rightarrow> State_Monad.return (done_result, None)
          | Some eligible \<Rightarrow> release C pod eligible)))
      (\<lambda>out evs. waited_rightly k out (GetPod k (Inr pod) # evs))" for pod
    by (rule emits_bind [OF eligible_nodes_found], intro emits_intros emits_mono [OF release_sends])
      (auto simp: waited_rightly_def found_all_def pod_refs_def)
  have direct: "emits (release C pod []) (\<lambda>out evs. waited_rightly k out (GetPod k r # evs))" for pod r
    by (rule emits_mono [OF release_sends]) (rule sent)
  have missing: "waited_rightly k (done_result, IgnoreNotFound e) [GetPod k (Inl e)]" for e
    by (cases "IgnoreNotFound e") (simp_all add: waited_rightly_def)
  have ungated: "\<not> hasGate p \<Longrightarrow> waited_rightly k out [GetPod k (Inr p)]" for p out
    by (simp add: waited_rightly_def)
  show ?thesis
    unfolding PodGate_Reconcile_def get_pod_def Let_def
    by (intro emits_intros) (auto intro: decide direct missing ungated)
qed

subsection \<open>Nothing is missed\<close>

text \<open>A key is awaited when it is queued, or when something on its way will queue it or change its pod.\<close>

definition awaited :: "gate_loop \<Rightarrow> objkey \<Rightarrow> bool" where
  "awaited s k \<longleftrightarrow> k \<in> gg_queue s \<or> (\<exists>v. (k, v) \<in> set (gg_pod_events s)) \<or>
     (\<exists>p. gg_pods s k = Some p \<and> (\<exists>e \<in> set (gg_changed s). \<exists>ref \<in> pod_refs p. matches_ref ref e))"

text \<open>What a pass has read is what the cache holds still, as far as the pod is concerned.\<close>

definition up_to_date :: "gate_loop \<Rightarrow> objkey \<Rightarrow> event list \<Rightarrow> bool" where
  "up_to_date s k evs \<longleftrightarrow> (\<forall>p. gg_pods s k = Some p \<and> hasGate p \<longrightarrow>
     (\<forall>q. GetPod k (Inr q) \<in> set evs \<longrightarrow> q = p) \<and>
     (\<forall>e. GetPod k (Inl e) \<in> set evs \<longrightarrow> IgnoreNotFound e \<noteq> None) \<and>
     (\<forall>q r. UpdatePod q r \<notin> set evs) \<and>
     (\<forall>es. ListFloxEnvs None (Inr es) \<in> set evs \<longrightarrow>
        (\<forall>ref \<in> pod_refs p. {e \<in> set es. matches_ref ref e} = {e \<in> ran (gg_envs s). matches_ref ref e})))"

definition gate_inv :: "gate_loop \<Rightarrow> bool" where
  "gate_inv s \<longleftrightarrow> (\<forall>k p. gg_pods s k = Some p \<longrightarrow> pod_key p = k) \<and>
     (\<forall>k p. (k, Some p) \<in> set (gg_pod_events s) \<longrightarrow> pod_key p = k) \<and>
     (\<forall>k evs. gg_busy s k = Some evs \<longrightarrow> awaited s k \<or> up_to_date s k evs) \<and>
     (\<forall>k p. gg_pods s k = Some p \<longrightarrow> could_release (ran (gg_envs s)) p \<longrightarrow> gg_busy s k = None \<longrightarrow> awaited s k)"

lemma gate_invD:
  assumes "gate_inv s"
  shows "gg_pods s k = Some p \<Longrightarrow> pod_key p = k"
    "(k, Some p) \<in> set (gg_pod_events s) \<Longrightarrow> pod_key p = k"
    "gg_busy s k = Some evs \<Longrightarrow> awaited s k \<or> up_to_date s k evs"
    "gg_pods s k = Some p \<Longrightarrow> could_release (ran (gg_envs s)) p \<Longrightarrow> gg_busy s k = None \<Longrightarrow> awaited s k"
  using assms unfolding gate_inv_def by blast+

text \<open>
  A step keeps the invariant when it keeps the keys of the pods, and every key whose pod could be
  released or which is being worked on is awaited or up to date after it.
\<close>

lemma gate_invI:
  assumes "\<And>k p. gg_pods t k = Some p \<Longrightarrow> pod_key p = k" "\<And>k p. (k, Some p) \<in> set (gg_pod_events t) \<Longrightarrow> pod_key p = k"
    and "\<And>k evs. gg_busy t k = Some evs \<Longrightarrow> \<not> awaited t k \<Longrightarrow> up_to_date t k evs"
    and "\<And>k p. gg_pods t k = Some p \<Longrightarrow> could_release (ran (gg_envs t)) p \<Longrightarrow> gg_busy t k = None \<Longrightarrow> \<not> awaited t k \<Longrightarrow> False"
  shows "gate_inv t"
  using assms unfolding gate_inv_def by blast

lemma served_same:
  assumes "{e \<in> E. matches_ref ref e} = {e \<in> F. matches_ref ref e}"
  shows "surely_served E n ref = surely_served F n ref"
  using assms unfolding surely_served_def by blast

lemma waiting_pass:
  assumes w: "waited_rightly k out evs" "snd out = None" "\<not> list_ex update_sent evs"
    and u: "up_to_date s k evs" and p: "gg_pods s k = Some p" "could_release (ran (gg_envs s)) p"
  shows False
proof -
  have gate: "hasGate p" using p(2) by (simp add: could_release_def)
  obtain n where n: "\<forall>ref \<in> pod_refs p. surely_served (ran (gg_envs s)) n ref"
    using p(2) by (auto simp: could_release_def)
  note known = u [unfolded up_to_date_def, rule_format, OF conjI [OF p(1) gate]]
  from w known obtain q where q: "GetPod k (Inr q) \<in> set evs" "hasGate q \<longrightarrow> (\<forall>n. \<not> all_served n (pod_refs q) evs)"
    by (auto simp: waited_rightly_def)
  have "q = p" using known q(1) by blast
  moreover have "all_served n (pod_refs p) evs"
    unfolding all_served_def
  proof (intro allI impI ballI)
    fix es ref assume "ListFloxEnvs None (Inr es) \<in> set evs" "ref \<in> pod_refs p"
    with known have "{e \<in> set es. matches_ref ref e} = {e \<in> ran (gg_envs s). matches_ref ref e}" by blast
    from served_same [OF this] n \<open>ref \<in> pod_refs p\<close> show "surely_served (set es) n ref" by simp
  qed
  ultimately show False using q(2) gate by blast
qed

text \<open>Each step keeps the invariant.\<close>

lemma up_to_date_cong:
  "gg_pods t k = gg_pods s k \<Longrightarrow> gg_envs t = gg_envs s \<Longrightarrow> up_to_date t k evs = up_to_date s k evs"
  by (simp add: up_to_date_def)

lemma up_to_date_Nil: "up_to_date s k []"
  by (simp add: up_to_date_def)

lemma up_to_date_snoc: "up_to_date s k (evs @ [ev]) \<longleftrightarrow> up_to_date s k evs \<and> up_to_date s k [ev]"
  unfolding up_to_date_def by (simp add: ball_Un) blast

lemma fresh_read: "cache_answers s ev \<Longrightarrow> up_to_date s k [ev]"
  by (erule cache_answers.elims) (auto simp: up_to_date_def)

lemma gate_inv_step:
  assumes "gate_inv s" and same: "gg_pods t = gg_pods s" "gg_envs t = gg_envs s"
    and "\<And>k p. (k, Some p) \<in> set (gg_pod_events t) \<Longrightarrow> (k, Some p) \<in> set (gg_pod_events s) \<or> pod_key p = k"
    and aw: "\<And>k p. \<not> awaited t k \<Longrightarrow> gg_pods s k = Some p \<Longrightarrow> hasGate p \<Longrightarrow> \<not> awaited s k"
    and "\<And>k evs. gg_busy t k = Some evs \<Longrightarrow> \<not> awaited t k \<Longrightarrow> gg_busy s k = Some evs \<or> up_to_date s k evs"
    and "\<And>k p. gg_busy t k = None \<Longrightarrow> \<not> awaited t k \<Longrightarrow> gg_busy s k = None \<or>
      (gg_pods s k = Some p \<longrightarrow> \<not> could_release (ran (gg_envs s)) p)"
  shows "gate_inv t"
proof (rule gate_invI)
  note inv = gate_invD [OF assms(1)]
  fix k p
  show "gg_pods t k = Some p \<Longrightarrow> pod_key p = k" using inv(1) same by simp
  show "(k, Some p) \<in> set (gg_pod_events t) \<Longrightarrow> pod_key p = k" using inv(2) assms(4) by blast
  show False if "gg_pods t k = Some p" "could_release (ran (gg_envs t)) p" "gg_busy t k = None" "\<not> awaited t k"
    using that inv(4) [of k p] aw [of k p] assms(7) [of k p] same by (auto simp: could_release_def)
  fix evs
  assume b: "gg_busy t k = Some evs" "\<not> awaited t k"
  have "up_to_date s k evs"
  proof (cases "\<exists>p. gg_pods s k = Some p \<and> hasGate p")
    case True
    then show ?thesis using assms(6) [OF b] inv(3) [of k evs] aw [OF b(2)] by blast
  next
    case False
    then show ?thesis unfolding up_to_date_def by blast
  qed
  then show "up_to_date t k evs" by (simp add: up_to_date_cong [of t k s] same)
qed

lemma mapped_keys:
  assumes "trace_of (gatedPodsForEnv C e) w = [ListPods (Inr ps)]"
  shows "set (outcome_of (gatedPodsForEnv C e) w) = {pod_key p | p. p \<in> set ps \<and> hasGate p \<and> (\<exists>ref \<in> pod_refs p. matches_ref ref e)}"
proof -
  have "outcome_of (gatedPodsForEnv C e) w = map pod_key (filter (\<lambda>p. hasGate p \<and>
      list_ex (\<lambda>ref. matches_ref ref e) (RefsFromAnnotations (pd_annotations p))) ps)"
    using assms by (cases "cl_list_pods C w")
      (simp add: gatedPodsForEnv_def list_pods_def outcome_of_def trace_of_def start_def target_eq)
  then show ?thesis unfolding pod_refs_def list_ex_iff by auto
qed

lemma keeps_pod_seen:
  assumes "gate_inv s" "gg_pod_events s = (k, v) # rest"
  shows "gate_inv (s\<lparr> gg_pods := (gg_pods s)(k := v), gg_pod_events := rest,
    gg_queue := (if pod_event_passes (gg_pods s k) v then insert k (gg_queue s) else gg_queue s) \<rparr>)" (is "gate_inv ?t")
proof (rule gate_invI)
  note inv = gate_invD [OF assms(1)]
  have queued: "awaited ?t k" if "v = Some p" "hasGate p" for p
    using that by (simp add: pod_event_passes_eq gatedOnly_def awaited_def)
  have still: "\<not> awaited s k'" if "\<not> awaited ?t k'" "k' \<noteq> k" for k'
    using that assms(2) by (auto simp: awaited_def split: if_splits)
  fix k' p
  show "gg_pods ?t k' = Some p \<Longrightarrow> pod_key p = k'" using inv(1,2) assms(2) by (auto split: if_splits)
  show "(k', Some p) \<in> set (gg_pod_events ?t) \<Longrightarrow> pod_key p = k'" using inv(2) assms(2) by auto
  fix evs
  show "up_to_date ?t k' evs" if "gg_busy ?t k' = Some evs" "\<not> awaited ?t k'"
  proof (cases "k' = k")
    case True
    then show ?thesis using queued that(2) by (auto simp: up_to_date_def)
  next
    case False
    then have "up_to_date s k' evs" using inv(3) [of k' evs] still that by auto
    then show ?thesis using False up_to_date_cong [of ?t k' s] by simp
  qed
  show False if "gg_pods ?t k' = Some p" "could_release (ran (gg_envs ?t)) p" "gg_busy ?t k' = None" "\<not> awaited ?t k'"
  proof (cases "k' = k")
    case True
    then show ?thesis using queued that by (auto simp: could_release_def)
  next
    case False
    then show ?thesis using inv(4) [of k' p] still that by auto
  qed
qed

lemma keeps_env_seen:
  assumes "gate_inv s"
  shows "gate_inv (s\<lparr> gg_envs := (gg_envs s)(k := v), gg_env_events := rest,
    gg_changed := gg_changed s @ event_objects (gg_envs s k) v \<rparr>)" (is "gate_inv ?t")
proof (rule gate_invI)
  note inv = gate_invD [OF assms]
  have still: "\<not> awaited s k'" if "\<not> awaited ?t k'" for k'
    using that by (auto simp: awaited_def)
  have E: "{e \<in> ran (gg_envs ?t). matches_ref ref e} = {e \<in> ran (gg_envs s). matches_ref ref e}"
    if "\<not> awaited ?t k'" "gg_pods s k' = Some p" "ref \<in> pod_refs p" for k' p ref
  proof -
    have "\<not> matches_ref ref e" if "e \<in> set (event_objects (gg_envs s k) v)" for e
      using that \<open>\<not> awaited ?t k'\<close> \<open>gg_pods s k' = Some p\<close> \<open>ref \<in> pod_refs p\<close> by (auto simp: awaited_def)
    then have "\<not> matches_ref ref e" if "gg_envs s k = Some e \<or> v = Some e" for e
      using that by (auto simp: event_objects_eq)
    then show ?thesis by (auto simp: ran_def split: if_splits) metis
  qed
  fix k' p
  show "gg_pods ?t k' = Some p \<Longrightarrow> pod_key p = k'" using inv(1) by simp
  show "(k', Some p) \<in> set (gg_pod_events ?t) \<Longrightarrow> pod_key p = k'" using inv(2) by simp
  fix evs
  show "up_to_date ?t k' evs" if b: "gg_busy ?t k' = Some evs" "\<not> awaited ?t k'"
  proof -
    have "up_to_date s k' evs" using inv(3) [of k' evs] still [OF b(2)] b(1) by simp
    then show ?thesis using E [OF b(2)] unfolding up_to_date_def by (simp, blast)
  qed
  show False if f: "gg_pods ?t k' = Some p" "could_release (ran (gg_envs ?t)) p" "gg_busy ?t k' = None" "\<not> awaited ?t k'"
  proof -
    have p: "gg_pods s k' = Some p" using f(1) by simp
    have "surely_served (ran (gg_envs ?t)) n ref = surely_served (ran (gg_envs s)) n ref" if "ref \<in> pod_refs p" for n ref
      by (rule served_same [OF E [OF f(4) p that]])
    then have "could_release (ran (gg_envs s)) p" using f(2) by (simp add: could_release_def)
    then show False using inv(4) [OF p] still [OF f(4)] f(3) by simp
  qed
qed

lemma keeps_env_mapped:
  assumes "gate_inv s" "gg_changed s = e # rest" "trace_of (gatedPodsForEnv C e) w = [ListPods (Inr ps)]"
    and "set ps = ran (gg_pods s)"
  shows "gate_inv (s\<lparr> gg_changed := rest, gg_queue := gg_queue s \<union> set (outcome_of (gatedPodsForEnv C e) w) \<rparr>)" (is "gate_inv ?t")
proof (rule gate_inv_step [OF assms(1)])
  fix k p assume a: "\<not> awaited ?t k" "gg_pods s k = Some p" "hasGate p"
  have key: "pod_key p = k" by (rule gate_invD(1) [OF assms(1) a(2)])
  have "k \<notin> set (outcome_of (gatedPodsForEnv C e) w)" using a(1) by (simp add: awaited_def)
  moreover have "p \<in> set ps" using a(2) assms(4) by (auto simp: ran_def)
  ultimately have "\<forall>ref \<in> pod_refs p. \<not> matches_ref ref e" using key a(3) by (auto simp: mapped_keys [OF assms(3)])
  then show "\<not> awaited s k" using a by (auto simp: awaited_def assms(2))
qed simp_all

lemma keeps_read:
  assumes "gate_inv s" "gg_busy s k = Some evs" "cache_answers s ev"
  shows "gate_inv (s\<lparr> gg_busy := (gg_busy s)(k \<mapsto> evs @ [ev]) \<rparr>)" (is "gate_inv ?t")
proof (rule gate_inv_step [OF assms(1)])
  have aw: "awaited ?t k' = awaited s k'" for k' by (simp add: awaited_def)
  fix k' evs' assume b: "gg_busy ?t k' = Some evs'" "\<not> awaited ?t k'"
  show "gg_busy s k' = Some evs' \<or> up_to_date s k' evs'"
  proof (cases "k' = k")
    case True
    have "up_to_date s k evs" using gate_invD(3) [OF assms(1,2)] b(2) aw True by simp
    moreover have "evs' = evs @ [ev]" using b(1) True by simp
    ultimately show ?thesis using fresh_read [OF assms(3)] True by (simp add: up_to_date_snoc)
  qed (use b in simp)
qed (auto simp: awaited_def split: if_splits)

lemma accepted_key: "(k, Some p) \<in> set (accepted_updates sent) \<Longrightarrow> pod_key p = k"
  by (induction sent rule: accepted_updates.induct) auto

lemma accepted_mem: "UpdatePod q None \<in> set sent \<Longrightarrow> (pod_key q, Some q) \<in> set (accepted_updates sent)"
  by (induction sent rule: accepted_updates.induct) auto

lemma update_sent_iff: "update_sent ev \<longleftrightarrow> (\<exists>q r. ev = UpdatePod q r)"
  by (cases ev) auto

lemma released_key: "pod_key (released p ns) = pod_key p"
  by (simp add: released_def narrowToNodes_def pod_key_def Let_def)

lemma ended_pass:
  assumes run: "trace_of (PodGate_Reconcile C k) w = evs @ sent" "list_all update_sent sent"
    and ok: "snd (outcome_of (PodGate_Reconcile C k) w) = None" and u: "up_to_date s k evs"
    and p: "gg_pods s k = Some p" "pod_key p = k" "could_release (ran (gg_envs s)) p"
  shows "\<exists>v. (k, v) \<in> set (accepted_updates sent)"
proof -
  have gate: "hasGate p" using p(3) by (simp add: could_release_def)
  note known = u [unfolded up_to_date_def, rule_format, OF conjI [OF p(1) gate]]
  have "waited_rightly k (outcome_of (PodGate_Reconcile C k) w) (evs @ sent)"
    using emits_run [OF reconcile_waits_rightly, of k C w] by (simp add: run(1))
  show ?thesis
  proof (cases "list_ex update_sent (evs @ sent)")
    case False
    then have "sent = []" using run(2) by (cases sent) auto
    with False waiting_pass [OF _ ok _ u p(1,3)] \<open>waited_rightly k _ _\<close> show ?thesis by simp
  next
    case True
    then obtain q r where q: "UpdatePod q r \<in> set (evs @ sent)" by (auto simp: list_ex_iff update_sent_iff)
    then have "UpdatePod q r \<in> set sent" using known by auto
    have "UpdatePod q r \<in> set (trace_of (PodGate_Reconcile C k) w)" using q by (simp add: run(1))
    from gate_write [OF this] obtain pod pre ns where g: "evs @ sent = GetPod k (Inr pod) # pre @ [UpdatePod q r]"
        "outcome_of (PodGate_Reconcile C k) w = (done_result, r)" "q = released pod ns"
      unfolding run(1) by blast
    have "GetPod k (Inr pod) \<in> set (evs @ sent)" by (simp add: g(1))
    moreover have "GetPod k (Inr pod) \<notin> set sent" using run(2) by (auto simp: list_all_iff)
    ultimately have "pod = p" using known by simp
    then have "pod_key q = k" using p(2) by (simp add: g(3) released_key)
    moreover have "UpdatePod q None \<in> set sent" using \<open>UpdatePod q r \<in> set sent\<close> g(2) ok by simp
    ultimately show ?thesis using accepted_mem by blast
  qed
qed

lemma keeps_ended:
  assumes "gate_inv s" "gg_busy s k = Some evs" "trace_of (PodGate_Reconcile C k) w = evs @ sent" "list_all update_sent sent"
  shows "gate_inv (s\<lparr> gg_busy := (gg_busy s)(k := None), gg_pod_events := gg_pod_events s @ accepted_updates sent,
    gg_queue := (if snd (outcome_of (PodGate_Reconcile C k) w) = None then gg_queue s else insert k (gg_queue s)) \<rparr>)"
    (is "gate_inv ?t")
proof (rule gate_inv_step [OF assms(1)])
  have aw: "\<not> awaited s k'" if "\<not> awaited ?t k'" for k'
    using that by (auto simp: awaited_def split: if_splits)
  then show "\<not> awaited s k'" if "\<not> awaited ?t k'" for k' using that by blast
  fix k' p
  show "(k', Some p) \<in> set (gg_pod_events ?t) \<Longrightarrow> (k', Some p) \<in> set (gg_pod_events s) \<or> pod_key p = k'"
    using accepted_key by auto
  show "gg_busy s k' = None \<or> (gg_pods s k' = Some p \<longrightarrow> \<not> could_release (ran (gg_envs s)) p)"
    if "gg_busy ?t k' = None" "\<not> awaited ?t k'"
  proof (cases "k' = k")
    case True
    have ok: "snd (outcome_of (PodGate_Reconcile C k) w) = None"
      using that(2) True by (auto simp: awaited_def split: if_splits)
    have "up_to_date s k evs" using gate_invD(3) [OF assms(1,2)] aw that(2) True by blast
    from ended_pass [OF assms(3,4) ok this] gate_invD(1) [OF assms(1)] that(2) True show ?thesis
      by (auto simp: awaited_def)
  qed (use that in simp)
qed (auto split: if_splits)

lemma keeps_taken:
  assumes "gate_inv s"
  shows "gate_inv (s\<lparr> gg_queue := gg_queue s - {k}, gg_busy := (gg_busy s)(k \<mapsto> []) \<rparr>)" (is "gate_inv ?t")
proof (rule gate_invI)
  note inv = gate_invD [OF assms]
  have aw: "awaited ?t k' = awaited s k'" if "k' \<noteq> k" for k'
    using that by (simp add: awaited_def)
  have same: "up_to_date ?t k' evs = up_to_date s k' evs" for k' evs by (simp add: up_to_date_cong [of ?t k' s])
  fix k' p
  show "gg_pods ?t k' = Some p \<Longrightarrow> pod_key p = k'" using inv(1) by simp
  show "(k', Some p) \<in> set (gg_pod_events ?t) \<Longrightarrow> pod_key p = k'" using inv(2) by simp
  show "up_to_date ?t k' evs" if "gg_busy ?t k' = Some evs" "\<not> awaited ?t k'" for evs
    using that inv(3) [of k' evs] aw [of k'] by (cases "k' = k") (auto simp: same up_to_date_Nil)
  show False if "gg_pods ?t k' = Some p" "could_release (ran (gg_envs ?t)) p" "gg_busy ?t k' = None" "\<not> awaited ?t k'"
    using that inv(4) [of k' p] aw [of k'] by (cases "k' = k") auto
qed

lemma gate_step_inv:
  assumes "gate_step C False s t" "gate_inv s"
  shows "gate_inv t"
  using assms
proof (cases rule: gate_step.cases)
  case (pod_written v k)
  show ?thesis unfolding pod_written(1)
    by (rule gate_inv_step [OF assms(2)]) (use pod_written(2) in \<open>auto simp: awaited_def\<close>)
next
  case (env_written k v)
  show ?thesis unfolding env_written by (rule gate_inv_step [OF assms(2)]) (auto simp: awaited_def)
next
  case (env_mapped e rest w ps)
  show ?thesis unfolding env_mapped(1) by (rule keeps_env_mapped [OF assms(2) env_mapped(2-4)])
next
  case (pass_ended k evs w sent)
  show ?thesis unfolding pass_ended(1) by (rule keeps_ended [OF assms(2) pass_ended(2-4)])
next
  case (pod_seen k v rest)
  show ?thesis unfolding pod_seen(1) by (rule keeps_pod_seen [OF assms(2) pod_seen(2)])
next
  case (env_seen k v rest)
  show ?thesis unfolding env_seen(1) by (rule keeps_env_seen [OF assms(2)])
next
  case (key_taken k)
  show ?thesis unfolding key_taken(1) by (rule keeps_taken [OF assms(2)])
next
  case (cache_read k evs ev)
  show ?thesis unfolding cache_read(1) by (rule keeps_read [OF assms(2) cache_read(2,3)])
qed simp

lemma gate_reaches_inv: "gate_reaches C False s \<Longrightarrow> gate_inv s"
proof (induction rule: gate_reaches.induct)
  case gate_started
  show ?case by (simp add: gate_inv_def gate_idle_def)
next
  case (gate_moved s t)
  then show ?case using gate_step_inv by blast
qed

text \<open>When there is nothing left to do, no gated pod the process knows of could be released.\<close>

lemma rest_waits:
  assumes "gate_reaches C False s" "nothing_left s" "gg_pods s k = Some p"
  shows "\<not> could_release (ran (gg_envs s)) p"
proof -
  have "\<not> awaited s k" using assms(2) by (simp add: nothing_left_def awaited_def)
  then show ?thesis
    using gate_invD(4) [OF gate_reaches_inv [OF assms(1)] assms(3)] assms(2) by (auto simp: nothing_left_def)
qed

text \<open>
  C8: No pod is forgotten, as long as no listing of the map function \<open>gatedPodsForEnv\<close> fails (with one
  that fails a pod can be: \<open>failed_listing_forgets_pod\<close>). However changes reach the process, and
  whatever happens between the reads of a pass: when no event is left to deliver, no key is queued and no worker is busy, no gated pod
  the process knows of could be released, that is, there is no node on which all its envs are
  realised at their current generation.
\<close>

theorem no_pod_is_forgotten:
  assumes "gate_reaches C False s" "nothing_left s" "gg_pods s k = Some p" "hasGate p"
  shows "\<not> (\<exists>n. \<forall>ref \<in> set (RefsFromAnnotations (pd_annotations p)).
    (\<exists>e \<in> ran (gg_envs s). matches_ref ref e) \<and>
    (\<forall>e \<in> ran (gg_envs s). matches_ref ref e \<longrightarrow> n \<in> set (readyNodesForEnv e)))"
  using rest_waits [OF assms(1-3)] assms(4)
  unfolding could_release_def surely_served_def pod_refs_def set_readyNodesForEnv by blast

subsection \<open>Runs of the loop\<close>

text \<open>A client whose listing of pods fails when its store has none, and the passes of one pod.\<close>

definition flaky_client :: "store client" where
  "flaky_client = store_client\<lparr> cl_list_pods := \<lambda>w. (if so_pods w = [] then Inl (OtherErr ''timeout'') else Inr (so_pods w), w) \<rparr>"

definition waiting_store :: store where
  "waiting_store = \<lparr> so_envs = [], so_catalogs = [], so_workloads = [], so_pods = [gated_pod] \<rparr>"

lemma gated_pod_facts: "hasGate gated_pod" "pod_key gated_pod = pod_p"
  by (simp_all add: gated_pod_def hasGate_def SchedulingGateName_def pod_key_def plain_meta_def)

lemma waiting_run:
  "trace_of (PodGate_Reconcile flaky_client pod_p) waiting_store = [GetPod pod_p (Inr gated_pod), ListFloxEnvs None (Inr [])] \<and>
   outcome_of (PodGate_Reconcile flaky_client pod_p) waiting_store = (done_result, None)"
  using gated_pod_facts
  by (simp add: PodGate_Reconcile_def go_defs waiting_store_def flaky_client_def gated_refs resolveFloxEnv_def pod_key_def)

definition with_waiting_pod :: gate_loop where
  "with_waiting_pod = gate_idle\<lparr> gg_pods := (\<lambda>_. None)(pod_p := Some gated_pod) \<rparr>"

text \<open>
  Runs of the loop within larger ones: what holds of a set of states that is closed under the steps the
  loop takes by itself, without a new event of a FloxEnv.
\<close>

definition gate_closed :: "'w client \<Rightarrow> bool \<Rightarrow> (gate_loop \<Rightarrow> bool) \<Rightarrow> bool" where
  "gate_closed C lossy Q \<longleftrightarrow>
     (\<forall>s t. Q s \<longrightarrow> gate_step C lossy s t \<longrightarrow> length (gg_env_events t) \<le> length (gg_env_events s) \<longrightarrow> Q t)"

lemma gate_closedD:
  "gate_closed C lossy Q \<Longrightarrow> Q s \<Longrightarrow> gate_step C lossy s t \<Longrightarrow> length (gg_env_events t) \<le> length (gg_env_events s) \<Longrightarrow> Q t"
  unfolding gate_closed_def by blast

text \<open>A pod that arrives and waits.\<close>

lemma pod_comes_and_waits:
  assumes closed: "gate_closed C lossy Q"
    and start: "Q (gate_idle\<lparr> gg_envs := E \<rparr>)" and p: "hasGate p" "pod_key p = k" and es: "set es = ran E"
    and run: "trace_of (PodGate_Reconcile C k) w = [GetPod k (Inr p), ListFloxEnvs None (Inr es)]"
      "outcome_of (PodGate_Reconcile C k) w = (done_result, None)"
  shows "Q (gate_idle\<lparr> gg_envs := E, gg_pods := (\<lambda>_. None)(k := Some p) \<rparr>)"
proof -
  note step = gate_closedD [OF closed]
  let ?pods = "(\<lambda>_. None)(k := Some p)"
  from step [OF start pod_written [of "Some p" k]]
  have "Q (gate_idle\<lparr> gg_envs := E, gg_pod_events := [(k, Some p)] \<rparr>)" by (simp add: gate_idle_def p(2))
  from step [OF this pod_seen [of _ k "Some p" "[]"]]
  have "Q (gate_idle\<lparr> gg_envs := E, gg_pods := ?pods, gg_queue := {k} \<rparr>)"
    by (simp add: gate_idle_def pod_event_passes_eq gatedOnly_def p(1))
  from step [OF this key_taken [of k]]
  have "Q (gate_idle\<lparr> gg_envs := E, gg_pods := ?pods, gg_busy := (\<lambda>_. None)(k \<mapsto> []) \<rparr>)" by (simp add: gate_idle_def)
  from step [OF this cache_read [of _ k "[]" "GetPod k (Inr p)"]]
  have "Q (gate_idle\<lparr> gg_envs := E, gg_pods := ?pods, gg_busy := (\<lambda>_. None)(k \<mapsto> [GetPod k (Inr p)]) \<rparr>)"
    by (simp add: gate_idle_def)
  from step [OF this cache_read [of _ k _ "ListFloxEnvs None (Inr es)"]]
  have "Q (gate_idle\<lparr> gg_envs := E, gg_pods := ?pods,
      gg_busy := (\<lambda>_. None)(k \<mapsto> [GetPod k (Inr p), ListFloxEnvs None (Inr es)]) \<rparr>)"
    by (simp add: gate_idle_def es)
  from step [OF this pass_ended [of _ k _ C w "[]"]] run show ?thesis by (simp add: gate_idle_def)
qed

lemma waiting_pod_reached: "gate_reaches flaky_client lossy with_waiting_pod"
proof -
  have "gate_closed flaky_client lossy (gate_reaches flaky_client lossy)"
    unfolding gate_closed_def by (blast intro: gate_moved)
  from pod_comes_and_waits [OF this, of "\<lambda>_. None" gated_pod pod_p "[]" waiting_store]
  show ?thesis using gate_started [of flaky_client lossy] gated_pod_facts waiting_run by (simp add: with_waiting_pod_def gate_idle_def)
qed

theorem no_pod_is_forgotten_witness:
  "\<not> (\<exists>n. \<forall>ref \<in> set (RefsFromAnnotations (pd_annotations gated_pod)).
    (\<exists>e \<in> ran (gg_envs with_waiting_pod). matches_ref ref e) \<and>
    (\<forall>e \<in> ran (gg_envs with_waiting_pod). matches_ref ref e \<longrightarrow> n \<in> set (readyNodesForEnv e)))"
proof (rule no_pod_is_forgotten [OF waiting_pod_reached])
  show "nothing_left with_waiting_pod" by (simp add: nothing_left_def with_waiting_pod_def gate_idle_def)
  show "gg_pods with_waiting_pod pod_p = Some gated_pod" by (simp add: with_waiting_pod_def)
  show "hasGate gated_pod" by (rule gated_pod_facts)
qed

text \<open>
  The map function answers no key when its listing fails, and nobody asks again: the wake-up of a
  realised env is lost, and the pod that waits for it stays gated although a node holds the env.
\<close>

theorem failed_listing_forgets_pod:
  "\<exists>s. gate_reaches flaky_client True s \<and> nothing_left s \<and> gg_pods s pod_p = Some gated_pod \<and>
    could_release (ran (gg_envs s)) gated_pod"
proof -
  let ?envs = "(\<lambda>_. None)(web := Some held_env)"
  have "gate_reaches flaky_client True (with_waiting_pod\<lparr> gg_env_events := [(web, Some held_env)] \<rparr>)"
    using gate_moved [OF waiting_pod_reached env_written [of _ _ _ web "Some held_env"]]
    by (simp add: with_waiting_pod_def gate_idle_def)
  from gate_moved [OF this env_seen [of _ web "Some held_env" "[]"]]
  have "gate_reaches flaky_client True (with_waiting_pod\<lparr> gg_envs := ?envs, gg_changed := [held_env] \<rparr>)"
    by (simp add: with_waiting_pod_def gate_idle_def event_objects_eq)
  moreover have "trace_of (gatedPodsForEnv flaky_client held_env) catalog_store = [ListPods (Inl (OtherErr ''timeout''))]"
      "outcome_of (gatedPodsForEnv flaky_client held_env) catalog_store = []"
    by (simp_all add: gatedPodsForEnv_def flaky_client_def go_defs)
  ultimately have "gate_reaches flaky_client True (with_waiting_pod\<lparr> gg_envs := ?envs \<rparr>)" (is "gate_reaches _ _ ?s")
    using gate_moved [OF _ env_dropped [of True _ held_env "[]" flaky_client catalog_store]]
    by (fastforce simp: with_waiting_pod_def gate_idle_def)
  moreover have "nothing_left ?s" by (simp add: nothing_left_def with_waiting_pod_def gate_idle_def)
  moreover have "could_release (ran (gg_envs ?s)) gated_pod"
    using gated_pod_facts(1) gated_refs
    by (auto simp: could_release_def surely_served_def pod_refs_def held_env_def realised_on_def matches_ref_def
        effectiveFolder_def go_defs simp del: set_RefsFromAnnotations intro!: exI [of _ "''n1''"])
  moreover have "gg_pods ?s pod_p = Some gated_pod" by (simp add: with_waiting_pod_def)
  ultimately show ?thesis by blast
qed

end
