(* ===== verification/AgentWork.thy ===== *)
theory AgentWork
  imports AgentLoop
begin

text \<open>
  What stands behind the entry of a settled env. \<open>AgentLoop\<close> shows that at rest the status calls the env
  realised; here a run of the loop keeps the log of its passes, and the entry is traced back to the pass of
  the log that realised it: what it read, what it asked the node for and what the node answered.
\<close>

subsection \<open>Runs with their passes\<close>

definition log_after :: "agent_loop \<Rightarrow> agent_loop \<Rightarrow> event list list \<Rightarrow> event list list" where
  "log_after s t log = (case lo_busy s of None \<Rightarrow> log
     | Some evs \<Rightarrow> if lo_busy t = None then log @ [evs] else log)"

inductive agent_runs ::
  "libs \<Rightarrow> 'w env_reconciler \<Rightarrow> predicates \<Rightarrow> objkey \<Rightarrow> (floxenv \<Rightarrow> floxenv \<Rightarrow> bool) \<Rightarrow> bool \<Rightarrow> event list list \<Rightarrow>
     agent_loop \<Rightarrow> bool"
  for L R P k Q fresh where
  runs_started: "agent_runs L R P k Q fresh [] loop_start"
| runs_moved: "agent_runs L R P k Q fresh log s \<Longrightarrow> agent_step L R P k Q fresh s t \<Longrightarrow>
    agent_runs L R P k Q fresh (log_after s t log) t"

lemma runs_reaches: "agent_runs L R P k Q fresh log s \<Longrightarrow> agent_reaches L R P k Q fresh s"
  by (induction rule: agent_runs.induct) (auto intro: agent_started agent_moved)

lemma reaches_runs: "agent_reaches L R P k Q fresh s \<Longrightarrow> \<exists>log. agent_runs L R P k Q fresh log s"
  by (induction rule: agent_reaches.induct) (blast intro: runs_started runs_moved)+

lemma agent_step_mono:
  assumes "agent_step L R P k Q fresh s t" "\<And>e e'. Q e e' \<Longrightarrow> Q' e e'"
  shows "agent_step L R P k Q' fresh s t"
  using assms(1)
proof (cases rule: agent_step.cases)
  case (pass_moved evs w ev rest)
  show ?thesis unfolding pass_moved(1) by (rule agent_step.pass_moved [OF pass_moved(2-4)])
qed (auto intro: agent_step.intros assms(2))

lemma agent_reaches_mono:
  assumes "agent_reaches L R P k Q fresh s" "\<And>e e'. Q e e' \<Longrightarrow> Q' e e'"
  shows "agent_reaches L R P k Q' fresh s"
  using assms(1)
proof (induction rule: agent_reaches.induct)
  case agent_started
  show ?case by (rule agent_reaches.agent_started)
next
  case (agent_moved s t)
  show ?case by (rule agent_reaches.agent_moved [OF agent_moved.IH agent_step_mono [OF agent_moved.hyps(2) assms(2)]])
qed

subsection \<open>What others do\<close>

text \<open>The API server: the key of an object stands, and its generation moves up, with every change of the spec.\<close>

definition env_versioned :: "floxenv \<Rightarrow> floxenv \<Rightarrow> bool" where
  "env_versioned e e' \<longleftrightarrow> env_key e' = env_key e \<and> fe_generation e \<le> fe_generation e' \<and>
     (fe_generation e' = fe_generation e \<longrightarrow> fe_spec e' = fe_spec e)"

text \<open>
  Others leave the entry of this node alone, and an honoured token unless they ask for something new; with
  \<open>sole\<close>, nobody else writes the token at all.
\<close>

definition spares :: "'w env_reconciler \<Rightarrow> bool \<Rightarrow> floxenv \<Rightarrow> floxenv \<Rightarrow> bool" where
  "spares R sole e e' \<longleftrightarrow> leaves_alone R e e' \<and> env_versioned e e' \<and>
     filter (\<lambda>nr. nr_node nr = er_node_name R) (st_realized (fe_status e')) =
       filter (\<lambda>nr. nr_node nr = er_node_name R) (st_realized (fe_status e)) \<and>
     (sole \<longrightarrow> st_relock_token (fe_status e') = st_relock_token (fe_status e))"

definition kept :: "'w env_reconciler \<Rightarrow> bool \<Rightarrow> floxenv \<Rightarrow> floxenv \<Rightarrow> bool" where
  "kept R sole e e' \<longleftrightarrow> own_entries R e' = own_entries R e \<and>
     (sole \<longrightarrow> st_relock_token (fe_status e') = st_relock_token (fe_status e))"

lemma kept_refl [simp]: "kept R sole e e"
  by (simp add: kept_def)

lemma kept_trans [trans]: "kept R sole e e' \<Longrightarrow> kept R sole e' e'' \<Longrightarrow> kept R sole e e''"
  by (simp add: kept_def)

lemma spares_keeps: "spares R sole e e' \<Longrightarrow> kept R sole e e'"
  by (simp add: spares_def kept_def own_entries_def)

lemma not_ready_keeps: "not_ready_write L base new \<Longrightarrow> kept R sole e (merge_env base new e)"
  using not_ready_fields [of L base new] by (simp add: kept_def own_entries_def merge_field_def)

lemma versioned_refl [simp]: "env_versioned e e"
  by (simp add: env_versioned_def)

lemma versioned_trans [trans]: "env_versioned e e' \<Longrightarrow> env_versioned e' e'' \<Longrightarrow> env_versioned e e''"
  unfolding env_versioned_def by (metis order.antisym order.trans)

lemma merge_versioned [simp]: "env_versioned e (merge_env base new e)"
  by (simp add: env_versioned_def env_key_def merge_env_def)

subsection \<open>The pass behind an entry\<close>

text \<open>No write of a pass that was computed from the env it read has landed on another generation.\<close>

definition unraced :: "floxenv \<Rightarrow> event list \<Rightarrow> bool" where
  "unraced e evs \<longleftrightarrow> (\<forall>n st. PatchFloxEnvStatus e n (Inr st) \<in> set evs \<longrightarrow> fe_generation st = fe_generation e)"

definition evidence ::
  "libs \<Rightarrow> 'w env_reconciler \<Rightarrow> objkey \<Rightarrow> bool \<Rightarrow> floxenv list \<Rightarrow> floxenv \<Rightarrow> event list \<Rightarrow> bool" where
  "evidence L R k sole vs v evs \<longleftrightarrow> (\<exists>e pre t q res base post.
     evs = GetFloxEnv k (Inr e) # pre @ Realize t q (Inr res) # post \<and> asked_for L e pre q \<and> e \<in> set vs \<and>
     own_entries R v = [node_entry R base res] \<and> (sole \<longrightarrow> st_relock_token (fe_status v) = relock_of e) \<and>
     (unraced e evs \<longrightarrow> fe_generation base = fe_generation e))"

lemma evidence_later:
  assumes "evidence L R k sole vs v evs" "kept R sole v v'"
  shows "evidence L R k sole (vs @ vs') v' (evs @ evs')"
proof -
  obtain e pre t q res base post where
      "evs = GetFloxEnv k (Inr e) # pre @ Realize t q (Inr res) # post" "asked_for L e pre q" "e \<in> set vs"
      "own_entries R v = [node_entry R base res]" "sole \<longrightarrow> st_relock_token (fe_status v) = relock_of e"
      "unraced e evs \<longrightarrow> fe_generation base = fe_generation e"
    using assms(1) unfolding evidence_def by blast
  moreover have "unraced e (evs @ evs') \<Longrightarrow> unraced e evs" by (auto simp: unraced_def)
  ultimately show ?thesis
    using assms(2) unfolding evidence_def kept_def
    by (intro exI [of _ e] exI [of _ pre] exI [of _ t] exI [of _ q] exI [of _ res] exI [of _ base] exI [of _ "post @ evs'"]) auto
qed

text \<open>What a pass in the middle of its trace knows: it has written its success, or all it holds stands.\<close>

definition holds_on :: "libs \<Rightarrow> 'w env_reconciler \<Rightarrow> bool \<Rightarrow> floxenv list \<Rightarrow> floxenv \<Rightarrow> event list \<Rightarrow> bool" where
  "holds_on L R sole vs e evs \<longleftrightarrow> e \<in> set vs \<and> (\<not> recorded L evs \<longrightarrow> kept R sole e (last vs) \<and>
     (\<forall>b n st. PatchFloxEnvStatus b n (Inr st) \<in> set evs \<longrightarrow> kept R sole st (last vs)))"

definition pass_inv :: "libs \<Rightarrow> 'w env_reconciler \<Rightarrow> objkey \<Rightarrow> bool \<Rightarrow> agent_loop \<Rightarrow> event list \<Rightarrow> bool" where
  "pass_inv L R k sole s evs \<longleftrightarrow> (evs = [] \<longrightarrow> lo_written s \<le> lo_seen s) \<and>
     (\<forall>e rest. evs = GetFloxEnv k (Inr e) # rest \<longrightarrow> holds_on L R sole (lo_versions s) e evs)"

definition passes :: "event list list \<Rightarrow> agent_loop \<Rightarrow> event list set" where
  "passes log s = set log \<union> set_option (lo_busy s)"

definition traced :: "libs \<Rightarrow> 'w env_reconciler \<Rightarrow> objkey \<Rightarrow> bool \<Rightarrow> event list list \<Rightarrow> agent_loop \<Rightarrow> bool" where
  "traced L R k sole log s \<longleftrightarrow> lo_versions s \<noteq> [] \<longrightarrow> own_entries R (hd (lo_versions s)) = [] \<longrightarrow>
     own_entries R (last (lo_versions s)) = [] \<or>
     (\<exists>evs \<in> passes log s. evidence L R k sole (lo_versions s) (last (lo_versions s)) evs)"

definition work_inv :: "libs \<Rightarrow> 'w env_reconciler \<Rightarrow> objkey \<Rightarrow> bool \<Rightarrow> event list list \<Rightarrow> agent_loop \<Rightarrow> bool" where
  "work_inv L R k sole log s \<longleftrightarrow> lo_seen s \<le> length (lo_versions s) \<and>
     (\<forall>v \<in> set (lo_versions s). env_versioned v (last (lo_versions s))) \<and>
     (\<forall>i. 0 < i \<and> lo_written s \<le> i \<and> i < length (lo_versions s) \<longrightarrow> kept R sole (lo_versions s ! (i - 1)) (lo_versions s ! i)) \<and>
     (\<forall>evs. lo_busy s = Some evs \<longrightarrow> pass_inv L R k sole s evs) \<and> traced L R k sole log s"

lemma work_invD:
  assumes "work_inv L R k sole log s"
  shows "lo_seen s \<le> length (lo_versions s)" "\<And>v. v \<in> set (lo_versions s) \<Longrightarrow> env_versioned v (last (lo_versions s))"
    "\<And>i. 0 < i \<Longrightarrow> lo_written s \<le> i \<Longrightarrow> i < length (lo_versions s) \<Longrightarrow> kept R sole (lo_versions s ! (i - 1)) (lo_versions s ! i)"
    "\<And>evs. lo_busy s = Some evs \<Longrightarrow> pass_inv L R k sole s evs" "traced L R k sole log s"
  using assms by (auto simp: work_inv_def)

text \<open>With no write of its own on the way, the agent reads what stands, as far as its own fields go.\<close>

lemma read_kept:
  assumes "work_inv L R k sole log s" "lo_written s \<le> lo_seen s" "lo_cache s = Some e"
  shows "e \<in> set (lo_versions s) \<and> kept R sole e (last (lo_versions s))"
proof -
  let ?vs = "lo_versions s"
  note I = work_invD [OF assms(1)]
  have seen: "0 < lo_seen s" "e = ?vs ! (lo_seen s - 1)" using assms(3) by (auto simp: lo_cache_def split: if_splits)
  have "kept R sole e (?vs ! j)" if "lo_seen s - 1 \<le> j" "j < length ?vs" for j
    using that
  proof (induction j rule: dec_induct)
    case base
    show ?case by (simp add: seen)
  next
    case (step j)
    then have "kept R sole (?vs ! j) (?vs ! Suc j)" using I(3) [of "Suc j"] assms(2) by simp
    with step show ?case by (auto intro: kept_trans)
  qed
  moreover have "?vs \<noteq> []" using seen(1) I(1) by auto
  moreover have "lo_seen s - 1 \<le> length ?vs - 1" using I(1) by (rule diff_le_mono)
  moreover have "lo_seen s - 1 < length ?vs" using seen(1) I(1) by simp
  ultimately show ?thesis using seen(2) by (simp add: last_conv_nth)
qed

subsection \<open>Every step keeps it\<close>

text \<open>A version is added that keeps the agent's own fields: by another, or by a pass that writes no success.\<close>

lemma traced_kept:
  assumes "traced L R k sole log s" "lo_versions s \<noteq> []" "kept R sole (last (lo_versions s)) v"
    and "lo_versions t = lo_versions s @ [v]" "\<forall>evs \<in> passes log s. \<exists>evs'. evs @ evs' \<in> passes log' t"
  shows "traced L R k sole log' t"
  unfolding traced_def assms(4)
proof (intro impI)
  assume "own_entries R (hd (lo_versions s @ [v])) = []"
  then consider "own_entries R (last (lo_versions s)) = []"
    | evs where "evs \<in> passes log s" "evidence L R k sole (lo_versions s) (last (lo_versions s)) evs"
    using assms(1,2) by (auto simp: traced_def)
  then show "own_entries R (last (lo_versions s @ [v])) = [] \<or>
      (\<exists>evs \<in> passes log' t. evidence L R k sole (lo_versions s @ [v]) (last (lo_versions s @ [v])) evs)"
  proof cases
    case 1
    then show ?thesis using assms(3) by (simp add: kept_def)
  next
    case 2
    then obtain evs' where "evs @ evs' \<in> passes log' t" using assms(5) by blast
    with evidence_later [OF 2(2) assms(3)] show ?thesis by auto
  qed
qed

lemma versions_append:
  assumes "\<And>v. v \<in> set vs \<Longrightarrow> env_versioned v (last vs)" "vs \<noteq> []" "env_versioned (last vs) v"
  shows "\<forall>v' \<in> set (vs @ [v]). env_versioned v' (last (vs @ [v]))"
  using assms by (auto intro: versioned_trans)

lemma holds_quiet:
  assumes "holds_on L R sole vs e evs" "stored_by ev = []"
  shows "holds_on L R sole vs e (evs @ [ev])"
proof -
  have "PatchFloxEnvStatus x y (Inr st) \<in> set (evs @ [ev]) \<longleftrightarrow> PatchFloxEnvStatus x y (Inr st) \<in> set evs" for x y st
    using assms(2) by auto
  then show ?thesis using assms(1) unfolding holds_on_def recorded_def by simp
qed

lemma holds_later: "holds_on L R sole vs e evs \<Longrightarrow> kept R sole (last vs) v \<Longrightarrow> holds_on L R sole (vs @ [v]) e evs"
  by (auto simp: holds_on_def kept_def)

lemma work_changed:
  assumes inv: "work_inv L R k sole log s" and vs: "lo_versions s \<noteq> []" and Q: "spares R sole (last (lo_versions s)) v"
  shows "work_inv L R k sole log (s\<lparr> lo_versions := lo_versions s @ [v] \<rparr>)" (is "work_inv _ _ _ _ _ ?t")
proof -
  note I = work_invD [OF inv]
  have keep: "kept R sole (last (lo_versions s)) v" by (rule spares_keeps [OF Q])
  have "kept R sole (lo_versions ?t ! (i - 1)) (lo_versions ?t ! i)"
    if "0 < i" "lo_written s \<le> i" "i < length (lo_versions ?t)" for i
    using that I(3) [of i] keep vs by (auto simp: nth_append last_conv_nth less_Suc_eq)
  moreover have "pass_inv L R k sole ?t evs" if "lo_busy s = Some evs" for evs
    using I(4) [OF that] keep by (simp add: pass_inv_def holds_later)
  moreover have "traced L R k sole log ?t"
    by (rule traced_kept [OF I(5) vs keep]) (auto simp: passes_def intro: exI [of _ "[]"])
  moreover have "\<forall>v' \<in> set (lo_versions ?t). env_versioned v' (last (lo_versions ?t))"
    using versions_append [OF I(2) vs, of v] Q by (simp add: spares_def)
  ultimately show ?thesis using I(1) unfolding work_inv_def by simp
qed

lemma work_created:
  assumes "work_inv L R k sole log s" "lo_versions s = []"
  shows "work_inv L R k sole log (s\<lparr> lo_versions := [v] \<rparr>)"
  using assms by (auto simp: work_inv_def pass_inv_def traced_def holds_on_def)

lemma work_same:
  assumes "work_inv L R k sole log s" "lo_versions t = lo_versions s" "lo_written t = lo_written s"
    and "lo_seen t \<le> length (lo_versions s)" "\<And>evs. lo_busy t = Some evs \<Longrightarrow> pass_inv L R k sole t evs"
    and "passes log s \<subseteq> passes log' t"
  shows "work_inv L R k sole log' t"
proof -
  note I = work_invD [OF assms(1)]
  have "traced L R k sole log' t" using I(5) assms(6) unfolding traced_def assms(2) by blast
  then show ?thesis using I assms(2-5) by (auto simp: work_inv_def)
qed

text \<open>The success write.\<close>

lemma own_upsert:
  assumes "own_entries R e = [] \<or> (\<exists>x. own_entries R e = [x])" "nr_node nr = er_node_name R"
  shows "filter (\<lambda>nr. nr_node nr = er_node_name R) (upsert_list nr (st_realized (fe_status e))) = [nr]"
proof -
  have "filter (\<lambda>nr. nr_node nr = er_node_name R) (upsert_list nr xs) = [nr]"
    if "length (filter (\<lambda>nr. nr_node nr = er_node_name R) xs) \<le> 1" for xs
    using that assms(2)
  proof (induction xs)
    case (Cons x xs)
    then show ?case by (cases "nr_node x = er_node_name R") auto
  qed simp
  then show ?thesis using assms(1) by (auto simp: own_entries_def)
qed

lemma success_recorded:
  assumes "kept R sole b e" "own_entries R e = [] \<or> (\<exists>x. own_entries R e = [x])"
    and "n = record_realized L R relock res b"
  shows "own_entries R (merge_env b n e) = [node_entry R b res]"
    "sole \<Longrightarrow> st_relock_token (fe_status (merge_env b n e)) = relock"
proof -
  have "own_entries R b = [] \<or> (\<exists>x. own_entries R b = [x])" using assms(1,2) by (simp add: kept_def)
  from own_upsert [OF this, of "node_entry R b res"]
  have new: "own_entries R n = [node_entry R b res]" by (simp add: assms(3) own_entries_def record_realized_fields node_entry_def)
  show "own_entries R (merge_env b n e) = [node_entry R b res]"
  proof (cases "st_realized (fe_status n) = st_realized (fe_status b)")
    case True
    then have "own_entries R b = own_entries R n" by (simp add: own_entries_def)
    moreover have "own_entries R (merge_env b n e) = own_entries R e" using True by (simp add: own_entries_def merge_field_def)
    ultimately show ?thesis using new assms(1) by (simp add: kept_def)
  next
    case False
    then show ?thesis using new by (simp add: own_entries_def merge_field_def)
  qed
  show "st_relock_token (fe_status (merge_env b n e)) = relock" if sole
    using that assms(1) by (auto simp: assms(3) merge_field_def record_realized_fields kept_def)
qed

text \<open>The base of the success write is what the pass read or what the server answered its Realizing write.\<close>

lemma marked_kept:
  assumes "holds_on L R sole vs e evs" "\<not> recorded L evs"
    and "PatchFloxEnvStatus e (marked_env L R e (Inl (OtherErr []))) r0 \<in> set evs"
  shows "kept R sole (marked_env L R e r0) (last vs)"
    "unraced e evs \<Longrightarrow> fe_generation (marked_env L R e r0) = fe_generation e"
  using assms by (cases r0; force simp: holds_on_def marked_env_def kept_def own_entries_def unraced_def)+

lemma work_success:
  assumes inv: "work_inv L R k sole log s" and b: "lo_busy s = Some evs" and vs: "lo_versions s \<noteq> []"
    and run: "trace_of (FloxEnv_Reconcile L R k) w = evs @ PatchFloxEnvStatus c n (Inr st) # rest"
    and st: "st = merge_env c n (last (lo_versions s))" and n: "\<not> not_ready_write L c n"
    and born: "own_entries R (hd (lo_versions s)) = []"
  shows "evidence L R k sole (lo_versions s @ [st]) st (evs @ [PatchFloxEnvStatus c n (Inr st)])"
proof -
  let ?ev = "PatchFloxEnvStatus c n (Inr st)"
  note I = work_invD [OF inv]
  have "?ev \<in> set (trace_of (FloxEnv_Reconcile L R k) w)" by (simp add: run)
  from success_run [OF this n] obtain e pre t q res rolls r0 where p:
      "trace_of (FloxEnv_Reconcile L R k) w = GetFloxEnv k (Inr e) # (pre @ Realize t q (Inr res) # rolls) @ [?ev, ReleaseSlot]"
      "asked_for L e pre q" "PatchFloxEnvStatus e (marked_env L R e (Inl (OtherErr []))) r0 \<in> set pre"
      "c = marked_env L R e r0" "n = record_realized L R (relock_of e) res c"
      "\<And>b n a. PatchFloxEnvStatus b n a \<in> set (pre @ Realize t q (Inr res) # rolls) \<Longrightarrow> not_ready_write L b n"
    by metis
  let ?done = "GetFloxEnv k (Inr e) # pre @ Realize t q (Inr res) # rolls"
  have "?ev \<notin> set ?done" using p(6) [of c n "Inr st"] n by auto
  moreover have "?done @ ?ev # [ReleaseSlot] = evs @ ?ev # rest" using run p(1) by simp
  ultimately have evs: "evs = ?done" using append_Cons_eq_iff [of ?ev ?done "[ReleaseSlot]" evs rest] by simp
  have quiet: "\<not> recorded L evs" using p(6) by (auto simp: recorded_def evs)
  have holds: "holds_on L R sole (lo_versions s) e evs" using I(4) [OF b] by (simp add: pass_inv_def evs)
  have mark: "PatchFloxEnvStatus e (marked_env L R e (Inl (OtherErr []))) r0 \<in> set evs" using p(3) by (simp add: evs)
  have keep: "kept R sole c (last (lo_versions s))" unfolding p(4) by (rule marked_kept(1) [OF holds quiet mark])
  have "own_entries R (last (lo_versions s)) = [] \<or> (\<exists>x. own_entries R (last (lo_versions s)) = [x])"
    using I(5) vs born by (auto simp: traced_def evidence_def)
  note new = success_recorded [OF keep this p(5)]
  have "fe_generation c = fe_generation e" if "unraced e (evs @ [?ev])"
  proof -
    have "unraced e evs" using that by (auto simp: unraced_def)
    then show ?thesis unfolding p(4) by (rule marked_kept(2) [OF holds quiet mark])
  qed
  moreover have "e \<in> set (lo_versions s)" using holds by (simp add: holds_on_def)
  ultimately show ?thesis
    unfolding evidence_def evs st
    by (intro exI [of _ e] exI [of _ pre] exI [of _ t] exI [of _ q] exI [of _ res] exI [of _ c] exI [of _ "rolls @ [?ev]"])
      (use p(2) new in \<open>simp add: evs st\<close>)
qed

lemma work_moved_quiet:
  assumes inv: "work_inv L R k sole log s" and b: "lo_busy s = Some evs"
    and run: "trace_of (FloxEnv_Reconcile L R k) w = evs @ ev # rest" and a: "answered k s ev" and q: "stored_by ev = []"
  shows "work_inv L R k sole log (s\<lparr> lo_busy := Some (evs @ [ev]) \<rparr>)" (is "work_inv _ _ _ _ _ ?t")
proof -
  note I = work_invD [OF inv]
  have pass: "pass_inv L R k sole s evs" by (rule I(4) [OF b])
  have "pass_inv L R k sole ?t (evs @ [ev])"
  proof (cases evs)
    case Nil
    have "holds_on L R sole (lo_versions s) e [ev]" if "ev = GetFloxEnv k (Inr e)" for e
    proof -
      have "lo_cache s = Some e" using a that by simp
      from read_kept [OF inv _ this] pass show ?thesis by (simp add: pass_inv_def Nil holds_on_def that)
    qed
    then show ?thesis by (simp add: pass_inv_def Nil)
  next
    case (Cons x xs)
    have "holds_on L R sole (lo_versions s) e (evs @ [ev])" if "x = GetFloxEnv k (Inr e)" for e
      using pass that by (intro holds_quiet [OF _ q]) (simp add: pass_inv_def Cons)
    then show ?thesis by (simp add: pass_inv_def Cons)
  qed
  moreover have "traced L R k sole log ?t"
    unfolding traced_def
  proof (intro impI)
    assume "lo_versions ?t \<noteq> []" "own_entries R (hd (lo_versions ?t)) = []"
    then consider "own_entries R (last (lo_versions s)) = []"
      | xs where "xs \<in> passes log s" "evidence L R k sole (lo_versions s) (last (lo_versions s)) xs"
      using I(5) by (auto simp: traced_def)
    then show "own_entries R (last (lo_versions ?t)) = [] \<or>
        (\<exists>xs \<in> passes log ?t. evidence L R k sole (lo_versions ?t) (last (lo_versions ?t)) xs)"
    proof cases
      case 2
      from evidence_later [OF 2(2) kept_refl, of "[]"] have e: "evidence L R k sole (lo_versions s) (last (lo_versions s)) (xs @ ys)" for ys
        by simp
      have "xs \<in> set log \<or> xs = evs" using 2(1) b by (auto simp: passes_def)
      with e [of "[]"] e [of "[ev]"] show ?thesis by (auto simp: passes_def)
    qed simp
  qed
  ultimately show ?thesis using I(1-3) by (auto simp: work_inv_def)
qed

lemma work_moved_stored:
  assumes inv: "work_inv L R k sole log s" and b: "lo_busy s = Some evs" and vs: "lo_versions s \<noteq> []"
    and run: "trace_of (FloxEnv_Reconcile L R k) w = evs @ PatchFloxEnvStatus c n (Inr st) # rest"
    and st: "st = merge_env c n (last (lo_versions s))"
  shows "work_inv L R k sole log (s\<lparr> lo_busy := Some (evs @ [PatchFloxEnvStatus c n (Inr st)]),
    lo_versions := lo_versions s @ [st], lo_written := Suc (length (lo_versions s)) \<rparr>)" (is "work_inv _ _ _ _ _ ?t")
proof -
  let ?ev = "PatchFloxEnvStatus c n (Inr st)"
  note I = work_invD [OF inv]
  obtain got es where evs: "evs = GetFloxEnv k got # es"
    using reconcile_run [of L R k w] unfolding run reconcile_trace_def by (cases evs) auto
  have keep: "kept R sole (last (lo_versions s)) st" if "not_ready_write L c n" using not_ready_keeps [OF that] by (simp add: st)
  have "holds_on L R sole (lo_versions s @ [st]) e (evs @ [?ev])" if "got = Inr e" for e
  proof -
    have "holds_on L R sole (lo_versions s) e evs" using I(4) [OF b] that by (simp add: pass_inv_def evs)
    moreover have "not_ready_write L c n \<and> \<not> recorded L evs" if "\<not> recorded L (evs @ [?ev])" using that by (auto simp: recorded_def)
    ultimately show ?thesis using keep by (auto simp: holds_on_def intro: kept_trans)
  qed
  then have "pass_inv L R k sole ?t (evs @ [?ev])" by (auto simp: pass_inv_def evs)
  moreover have "traced L R k sole log ?t"
  proof (cases "not_ready_write L c n")
    case True
    have "\<exists>xs'. xs @ xs' \<in> passes log ?t" if "xs \<in> passes log s" for xs
    proof (cases "xs \<in> set log")
      case True
      then show ?thesis by (intro exI [of _ "[]"]) (simp add: passes_def)
    next
      case False
      then show ?thesis using that b by (intro exI [of _ "[?ev]"]) (simp add: passes_def)
    qed
    then show ?thesis by (intro traced_kept [OF I(5) vs keep [OF True]]) simp_all
  next
    case False
    then show ?thesis
      using work_success [OF inv b vs run st False] vs by (auto simp: traced_def passes_def)
  qed
  moreover have "\<forall>v \<in> set (lo_versions ?t). env_versioned v (last (lo_versions ?t))"
    using versions_append [OF I(2) vs, of st] by (simp add: st)
  ultimately show ?thesis using I(1) by (auto simp: work_inv_def)
qed

lemma work_step:
  assumes step: "agent_step L R P k (spares R sole) True s t" and inv: "work_inv L R k sole log s"
  shows "work_inv L R k sole (log_after s t log) t"
  using step
proof (cases rule: agent_step.cases)
  case (env_created v)
  then show ?thesis using work_created [OF inv] by (simp add: log_after_def split: option.split)
next
  case (env_changed v)
  then show ?thesis using work_changed [OF inv] by (simp add: log_after_def split: option.split)
next
  case version_seen
  then show ?thesis
    using work_invD(4) [OF inv]
    by (intro work_same [OF inv]) (auto simp: log_after_def passes_def pass_inv_def split: option.split)
next
  case key_taken
  then show ?thesis
    using work_invD(1) [OF inv] by (intro work_same [OF inv]) (auto simp: log_after_def passes_def pass_inv_def)
next
  case (pass_moved evs w ev rest)
  show ?thesis
  proof (rule stored_by_cases [of ev])
    assume q: "stored_by ev = []"
    have "s\<lparr> lo_busy := Some (evs @ [ev]), lo_versions := lo_versions s, lo_written := lo_written s \<rparr> = s\<lparr> lo_busy := Some (evs @ [ev]) \<rparr>"
      by simp
    then show ?thesis using work_moved_quiet [OF inv pass_moved(2-4) q] pass_moved(1,2) q by (simp add: log_after_def)
  next
    fix c n st assume stored: "ev = PatchFloxEnvStatus c n (Inr st)" "stored_by ev = [st]"
    then have "lo_versions s \<noteq> []" "st = merge_env c n (last (lo_versions s))" using pass_moved(4) by simp_all
    from work_moved_stored [OF inv pass_moved(2) this(1) pass_moved(3) [unfolded stored] this(2)]
    show ?thesis using pass_moved(1,2) stored by (simp add: log_after_def)
  qed
next
  case (pass_ended evs w)
  then show ?thesis
    using work_invD(1) [OF inv] by (intro work_same [OF inv]) (auto simp: log_after_def passes_def)
qed

lemma runs_work:
  assumes "agent_runs L R P k (spares R sole) True log s"
  shows "work_inv L R k sole log s"
  using assms
proof (induction rule: agent_runs.induct)
  case runs_started
  show ?case by (simp add: work_inv_def loop_start_def traced_def)
next
  case (runs_moved log s t)
  then show ?case by (intro work_step)
qed

subsection \<open>The node has done what the server asks\<close>

text \<open>
  \<open>built_from L R k e0 e evs\<close>: the pass \<open>evs\<close> read the env as \<open>e0\<close>, asked the node for what \<open>e0\<close> says and
  got a result, and that result is what the env \<open>e\<close> has as the entry of the node, its only one.
\<close>

definition built_from :: "libs \<Rightarrow> 'w env_reconciler \<Rightarrow> objkey \<Rightarrow> floxenv \<Rightarrow> floxenv \<Rightarrow> event list \<Rightarrow> bool" where
  "built_from L R k e0 e evs \<longleftrightarrow> (\<exists>pre t q res post.
     evs = GetFloxEnv k (Inr e0) # pre @ Realize t q (Inr res) # post \<and> asked_for L e0 pre q \<and>
     filter (\<lambda>nr. nr_node nr = er_node_name R) (st_realized (fe_status e)) =
       [\<lparr> nr_node = er_node_name R, nr_ready = True, nr_store_path = rs_store_path res, nr_env_path = rs_env_path res,
          nr_gcroot_path = rs_gcroot_path res, nr_observed = fe_generation e \<rparr>])"

lemma rest_built:
  assumes run: "agent_runs L R P k (spares R sole) True log s" and rest: "at_rest s" and cache: "lo_cache s = Some e"
    and born: "own_entries R (hd (lo_versions s)) = []"
    and M: "meta_laws (lib_meta L)" "predicate_laws P"
  shows "e = last (lo_versions s) \<and> alreadyRealized R e \<and>
    (\<exists>e0 evs. evs \<in> set log \<and> built_from L R k e0 e evs \<and> env_key e0 = env_key e \<and>
       (sole \<longrightarrow> relock_of e0 = relock_of e) \<and> (unraced e0 evs \<longrightarrow> fe_spec e0 = fe_spec e))"
proof -
  have inv: "work_inv L R k sole log s" by (rule runs_work [OF run])
  note I = work_invD [OF inv]
  have "agent_reaches L R P k (leaves_alone R) True s"
    by (rule agent_reaches_mono [OF runs_reaches [OF run]]) (simp add: spares_def)
  from rest_settled [OF this rest cache M] have e: "alreadyRealized R e" "e = last (lo_versions s)" by blast+
  then obtain nr where nr: "nr \<in> set (own_entries R e)" "nr_observed nr = fe_generation e" and token: "st_relock_token (fe_status e) = relock_of e"
    by (auto simp: settled_iff list_ex_iff)
  have vs: "lo_versions s \<noteq> []" using rest cache by (auto simp: at_rest_def lo_cache_def split: if_splits)
  have "own_entries R (last (lo_versions s)) \<noteq> []" using nr(1) e(2) by auto
  then obtain evs where evs: "evs \<in> set log" "evidence L R k sole (lo_versions s) e evs"
    using I(5) vs born rest e(2) by (auto simp: traced_def passes_def at_rest_def)
  then obtain e0 pre t q res base post where p:
      "evs = GetFloxEnv k (Inr e0) # pre @ Realize t q (Inr res) # post" "asked_for L e0 pre q" "e0 \<in> set (lo_versions s)"
      "own_entries R e = [node_entry R base res]" "sole \<longrightarrow> st_relock_token (fe_status e) = relock_of e0"
      "unraced e0 evs \<longrightarrow> fe_generation base = fe_generation e0"
    unfolding evidence_def by blast
  have base: "fe_generation base = fe_generation e" using nr p(4) by (simp add: node_entry_def)
  have "env_versioned e0 e" using I(2) [OF p(3)] e(2) by simp
  moreover have "built_from L R k e0 e evs"
    using p(1,2,4) base unfolding built_from_def own_entries_def node_entry_def by (intro exI conjI) simp_all
  ultimately show ?thesis
    using e evs(1) p(5,6) base token by (intro conjI exI [of _ e0] exI [of _ evs]) (simp_all add: env_versioned_def)
qed

text \<open>
  C7: When the agent's loop has come to rest, every version seen, the key not queued and no pass running,
  the status says the node holds the env at its current generation with its stamp honoured, and a pass of
  the run is behind that: it read the env, asked the node to realise the manifest, folder and consumption
  it read, succeeded, and its result is the node's entry. What it read is the spec the server has, unless
  the spec was edited between that read and the Realizing write of the pass
  (\<open>edit_while_waiting_is_lost\<close>), and carries the stamp the server has if no other agent honours stamps
  of this env. Assumed of the run: others leave the entry of this node and honoured tokens alone, the
  server moves the generation with the spec, a pass starts only after the cache has seen the writes of the
  passes before, and the env was created without an entry of the node. The first and the third are needed
  (\<open>lost_entry_is_not_rebuilt\<close>, \<open>stale_read_is_final\<close>).
\<close>

theorem loop_realises:
  assumes "agent_runs L R P k (spares R sole) True log s" "at_rest s" "lo_cache s = Some e"
    and "filter (\<lambda>nr. nr_node nr = er_node_name R) (st_realized (fe_status (hd (lo_versions s)))) = []"
    and "meta_laws (lib_meta L)" "predicate_laws P"
  shows "e = last (lo_versions s) \<and> alreadyRealized R e \<and>
    (\<exists>e0 evs. evs \<in> set log \<and> built_from L R k e0 e evs \<and> env_key e0 = env_key e \<and>
       (sole \<longrightarrow> map_get (fe_annotations e0) relockAnnotation = map_get (fe_annotations e) relockAnnotation) \<and>
       (unraced e0 evs \<longrightarrow> fe_spec e0 = fe_spec e))"
  using rest_built [OF assms(1-3) _ assms(5,6)] assms(4) unfolding own_entries_def relock_of_def by blast

theorem loop_realises_witness:
  "alreadyRealized agent realized_web \<and>
   (\<exists>log e0 evs. agent_runs store_libs agent update_predicates web (spares agent True) True log settled_loop \<and> evs \<in> set log \<and>
      built_from store_libs agent web e0 realized_web evs)"
proof -
  have "agent_reaches store_libs agent update_predicates web (spares agent True) True settled_loop"
    by (rule settled_loop_reached [OF reaches_closed agent_started update_predicate_laws refl]) (simp add: outcome_of_def pinned_run)
  then obtain log where run: "agent_runs store_libs agent update_predicates web (spares agent True) True log settled_loop"
    using reaches_runs by blast
  have "at_rest settled_loop" "lo_cache settled_loop = Some realized_web"
    by (simp_all add: at_rest_def settled_loop_def lo_cache_def)
  from loop_realises [OF run this _ _ update_predicate_laws] store_meta_laws run show ?thesis
    by (fastforce simp: settled_loop_def object_defs)
qed

end
