(* ===== verification/CatalogLoop.thy ===== *)
theory CatalogLoop
  imports CatalogProperties FloxEnvTraces Watches
begin

text \<open>
  The catalog reconciler in its event loop, for one FloxCatalog (\<open>SetupWithManager\<close> of
  \<open>floxcatalog_controller.go\<close>). Changes of the catalog, of Flux sources and of FloxEnvs reach the caches
  as three streams; a change of the catalog wakes it when its generation moved, a change of a source wakes
  the catalogs \<open>catalogsForSource\<close> lists, a change of an env's readiness those \<open>catalogsForEnv\<close> lists.
  The theorem says what holds at rest: the catalog's source has an artifact, and every FloxEnv of the
  namespace carries its revision.
\<close>

subsection \<open>What a finished pass has done\<close>

definition artifact_url :: "net_libs \<Rightarrow> jobject \<Rightarrow> string" where
  "artifact_url N obj = NestedString N obj [''status'', ''artifact'', ''url'']"

definition artifact_revision :: "net_libs \<Rightarrow> jobject \<Rightarrow> string" where
  "artifact_revision N obj = NestedString N obj [''status'', ''artifact'', ''revision'']"

definition propagated :: "string \<Rightarrow> string \<Rightarrow> event list \<Rightarrow> bool" where
  "propagated ns revision evs \<longleftrightarrow> revision = [] \<or>
     (\<exists>es. ListFloxEnvs (Some ns) (Inr es) \<in> set evs \<and>
       (\<forall>e \<in> set es. relock_of e \<noteq> revision \<longrightarrow> PatchFloxEnv e (with_relock revision e) None \<in> set evs))"

definition published :: "net_libs \<Rightarrow> jobject \<Rightarrow> event list \<Rightarrow> bool" where
  "published N obj evs \<longleftrightarrow> (\<exists>base new flake. PatchFloxCatalogStatus base new (Inr flake) \<in> set evs \<and>
     propagated (om_namespace (fc_meta flake)) (artifact_revision N obj) evs)"

definition finished :: "net_libs \<Rightarrow> objkey \<Rightarrow> event list \<Rightarrow> bool" where
  "finished N k evs \<longleftrightarrow> (\<exists>e. GetFloxCatalog k (Inl e) \<in> set evs \<and> IgnoreNotFound e = None) \<or>
     (\<exists>flake obj. GetFloxCatalog k (Inr flake) \<in> set evs \<and> GetSource (source_key flake) (Inr obj) \<in> set evs \<and>
        artifact_url N obj \<noteq> [] \<and> published N obj evs)"

lemma relock_of_stamp [simp]: "relock_of (with_relock r e) = r"
  by (simp add: relock_of_def with_relock_def map_get_def AList.update_conv')

lemma propagated_mono: "propagated ns r evs \<Longrightarrow> set evs \<subseteq> set evs' \<Longrightarrow> propagated ns r evs'"
  unfolding propagated_def by blast

lemma published_mono: "published N obj evs \<Longrightarrow> set evs \<subseteq> set evs' \<Longrightarrow> published N obj evs'"
  unfolding published_def by (blast intro: propagated_mono)

lemma publishedI:
  "propagated (om_namespace (fc_meta flake)) (artifact_revision N obj) evs \<Longrightarrow>
    published N obj (ev # PatchFloxCatalogStatus base new (Inr flake) # evs)"
  unfolding published_def
  by (intro exI [of _ base] exI [of _ new] exI [of _ flake] conjI) (auto intro: propagated_mono)

lemma propagateRelock_finishes: "emits (propagateRelock C ns r) (\<lambda>out evs. out = None \<longrightarrow> propagated ns r evs)"
  unfolding propagateRelock_def list_envs_def
  by (intro emits_intros emits_mono [OF relock_each_emits])
    (auto simp: propagated_def relock_run_def stale_envs_def stamp_accepted_def relock_of_def)

lemma notReady_fails: "emits (notReady M C flake reason e) (\<lambda>out evs. snd out \<noteq> None)"
  unfolding notReady_def patch_catalog_status_def by (intro emits_intros) simp

lemma publish_finishes: "emits (publish M N C flake obj reach) (\<lambda>out evs. snd out = None \<longrightarrow> published N obj evs)"
  unfolding publish_def patch_catalog_status_def artifact_revision_def [symmetric]
  by (rule emits_bind [OF envsRollup_emits], elim exE conjE, hypsubst,
      intro emits_intros emits_bind [OF propagateRelock_finishes])
    (auto intro: publishedI)

lemma catalog_pass_finishes:
  "emits (FloxCatalog_Reconcile M N C k) (\<lambda>out evs. snd out = None \<longrightarrow> finished N k evs)"
proof -
  have ending: "finished N k (GetFloxCatalog k (Inr flake) # GetSource (source_key flake) (Inr obj) # lookups @ evs)"
    if "artifact_url N obj \<noteq> []" "published N obj evs" for flake obj lookups evs
    unfolding finished_def
    by (intro disjI2 exI [of _ flake] exI [of _ obj] conjI) (use that in \<open>auto intro: published_mono\<close>)
  have reach: "emits (State_Monad.bind (nodeReachableURL N C (artifact_url N obj))
      (\<lambda>reach. case reach of Inl e \<Rightarrow> notReady M C flake ''ArtifactURLUnresolvable'' e
        | Inr reachable \<Rightarrow> publish M N C flake obj reachable))
      (\<lambda>out evs. snd out = None \<longrightarrow> finished N k (GetFloxCatalog k (Inr flake) # GetSource (source_key flake) (Inr obj) # evs))"
    if url: "artifact_url N obj \<noteq> []" for flake obj
    by (rule emits_bind [OF nodeReachableURL_emits], rule emits_case_sum, rule emits_mono [OF notReady_fails], force,
        rule emits_mono [OF publish_finishes], use ending [OF url] in blast)
  have missing: "IgnoreNotFound e = None \<Longrightarrow> finished N k [GetFloxCatalog k (Inl e)]" for e
    by (simp add: finished_def)
  show ?thesis
    unfolding FloxCatalog_Reconcile_def get_catalog_def get_source_def Let_def publish_def [symmetric]
    unfolding artifact_url_def [symmetric]
    by (intro emits_intros emits_mono [OF notReady_fails]) (auto intro: reach missing)
qed

text \<open>The stamps of a pass are of the revision of the source it read.\<close>

lemma stamps_of_source:
  "\<exists>rev. \<forall>b n r. PatchFloxEnv b n r \<in> set (trace_of (FloxCatalog_Reconcile M N C k) w) \<longrightarrow> relock_of n = rev \<and>
     (\<exists>flake obj. GetFloxCatalog k (Inr flake) \<in> set (trace_of (FloxCatalog_Reconcile M N C k) w) \<and>
        GetSource (source_key flake) (Inr obj) \<in> set (trace_of (FloxCatalog_Reconcile M N C k) w) \<and> rev = artifact_revision N obj)"
  (is "\<exists>rev. ?ok rev (set ?evs)")
proof -
  have "catalog_trace M N k (outcome_of (FloxCatalog_Reconcile M N C k) w) ?evs" by (rule emits_run [OF FloxCatalog_Reconcile_emits])
  then show ?thesis
    unfolding catalog_trace_def
  proof (elim disjE exE conjE)
    fix flake src lookups rest
    assume "?evs = GetFloxCatalog k (Inr flake) # GetSource (source_key flake) src # lookups @ rest" "list_all host_lookup lookups"
      "unresolved_end M flake (outcome_of (FloxCatalog_Reconcile M N C k) w) rest"
    then have "PatchFloxEnv b n a \<notin> set ?evs" for b n a by (auto simp: unresolved_end_def list_all_iff)
    then show ?thesis by blast
  next
    fix flake src lookups rest obj
    assume evs: "?evs = GetFloxCatalog k (Inr flake) # GetSource (source_key flake) src # lookups @ rest" "src = Inr obj"
      and l: "list_all host_lookup lookups"
      and r: "resolved_end M N flake obj lookups (outcome_of (FloxCatalog_Reconcile M N C k) w) rest"
    have "relock_of n = artifact_revision N obj" if "PatchFloxEnv b n a \<in> set ?evs" for b n a
      using that l r by (fastforce simp: evs resolved_end_def list_all_iff artifact_revision_def)
    moreover have "GetFloxCatalog k (Inr flake) \<in> set ?evs" "GetSource (source_key flake) (Inr obj) \<in> set ?evs"
      by (simp_all add: evs)
    ultimately show ?thesis by blast
  qed simp
qed

lemma stamps_of_one_revision:
  assumes "PatchFloxEnv b n r \<in> set (trace_of (FloxCatalog_Reconcile M N C k) w)"
    and "PatchFloxEnv b' n' r' \<in> set (trace_of (FloxCatalog_Reconcile M N C k) w)"
  shows "relock_of n = relock_of n'"
  using stamps_of_source [of M N C k w] assms by metis

text \<open>It reads before it stamps.\<close>

fun stamp_event :: "event \<Rightarrow> bool" where
  "stamp_event (PatchFloxEnv b n r) = True"
| "stamp_event _ = False"

definition stamps_last :: "event list \<Rightarrow> bool" where
  "stamps_last evs \<longleftrightarrow> (\<exists>reads stamps. evs = reads @ stamps \<and> (\<forall>ev \<in> set reads. \<not> stamp_event ev) \<and> (\<forall>ev \<in> set stamps. stamp_event ev))"

lemma stamps_last_Nil [simp]: "stamps_last []"
  by (simp add: stamps_last_def)

lemma stamps_last_append:
  assumes "\<forall>ev \<in> set pre. \<not> stamp_event ev" "stamps_last evs"
  shows "stamps_last (pre @ evs)"
proof -
  obtain reads stamps where "evs = reads @ stamps" "\<forall>ev \<in> set reads. \<not> stamp_event ev" "\<forall>ev \<in> set stamps. stamp_event ev"
    using assms(2) unfolding stamps_last_def by blast
  then show ?thesis
    unfolding stamps_last_def by (intro exI [of _ "pre @ reads"] exI [of _ stamps]) (use assms(1) in auto)
qed

lemma stamps_last_Cons: "\<not> stamp_event ev \<Longrightarrow> stamps_last evs \<Longrightarrow> stamps_last (ev # evs)"
  using stamps_last_append [of "[ev]" evs] by simp

lemma propagateRelock_stamps_last: "emits (propagateRelock C ns r) (\<lambda>out evs. stamps_last evs)"
proof -
  have "stamps_last evs" if "\<forall>ev \<in> set evs. stamp_event ev" for evs
    unfolding stamps_last_def by (intro exI [of _ "[]"] exI [of _ evs]) (use that in simp)
  then have each: "emits (relock_each C r envs) (\<lambda>out evs. stamps_last evs)" for envs
    by (intro emits_mono [OF relock_each_emits]) (auto simp: relock_run_def stamp_accepted_def split: option.splits)
  show ?thesis
    unfolding propagateRelock_def list_envs_def by (intro emits_intros emits_mono [OF each]) (auto intro!: stamps_last_Cons)
qed

lemma catalog_stamps_last: "emits (FloxCatalog_Reconcile M N C k) (\<lambda>out evs. stamps_last evs)"
proof -
  have failing: "emits (notReady M C flake reason e) (\<lambda>out evs. stamps_last evs)" for flake reason e
    by (rule emits_mono [OF notReady_emits]) (auto simp: unresolved_end_def intro: stamps_last_Cons)
  have publish: "emits (publish M N C flake obj reach) (\<lambda>out evs. stamps_last evs)" for flake obj reach
    unfolding publish_def patch_catalog_status_def
    by (rule emits_bind [OF envsRollup_emits], elim exE conjE, hypsubst,
        intro emits_intros emits_bind [OF propagateRelock_stamps_last])
      (auto intro!: stamps_last_Cons)
  have reach: "emits (State_Monad.bind (nodeReachableURL N C url)
      (\<lambda>reach. case reach of Inl e \<Rightarrow> notReady M C flake ''ArtifactURLUnresolvable'' e
        | Inr reachable \<Rightarrow> publish M N C flake obj reachable)) (\<lambda>out evs. stamps_last (GetFloxCatalog k r # GetSource sk r' # evs))"
    for flake obj url r sk r'
  proof (rule emits_bind [OF nodeReachableURL_emits])
    fix x :: "go_error + string" and es
    assume "list_all host_lookup es \<and> (\<forall>reach. x = Inr reach \<longrightarrow> reachable_from N url es reach)"
    then have "\<not> stamp_event ev" if "ev \<in> set (GetFloxCatalog k r # GetSource sk r' # es)" for ev
      using that by (cases ev) (auto simp: list_all_iff)
    then have "stamps_last (GetFloxCatalog k r # GetSource sk r' # es @ evs)" if "stamps_last evs" for evs
      using stamps_last_append [of "GetFloxCatalog k r # GetSource sk r' # es" evs] that by simp
    then show "emits (case x of Inl e \<Rightarrow> notReady M C flake ''ArtifactURLUnresolvable'' e
        | Inr reachable \<Rightarrow> publish M N C flake obj reachable) (\<lambda>y es'. stamps_last (GetFloxCatalog k r # GetSource sk r' # es @ es'))"
      by (intro emits_case_sum emits_mono [OF failing] emits_mono [OF publish]) blast+
  qed
  show ?thesis
    unfolding FloxCatalog_Reconcile_def get_catalog_def get_source_def Let_def publish_def [symmetric]
    by (intro emits_intros emits_mono [OF failing]) (auto intro: reach intro!: stamps_last_Cons)
qed

lemma before_a_read: "evs @ ev # rest = reads @ stamps \<Longrightarrow> ev \<notin> set stamps \<Longrightarrow> set evs \<subseteq> set reads"
proof (induction evs arbitrary: reads)
  case (Cons x evs)
  then show ?case by (cases reads) auto
qed simp

lemma no_stamp_before_a_read:
  assumes "trace_of (FloxCatalog_Reconcile M N C k) w = evs @ ev # rest" "\<not> stamp_event ev"
  shows "PatchFloxEnv b n r \<notin> set evs"
proof -
  obtain reads stamps where "evs @ ev # rest = reads @ stamps" "\<forall>ev \<in> set reads. \<not> stamp_event ev" "\<forall>ev \<in> set stamps. stamp_event ev"
    using emits_run [OF catalog_stamps_last, of M N C k w] unfolding assms(1) stamps_last_def by blast
  moreover from this(3) have "ev \<notin> set stamps" using assms(2) by blast
  ultimately have "set evs \<subseteq> set reads" by (intro before_a_read)
  then show ?thesis using \<open>\<forall>ev \<in> set reads. \<not> stamp_event ev\<close> by fastforce
qed

subsection \<open>The loop\<close>

text \<open>An event of a FloxEnv says whether it is a stamp of this reconciler.\<close>

type_synonym env_event = "objkey \<times> floxenv option \<times> bool"

record catalog_loop =
  cg_catalog :: "floxcatalog option"
  cg_catalog_events :: "floxcatalog option list"
  cg_sources :: "objkey \<Rightarrow> jobject option"
  cg_source_events :: "(objkey \<times> jobject option) list"
  cg_changed_sources :: "objkey list"
  cg_envs :: "objkey \<Rightarrow> floxenv option"
  cg_env_events :: "env_event list"
  cg_changed_envs :: "floxenv list"
  cg_queued :: bool
  cg_busy :: "event list option"

definition catalog_idle :: catalog_loop where
  "catalog_idle = \<lparr> cg_catalog = None, cg_catalog_events = [], cg_sources = (\<lambda>_. None), cg_source_events = [],
     cg_changed_sources = [], cg_envs = (\<lambda>_. None), cg_env_events = [], cg_changed_envs = [],
     cg_queued = False, cg_busy = None \<rparr>"

text \<open>The objects as the server has them: the caches with what is on its way.\<close>

definition catalog_on_server :: "catalog_loop \<Rightarrow> floxcatalog option" where
  "catalog_on_server s = last (cg_catalog s # cg_catalog_events s)"

definition deliver :: "(objkey \<Rightarrow> floxenv option) \<Rightarrow> env_event list \<Rightarrow> objkey \<Rightarrow> floxenv option" where
  "deliver E evs = fold (\<lambda>(k, v, own) m. m(k := v)) evs E"

definition envs_on_server :: "catalog_loop \<Rightarrow> objkey \<Rightarrow> floxenv option" where
  "envs_on_server s = deliver (cg_envs s) (cg_env_events s)"

text \<open>The API server moves the generation with every change of a spec.\<close>

definition versioned :: "floxcatalog option \<Rightarrow> floxcatalog option \<Rightarrow> bool" where
  "versioned old new \<longleftrightarrow> (\<forall>c c'. old = Some c \<longrightarrow> new = Some c' \<longrightarrow>
     om_generation (fc_meta c') = om_generation (fc_meta c) \<longrightarrow> fc_spec c' = fc_spec c)"

text \<open>What the theorem asks of others: they leave the stamp of an env alone.\<close>

definition keeps_stamp :: "floxenv option \<Rightarrow> floxenv option \<Rightarrow> bool" where
  "keeps_stamp old new \<longleftrightarrow> (\<forall>e e'. old = Some e \<longrightarrow> new = Some e' \<longrightarrow> relock_of e' = relock_of e)"

definition catalog_woken :: "predicates \<Rightarrow> floxcatalog option \<Rightarrow> floxcatalog option \<Rightarrow> bool" where
  "catalog_woken P old new = (case change_of old new of None \<Rightarrow> False | Some ch \<Rightarrow> catalog_agent_wakes P ch \<noteq> [])"

definition source_objects :: "objkey \<Rightarrow> jobject option \<Rightarrow> jobject option \<Rightarrow> objkey list" where
  "source_objects k old new =
     (case change_of (map_option (\<lambda>_. k) old) (map_option (\<lambda>_. k) new) of None \<Rightarrow> [] | Some ch \<Rightarrow> objects_of ch)"

definition readiness_objects :: "meta_api \<Rightarrow> floxenv option \<Rightarrow> floxenv option \<Rightarrow> floxenv list" where
  "readiness_objects M old new = (case change_of old new of None \<Rightarrow> []
     | Some ch \<Rightarrow> if update_passes (\<lambda>old new. envReadinessChange M (Some old) (Some new)) ch then objects_of ch else [])"

fun catalog_answers :: "objkey \<Rightarrow> catalog_loop \<Rightarrow> event \<Rightarrow> bool" where
  "catalog_answers k s (GetFloxCatalog k' (Inr c)) \<longleftrightarrow> cg_catalog s = Some c"
| "catalog_answers k s (GetFloxCatalog k' (Inl e)) \<longleftrightarrow> (IgnoreNotFound e = None \<longrightarrow> cg_catalog s = None)"
| "catalog_answers k s (GetSource sk (Inr obj)) \<longleftrightarrow> cg_sources s sk = Some obj"
| "catalog_answers k s (ListFloxEnvs (Some ns) (Inr es)) \<longleftrightarrow> set es = {e \<in> ran (cg_envs s). fe_namespace e = ns}"
| "catalog_answers k s (PatchFloxCatalogStatus base new (Inr c)) \<longleftrightarrow>
     (\<exists>c0. catalog_on_server s = Some c0 \<and> c = c0\<lparr> fc_status := fc_status c \<rparr>)"
| "catalog_answers k s (PatchFloxEnv base new None) \<longleftrightarrow> envs_on_server s (env_key base) \<noteq> None"
| "catalog_answers k s _ \<longleftrightarrow> True"

fun catalogs_stored :: "event \<Rightarrow> floxcatalog option list" where
  "catalogs_stored (PatchFloxCatalogStatus base new (Inr c)) = [Some c]"
| "catalogs_stored _ = []"

text \<open>A stamp is a merge patch of one annotation: the server's version gets the new stamp and stays as it is otherwise.\<close>

fun stamps_stored :: "(objkey \<Rightarrow> floxenv option) \<Rightarrow> event \<Rightarrow> env_event list" where
  "stamps_stored E (PatchFloxEnv base new None) = [(env_key base, map_option (with_relock (relock_of new)) (E (env_key base)), True)]"
| "stamps_stored E _ = []"

definition has_own :: "env_event list \<Rightarrow> bool" where
  "has_own evs \<longleftrightarrow> list_ex (\<lambda>ev. snd (snd ev)) evs"

text \<open>A pass does not start before the cache has seen the stamps of the passes before.\<close>

inductive catalog_step :: "meta_api \<Rightarrow> net_libs \<Rightarrow> predicates \<Rightarrow> 'w client \<Rightarrow> objkey \<Rightarrow> catalog_loop \<Rightarrow> catalog_loop \<Rightarrow> bool"
  for M N P C k where
  catalog_written: "(\<And>c. v = Some c \<Longrightarrow> catalog_key c = k) \<Longrightarrow> versioned (catalog_on_server s) v \<Longrightarrow>
    catalog_step M N P C k s (s\<lparr> cg_catalog_events := cg_catalog_events s @ [v] \<rparr>)"
| catalog_seen: "cg_catalog_events s = v # rest \<Longrightarrow>
    catalog_step M N P C k s (s\<lparr> cg_catalog := v, cg_catalog_events := rest,
      cg_queued := cg_queued s \<or> catalog_woken P (cg_catalog s) v \<rparr>)"
| source_written: "catalog_step M N P C k s (s\<lparr> cg_source_events := cg_source_events s @ [(sk, obj)] \<rparr>)"
| source_seen: "cg_source_events s = (sk, obj) # rest \<Longrightarrow>
    catalog_step M N P C k s (s\<lparr> cg_sources := (cg_sources s)(sk := obj), cg_source_events := rest,
      cg_changed_sources := cg_changed_sources s @ source_objects sk (cg_sources s sk) obj \<rparr>)"
| source_mapped: "cg_changed_sources s = sk # rest \<Longrightarrow> trace_of (catalogsForSource C sk) w = [ListFloxCatalogs None (Inr cs)] \<Longrightarrow>
    (\<forall>c. c \<in> set cs \<and> catalog_key c = k \<longleftrightarrow> cg_catalog s = Some c) \<Longrightarrow>
    catalog_step M N P C k s (s\<lparr> cg_changed_sources := rest,
      cg_queued := cg_queued s \<or> k \<in> set (outcome_of (catalogsForSource C sk) w) \<rparr>)"
| env_written: "(\<And>e. v = Some e \<Longrightarrow> env_key e = ek) \<Longrightarrow> keeps_stamp (envs_on_server s ek) v \<Longrightarrow>
    catalog_step M N P C k s (s\<lparr> cg_env_events := cg_env_events s @ [(ek, v, False)] \<rparr>)"
| env_seen: "cg_env_events s = (ek, v, own) # rest \<Longrightarrow>
    catalog_step M N P C k s (s\<lparr> cg_envs := (cg_envs s)(ek := v), cg_env_events := rest,
      cg_changed_envs := cg_changed_envs s @ readiness_objects M (cg_envs s ek) v \<rparr>)"
| env_mapped: "cg_changed_envs s = e # rest \<Longrightarrow>
    trace_of (catalogsForEnv C e) w = [ListFloxCatalogs (Some (fe_namespace e)) (Inr cs)] \<Longrightarrow>
    (\<forall>c. c \<in> set cs \<and> catalog_key c = k \<longleftrightarrow> cg_catalog s = Some c \<and> key_namespace k = fe_namespace e) \<Longrightarrow>
    catalog_step M N P C k s (s\<lparr> cg_changed_envs := rest,
      cg_queued := cg_queued s \<or> k \<in> set (outcome_of (catalogsForEnv C e) w) \<rparr>)"
| key_taken: "cg_queued s \<Longrightarrow> cg_busy s = None \<Longrightarrow> \<not> has_own (cg_env_events s) \<Longrightarrow>
    catalog_step M N P C k s (s\<lparr> cg_queued := False, cg_busy := Some [] \<rparr>)"
| pass_moved: "cg_busy s = Some evs \<Longrightarrow> trace_of (FloxCatalog_Reconcile M N C k) w = evs @ ev # rest \<Longrightarrow> catalog_answers k s ev \<Longrightarrow>
    catalog_step M N P C k s (s\<lparr> cg_busy := Some (evs @ [ev]), cg_catalog_events := cg_catalog_events s @ catalogs_stored ev,
      cg_env_events := cg_env_events s @ stamps_stored (envs_on_server s) ev \<rparr>)"
| pass_ended: "cg_busy s = Some evs \<Longrightarrow> trace_of (FloxCatalog_Reconcile M N C k) w = evs \<Longrightarrow>
    catalog_step M N P C k s (s\<lparr> cg_busy := None,
      cg_queued := cg_queued s \<or> snd (outcome_of (FloxCatalog_Reconcile M N C k) w) \<noteq> None \<rparr>)"

inductive catalog_reaches :: "meta_api \<Rightarrow> net_libs \<Rightarrow> predicates \<Rightarrow> 'w client \<Rightarrow> objkey \<Rightarrow> catalog_loop \<Rightarrow> bool"
  for M N P C k where
  catalog_started: "catalog_reaches M N P C k catalog_idle"
| catalog_moved: "catalog_reaches M N P C k s \<Longrightarrow> catalog_step M N P C k s t \<Longrightarrow> catalog_reaches M N P C k t"

definition catalog_at_rest :: "catalog_loop \<Rightarrow> bool" where
  "catalog_at_rest s \<longleftrightarrow> cg_catalog_events s = [] \<and> cg_source_events s = [] \<and> cg_changed_sources s = [] \<and>
     cg_env_events s = [] \<and> cg_changed_envs s = [] \<and> \<not> cg_queued s \<and> cg_busy s = None"

subsection \<open>What stands while no wake is due\<close>

fun arrivals :: "string \<Rightarrow> (objkey \<Rightarrow> floxenv option) \<Rightarrow> env_event list \<Rightarrow> bool" where
  "arrivals ns E [] \<longleftrightarrow> False"
| "arrivals ns E ((k, v, own) # evs) \<longleftrightarrow> (E k = None \<and> v \<noteq> None \<and> key_namespace k = ns) \<or> arrivals ns (E(k := v)) evs"

fun steady :: "(objkey \<Rightarrow> floxenv option) \<Rightarrow> env_event list \<Rightarrow> bool" where
  "steady E [] \<longleftrightarrow> True"
| "steady E ((k, v, own) # evs) \<longleftrightarrow> (own \<or> keeps_stamp (E k) v) \<and> steady (E(k := v)) evs"

fun all_versioned :: "floxcatalog option \<Rightarrow> floxcatalog option list \<Rightarrow> bool" where
  "all_versioned c [] \<longleftrightarrow> True"
| "all_versioned c (v # vs) \<longleftrightarrow> versioned c v \<and> all_versioned v vs"

lemma deliver_simps [simp]:
  "deliver E [] = E" "deliver E ((k, v, own) # evs) = deliver (E(k := v)) evs"
  "deliver E (evs @ [(k, v, own)]) = (deliver E evs)(k := v)"
  by (simp_all add: deliver_def)

lemma has_own_simps [simp]:
  "\<not> has_own []" "has_own (ev # evs) \<longleftrightarrow> snd (snd ev) \<or> has_own evs" "has_own (evs @ evs') \<longleftrightarrow> has_own evs \<or> has_own evs'"
  by (simp_all add: has_own_def)

lemma arrivals_append [simp]:
  "arrivals ns E (evs @ [(k, v, own)]) \<longleftrightarrow> arrivals ns E evs \<or> (deliver E evs k = None \<and> v \<noteq> None \<and> key_namespace k = ns)"
  by (induction ns E evs rule: arrivals.induct) (simp_all del: fun_upd_apply)

lemma steady_append [simp]: "steady E (evs @ [(k, v, own)]) \<longleftrightarrow> steady E evs \<and> (own \<or> keeps_stamp (deliver E evs k) v)"
  by (induction E evs rule: steady.induct) (simp_all del: fun_upd_apply)

lemma all_versioned_append [simp]: "all_versioned c (vs @ [v]) \<longleftrightarrow> all_versioned c vs \<and> versioned (last (c # vs)) v"
  by (induction c vs rule: all_versioned.induct) auto

text \<open>Without a stamp of its own on the way, and without a new env, the cache has every env with its stamp.\<close>

lemma steady_stands:
  assumes "steady E evs" "\<not> has_own evs" "\<not> arrivals ns E evs"
    and "deliver E evs k = Some e'" "key_namespace k = ns"
  shows "\<exists>e. E k = Some e \<and> relock_of e' = relock_of e"
  using assms
proof (induction E evs rule: steady.induct)
  case (2 E k' v own evs)
  then have "\<exists>e. (E(k' := v)) k = Some e \<and> relock_of e' = relock_of e" by (simp del: fun_upd_apply)
  with 2 show ?case by (cases "k = k'"; cases "E k") (auto simp: keeps_stamp_def)
qed simp

text \<open>A wake of a cached catalog \<open>c\<close> is due: it is queued, or something on its way will queue it.\<close>

definition wake_due :: "objkey \<Rightarrow> catalog_loop \<Rightarrow> floxcatalog \<Rightarrow> bool" where
  "wake_due k s c \<longleftrightarrow> cg_queued s \<or> source_key c \<in> set (cg_changed_sources s) \<or>
     (\<exists>e \<in> set (cg_changed_envs s). fe_namespace e = key_namespace k) \<or>
     arrivals (key_namespace k) (cg_envs s) (cg_env_events s)"

definition carries :: "objkey \<Rightarrow> catalog_loop \<Rightarrow> string \<Rightarrow> bool" where
  "carries k s r \<longleftrightarrow> (\<forall>ek e. envs_on_server s ek = Some e \<longrightarrow> key_namespace ek = key_namespace k \<longrightarrow> relock_of e = r)"

text \<open>What a pass achieves, and what is known in the middle of one.\<close>

definition content :: "net_libs \<Rightarrow> objkey \<Rightarrow> catalog_loop \<Rightarrow> floxcatalog \<Rightarrow> bool" where
  "content N k s c \<longleftrightarrow> (\<exists>obj. cg_sources s (source_key c) = Some obj \<and> artifact_url N obj \<noteq> [] \<and>
     (artifact_revision N obj \<noteq> [] \<longrightarrow> carries k s (artifact_revision N obj)))"

definition known :: "objkey \<Rightarrow> catalog_loop \<Rightarrow> floxcatalog \<Rightarrow> event \<Rightarrow> bool" where
  "known k s c ev \<longleftrightarrow> (case ev of
       GetFloxCatalog k' (Inr c') \<Rightarrow> source_key c' = source_key c
     | GetFloxCatalog k' (Inl e) \<Rightarrow> IgnoreNotFound e \<noteq> None
     | GetSource sk (Inr obj) \<Rightarrow> sk = source_key c \<longrightarrow> cg_sources s sk = Some obj
     | PatchFloxCatalogStatus b n (Inr c') \<Rightarrow> catalog_key c' = k
     | PatchFloxEnv b n None \<Rightarrow> key_namespace (env_key b) = key_namespace k \<longrightarrow>
         (\<forall>e. envs_on_server s (env_key b) = Some e \<longrightarrow> relock_of e = relock_of n)
     | _ \<Rightarrow> True)"

definition stamped_in :: "event list \<Rightarrow> bool" where
  "stamped_in evs \<longleftrightarrow> (\<exists>b n. PatchFloxEnv b n None \<in> set evs)"

definition listed :: "objkey \<Rightarrow> catalog_loop \<Rightarrow> event list \<Rightarrow> floxenv list \<Rightarrow> bool" where
  "listed k s evs es \<longleftrightarrow> (\<forall>ek e'. envs_on_server s ek = Some e' \<longrightarrow> key_namespace ek = key_namespace k \<longrightarrow>
     (\<exists>e \<in> set es. env_key e = ek \<and>
        (relock_of e' = relock_of e \<or> (\<exists>b n. PatchFloxEnv b n None \<in> set evs \<and> relock_of e' = relock_of n))))"

definition in_pass :: "objkey \<Rightarrow> catalog_loop \<Rightarrow> floxcatalog \<Rightarrow> event list \<Rightarrow> bool" where
  "in_pass k s c evs \<longleftrightarrow> (\<forall>ev \<in> set evs. known k s c ev) \<and>
     (has_own (cg_env_events s) \<longrightarrow> stamped_in evs) \<and>
     (\<forall>es. ListFloxEnvs (Some (key_namespace k)) (Inr es) \<in> set evs \<longrightarrow> listed k s evs es)"

definition catalog_inv :: "net_libs \<Rightarrow> objkey \<Rightarrow> catalog_loop \<Rightarrow> bool" where
  "catalog_inv N k s \<longleftrightarrow>
     (\<forall>c. Some c \<in> set (cg_catalog s # cg_catalog_events s) \<longrightarrow> catalog_key c = k) \<and>
     all_versioned (cg_catalog s) (cg_catalog_events s) \<and>
     (\<forall>ek e. cg_envs s ek = Some e \<longrightarrow> env_key e = ek) \<and>
     (\<forall>ek e own. (ek, Some e, own) \<in> set (cg_env_events s) \<longrightarrow> env_key e = ek) \<and>
     steady (cg_envs s) (cg_env_events s) \<and>
     (\<forall>c. cg_catalog s = Some c \<longrightarrow> \<not> wake_due k s c \<longrightarrow> cg_busy s = None \<longrightarrow> content N k s c) \<and>
     (\<forall>c evs. cg_catalog s = Some c \<longrightarrow> \<not> wake_due k s c \<longrightarrow> cg_busy s = Some evs \<longrightarrow> in_pass k s c evs)"

lemma catalog_invD:
  assumes "catalog_inv N k s"
  shows "Some c' \<in> set (cg_catalog s # cg_catalog_events s) \<Longrightarrow> catalog_key c' = k"
    "all_versioned (cg_catalog s) (cg_catalog_events s)"
    "cg_envs s ek = Some e \<Longrightarrow> env_key e = ek"
    "(ek, Some e, own) \<in> set (cg_env_events s) \<Longrightarrow> env_key e = ek"
    "steady (cg_envs s) (cg_env_events s)"
    "cg_catalog s = Some c' \<Longrightarrow> \<not> wake_due k s c' \<Longrightarrow> cg_busy s = None \<Longrightarrow> content N k s c'"
    "cg_catalog s = Some c' \<Longrightarrow> \<not> wake_due k s c' \<Longrightarrow> cg_busy s = Some evs \<Longrightarrow> in_pass k s c' evs"
  using assms unfolding catalog_inv_def by blast+

lemma catalog_invI:
  assumes "\<And>c'. Some c' \<in> set (cg_catalog s # cg_catalog_events s) \<Longrightarrow> catalog_key c' = k"
    "all_versioned (cg_catalog s) (cg_catalog_events s)"
    "\<And>ek e. cg_envs s ek = Some e \<Longrightarrow> env_key e = ek"
    "\<And>ek e own. (ek, Some e, own) \<in> set (cg_env_events s) \<Longrightarrow> env_key e = ek"
    "steady (cg_envs s) (cg_env_events s)"
    "\<And>c. cg_catalog s = Some c \<Longrightarrow> \<not> wake_due k s c \<Longrightarrow> cg_busy s = None \<Longrightarrow> content N k s c"
    "\<And>c evs. cg_catalog s = Some c \<Longrightarrow> \<not> wake_due k s c \<Longrightarrow> cg_busy s = Some evs \<Longrightarrow> in_pass k s c evs"
  shows "catalog_inv N k s"
  using assms unfolding catalog_inv_def by blast

text \<open>
  A step that moves no source and stores no other stamp, as far as the namespace is concerned, keeps what
  is known.
\<close>

definition same_stamps :: "objkey \<Rightarrow> catalog_loop \<Rightarrow> catalog_loop \<Rightarrow> bool" where
  "same_stamps k s t \<longleftrightarrow> (\<forall>ek e'. envs_on_server t ek = Some e' \<longrightarrow> key_namespace ek = key_namespace k \<longrightarrow>
     (\<exists>e. envs_on_server s ek = Some e \<and> relock_of e' = relock_of e))"

lemma same_stamps_refl: "envs_on_server t = envs_on_server s \<Longrightarrow> same_stamps k s t"
  by (simp add: same_stamps_def)

lemma content_kept:
  assumes "content N k s c" "same_stamps k s t" "cg_sources t (source_key c') = cg_sources s (source_key c)"
  shows "content N k t c'"
  using assms unfolding content_def carries_def same_stamps_def by metis

lemma listed_kept: "listed k s evs es \<Longrightarrow> same_stamps k s t \<Longrightarrow> listed k t evs es"
  unfolding listed_def same_stamps_def by metis

lemma known_kept:
  assumes "known k s c ev" "same_stamps k s t" "cg_sources t (source_key c) = cg_sources s (source_key c)"
    and "source_key c' = source_key c"
  shows "known k t c' ev"
  using assms(1,3,4) assms(2) [unfolded same_stamps_def]
  by (auto simp: known_def split: event.splits sum.splits option.splits) metis

lemma in_pass_kept:
  assumes "in_pass k s c evs" "same_stamps k s t" "cg_sources t (source_key c) = cg_sources s (source_key c)"
    and "source_key c' = source_key c"
    and "has_own (cg_env_events t) \<Longrightarrow> has_own (cg_env_events s)"
  shows "in_pass k t c' evs"
  using assms(1) known_kept [OF _ assms(2-4)] listed_kept [OF _ assms(2)] assms(5)
  unfolding in_pass_def by fastforce

text \<open>The steps that only move the caches and the queue.\<close>

lemma catalog_inv_step:
  assumes inv: "catalog_inv N k s"
    and "\<And>c'. Some c' \<in> set (cg_catalog t # cg_catalog_events t) \<Longrightarrow> Some c' \<in> set (cg_catalog s # cg_catalog_events s) \<or> catalog_key c' = k"
    and "all_versioned (cg_catalog t) (cg_catalog_events t)"
    and "\<And>ek e. cg_envs t ek = Some e \<Longrightarrow> cg_envs s ek = Some e \<or> env_key e = ek"
    and "\<And>ek e own. (ek, Some e, own) \<in> set (cg_env_events t) \<Longrightarrow> (ek, Some e, own) \<in> set (cg_env_events s) \<or> env_key e = ek"
    and "steady (cg_envs t) (cg_env_events t)"
    and still: "\<And>c. cg_catalog t = Some c \<Longrightarrow> \<not> wake_due k t c \<Longrightarrow> \<exists>c0. cg_catalog s = Some c0 \<and> \<not> wake_due k s c0 \<and>
      source_key c = source_key c0 \<and> same_stamps k s t \<and> cg_sources t (source_key c0) = cg_sources s (source_key c0)"
    and own: "has_own (cg_env_events t) \<Longrightarrow> has_own (cg_env_events s)"
    and busy: "cg_busy t = cg_busy s"
  shows "catalog_inv N k t"
proof (rule catalog_invI)
  note I = catalog_invD [OF inv]
  show "Some c' \<in> set (cg_catalog t # cg_catalog_events t) \<Longrightarrow> catalog_key c' = k" for c' using assms(2) I(1) by blast
  show "cg_envs t ek = Some e \<Longrightarrow> env_key e = ek" for ek e using assms(4) I(3) by blast
  show "(ek, Some e, own) \<in> set (cg_env_events t) \<Longrightarrow> env_key e = ek" for ek e own using assms(5) I(4) by blast
  fix c assume c: "cg_catalog t = Some c" "\<not> wake_due k t c"
  obtain c0 where c0: "cg_catalog s = Some c0" "\<not> wake_due k s c0" "source_key c = source_key c0" "same_stamps k s t"
      "cg_sources t (source_key c0) = cg_sources s (source_key c0)"
    using still [OF c] by blast
  show "content N k t c" if "cg_busy t = None"
    by (rule content_kept [OF I(6) [OF c0(1,2)] c0(4)]) (use that c0(3,5) busy in simp_all)
  show "in_pass k t c evs" if "cg_busy t = Some evs" for evs
    by (rule in_pass_kept [OF I(7) [OF c0(1,2)] c0(4,5,3) own]) (use that busy in simp)
qed (use assms(3,6) in simp_all)

subsection \<open>Every step keeps it\<close>

lemma catalog_woken_iff:
  assumes "predicate_laws P"
  shows "catalog_woken P old (Some c) \<longleftrightarrow> \<not> (\<exists>c0. old = Some c0 \<and> om_generation (fc_meta c0) = om_generation (fc_meta c))"
proof (cases old)
  case None
  then show ?thesis by (simp add: catalog_woken_def catalog_agent_wakes_def)
qed (simp add: catalog_woken_def catalog_watch [OF assms])

lemma source_key_same: "catalog_key c = catalog_key c' \<Longrightarrow> fc_spec c = fc_spec c' \<Longrightarrow> source_key c = source_key c'"
  by (simp add: source_key_def catalog_key_def)

lemma keeps_catalog_seen:
  assumes inv: "catalog_inv N k s" and P: "predicate_laws P" and ev: "cg_catalog_events s = v # rest"
  shows "catalog_inv N k (s\<lparr> cg_catalog := v, cg_catalog_events := rest, cg_queued := cg_queued s \<or> catalog_woken P (cg_catalog s) v \<rparr>)"
    (is "catalog_inv N k ?t")
proof (rule catalog_inv_step [OF inv])
  note I = catalog_invD [OF inv]
  show "all_versioned (cg_catalog ?t) (cg_catalog_events ?t)" using I(2) by (simp add: ev)
  show "Some c' \<in> set (cg_catalog s # cg_catalog_events s) \<or> catalog_key c' = k"
    if "Some c' \<in> set (cg_catalog ?t # cg_catalog_events ?t)" for c'
    using that by (simp add: ev)
  show "steady (cg_envs ?t) (cg_env_events ?t)" using I(5) by simp
  fix c assume c: "cg_catalog ?t = Some c" "\<not> wake_due k ?t c"
  have "same_stamps k s ?t" by (rule same_stamps_refl) (simp add: envs_on_server_def)
  moreover have "\<not> catalog_woken P (cg_catalog s) (Some c)" using c by (simp add: wake_due_def)
  then obtain c0 where c0: "cg_catalog s = Some c0" "om_generation (fc_meta c0) = om_generation (fc_meta c)"
    unfolding catalog_woken_iff [OF P] by blast
  have "versioned (Some c0) (Some c)" using I(2) c(1) c0(1) by (simp add: ev)
  then have "fc_spec c = fc_spec c0" using c0(2) by (simp add: versioned_def)
  moreover have "catalog_key c = catalog_key c0"
    using I(1) [of c] I(1) [of c0] c(1) c0(1) by (simp add: ev)
  ultimately have same: "source_key c = source_key c0" "same_stamps k s ?t" using source_key_same by blast+
  have "\<not> wake_due k s c0" using c(2) unfolding wake_due_def same(1) by simp
  with c0(1) same show "\<exists>c0. cg_catalog s = Some c0 \<and> \<not> wake_due k s c0 \<and> source_key c = source_key c0 \<and> same_stamps k s ?t \<and>
      cg_sources ?t (source_key c0) = cg_sources s (source_key c0)"
    by (intro exI [of _ c0]) simp
qed simp_all

lemma keeps_source_seen:
  assumes inv: "catalog_inv N k s" and ev: "cg_source_events s = (sk, obj) # rest"
  shows "catalog_inv N k (s\<lparr> cg_sources := (cg_sources s)(sk := obj), cg_source_events := rest,
    cg_changed_sources := cg_changed_sources s @ source_objects sk (cg_sources s sk) obj \<rparr>)" (is "catalog_inv N k ?t")
proof (rule catalog_inv_step [OF inv])
  fix c assume c: "cg_catalog ?t = Some c" "\<not> wake_due k ?t c"
  have "cg_sources s sk = obj" if "sk = source_key c"
    using c(2) that by (cases "cg_sources s sk"; cases obj) (auto simp: wake_due_def source_objects_def)
  then show "\<exists>c0. cg_catalog s = Some c0 \<and> \<not> wake_due k s c0 \<and> source_key c = source_key c0 \<and> same_stamps k s ?t \<and>
      cg_sources ?t (source_key c0) = cg_sources s (source_key c0)"
    using c by (intro exI [of _ c]) (auto simp: wake_due_def same_stamps_refl envs_on_server_def)
qed (use catalog_invD(2,5) [OF inv] in auto)

lemma keeps_source_mapped:
  assumes inv: "catalog_inv N k s" and ch: "cg_changed_sources s = sk # rest"
    and run: "trace_of (catalogsForSource C sk) w = [ListFloxCatalogs None (Inr cs)]"
    and cs: "\<forall>c. c \<in> set cs \<and> catalog_key c = k \<longleftrightarrow> cg_catalog s = Some c"
  shows "catalog_inv N k (s\<lparr> cg_changed_sources := rest, cg_queued := cg_queued s \<or> k \<in> set (outcome_of (catalogsForSource C sk) w) \<rparr>)"
    (is "catalog_inv N k ?t")
proof (rule catalog_inv_step [OF inv])
  have out: "outcome_of (catalogsForSource C sk) w = map catalog_key (filter (\<lambda>c. source_key c = sk) cs)"
    using source_watch_exact [of C sk w] run unfolding source_key_def [symmetric] by auto
  fix c assume c: "cg_catalog ?t = Some c" "\<not> wake_due k ?t c"
  have "c \<in> set cs" "catalog_key c = k" using cs c(1) by auto
  then have "source_key c \<noteq> sk" using c(2) out by (auto simp: wake_due_def)
  then show "\<exists>c0. cg_catalog s = Some c0 \<and> \<not> wake_due k s c0 \<and> source_key c = source_key c0 \<and> same_stamps k s ?t \<and>
      cg_sources ?t (source_key c0) = cg_sources s (source_key c0)"
    using c by (intro exI [of _ c]) (auto simp: wake_due_def same_stamps_refl envs_on_server_def ch)
qed (use catalog_invD(2,5) [OF inv] in auto)

lemma keeps_env_written:
  assumes inv: "catalog_inv N k s" and v: "\<And>e. v = Some e \<Longrightarrow> env_key e = ek" "keeps_stamp (envs_on_server s ek) v"
  shows "catalog_inv N k (s\<lparr> cg_env_events := cg_env_events s @ [(ek, v, False)] \<rparr>)" (is "catalog_inv N k ?t")
proof (rule catalog_inv_step [OF inv])
  show "steady (cg_envs ?t) (cg_env_events ?t)" using catalog_invD(5) [OF inv] v(2) by (simp add: envs_on_server_def)
  fix c assume c: "cg_catalog ?t = Some c" "\<not> wake_due k ?t c"
  have "same_stamps k s ?t"
    unfolding same_stamps_def
  proof (intro allI impI)
    fix ek' e' assume e': "envs_on_server ?t ek' = Some e'" "key_namespace ek' = key_namespace k"
    show "\<exists>e. envs_on_server s ek' = Some e \<and> relock_of e' = relock_of e"
      using c(2) e' v(2) by (cases "ek' = ek") (auto simp: wake_due_def envs_on_server_def keeps_stamp_def)
  qed
  then show "\<exists>c0. cg_catalog s = Some c0 \<and> \<not> wake_due k s c0 \<and> source_key c = source_key c0 \<and> same_stamps k s ?t \<and>
      cg_sources ?t (source_key c0) = cg_sources s (source_key c0)"
    using c by (intro exI [of _ c]) (auto simp: wake_due_def)
qed (use catalog_invD(2) [OF inv] v(1) in auto)

lemma catalog_keeps_env_seen:
  assumes inv: "catalog_inv N k s" and ev: "cg_env_events s = (ek, v, own) # rest"
  shows "catalog_inv N k (s\<lparr> cg_envs := (cg_envs s)(ek := v), cg_env_events := rest,
    cg_changed_envs := cg_changed_envs s @ readiness_objects M (cg_envs s ek) v \<rparr>)" (is "catalog_inv N k ?t")
proof (rule catalog_inv_step [OF inv])
  note I = catalog_invD [OF inv]
  have key: "env_key e = ek" if "v = Some e" for e using I(4) [of ek e own] that by (simp add: ev)
  show "cg_envs s ek' = Some e \<or> env_key e = ek'" if "cg_envs ?t ek' = Some e" for ek' e
    using that key by (auto split: if_splits)
  fix c assume c: "cg_catalog ?t = Some c" "\<not> wake_due k ?t c"
  have "\<not> (cg_envs s ek = None \<and> v \<noteq> None \<and> key_namespace ek = key_namespace k)"
  proof
    assume new: "cg_envs s ek = None \<and> v \<noteq> None \<and> key_namespace ek = key_namespace k"
    then obtain e where e: "v = Some e" by blast
    have "fe_namespace e = key_namespace ek" using key [OF e] by (auto simp: env_key_def)
    moreover have "e \<in> set (cg_changed_envs ?t)" using new e by (simp add: readiness_objects_def)
    ultimately show False using c(2) new by (auto simp: wake_due_def)
  qed
  then show "\<exists>c0. cg_catalog s = Some c0 \<and> \<not> wake_due k s c0 \<and> source_key c = source_key c0 \<and> same_stamps k s ?t \<and>
      cg_sources ?t (source_key c0) = cg_sources s (source_key c0)"
    using c by (intro exI [of _ c]) (auto simp: wake_due_def same_stamps_refl envs_on_server_def ev)
qed (use catalog_invD(2,5) [OF inv] ev in auto)

lemma keeps_env_mapped_catalog:
  assumes inv: "catalog_inv N k s" and ch: "cg_changed_envs s = e # rest"
    and run: "trace_of (catalogsForEnv C e) w = [ListFloxCatalogs (Some (fe_namespace e)) (Inr cs)]"
    and cs: "\<forall>c. c \<in> set cs \<and> catalog_key c = k \<longleftrightarrow> cg_catalog s = Some c \<and> key_namespace k = fe_namespace e"
  shows "catalog_inv N k (s\<lparr> cg_changed_envs := rest, cg_queued := cg_queued s \<or> k \<in> set (outcome_of (catalogsForEnv C e) w) \<rparr>)"
    (is "catalog_inv N k ?t")
proof (rule catalog_inv_step [OF inv])
  have out: "outcome_of (catalogsForEnv C e) w = map catalog_key cs"
    using run by (cases "cl_list_catalogs C (Some (fe_namespace e)) w")
      (simp add: catalogsForEnv_def list_catalogs_def outcome_of_def trace_of_def start_def)
  fix c assume c: "cg_catalog ?t = Some c" "\<not> wake_due k ?t c"
  have "fe_namespace e \<noteq> key_namespace k"
  proof
    assume "fe_namespace e = key_namespace k"
    then have "c \<in> set cs" "catalog_key c = k" using cs c(1) by auto
    then show False using c(2) out by (auto simp: wake_due_def)
  qed
  then show "\<exists>c0. cg_catalog s = Some c0 \<and> \<not> wake_due k s c0 \<and> source_key c = source_key c0 \<and> same_stamps k s ?t \<and>
      cg_sources ?t (source_key c0) = cg_sources s (source_key c0)"
    using c by (intro exI [of _ c]) (auto simp: wake_due_def same_stamps_refl envs_on_server_def ch)
qed (use catalog_invD(2,5) [OF inv] in auto)

lemma keeps_catalog_written:
  assumes inv: "catalog_inv N k s" and v: "\<And>c. v = Some c \<Longrightarrow> catalog_key c = k" "versioned (catalog_on_server s) v"
  shows "catalog_inv N k (s\<lparr> cg_catalog_events := cg_catalog_events s @ [v] \<rparr>)" (is "catalog_inv N k ?t")
proof (rule catalog_inv_step [OF inv])
  show "all_versioned (cg_catalog ?t) (cg_catalog_events ?t)"
    using catalog_invD(2) [OF inv] v(2) by (simp add: catalog_on_server_def)
  fix c assume "cg_catalog ?t = Some c" "\<not> wake_due k ?t c"
  then show "\<exists>c0. cg_catalog s = Some c0 \<and> \<not> wake_due k s c0 \<and> source_key c = source_key c0 \<and> same_stamps k s ?t \<and>
      cg_sources ?t (source_key c0) = cg_sources s (source_key c0)"
    by (intro exI [of _ c]) (simp add: wake_due_def same_stamps_refl envs_on_server_def)
qed (use catalog_invD(5) [OF inv] v(1) in auto)

lemma keeps_source_written:
  assumes inv: "catalog_inv N k s"
  shows "catalog_inv N k (s\<lparr> cg_source_events := evs \<rparr>)" (is "catalog_inv N k ?t")
proof (rule catalog_inv_step [OF inv])
  fix c assume "cg_catalog ?t = Some c" "\<not> wake_due k ?t c"
  then show "\<exists>c0. cg_catalog s = Some c0 \<and> \<not> wake_due k s c0 \<and> source_key c = source_key c0 \<and> same_stamps k s ?t \<and>
      cg_sources ?t (source_key c0) = cg_sources s (source_key c0)"
    by (intro exI [of _ c]) (simp add: wake_due_def same_stamps_refl envs_on_server_def)
qed (use catalog_invD(2,5) [OF inv] in auto)

lemma keeps_key_taken:
  assumes inv: "catalog_inv N k s" and own: "\<not> has_own (cg_env_events s)"
  shows "catalog_inv N k (s\<lparr> cg_queued := False, cg_busy := Some [] \<rparr>)"
proof (rule catalog_invI)
  note I = catalog_invD [OF inv]
  let ?t = "s\<lparr> cg_queued := False, cg_busy := Some [] \<rparr>"
  show "Some c' \<in> set (cg_catalog ?t # cg_catalog_events ?t) \<Longrightarrow> catalog_key c' = k" for c' using I(1) by simp
  show "cg_envs ?t ek = Some e \<Longrightarrow> env_key e = ek" for ek e using I(3) by simp
  show "(ek, Some e, own) \<in> set (cg_env_events ?t) \<Longrightarrow> env_key e = ek" for ek e own using I(4) by simp
  show "cg_busy ?t = Some evs \<Longrightarrow> in_pass k ?t c evs" for c evs using own by (auto simp: in_pass_def)
qed (use catalog_invD(2,5) [OF inv] in simp_all)

text \<open>A finished pass has done its work, if nothing new is due.\<close>

lemma finished_pass:
  assumes p: "in_pass k s c evs" and evs: "trace_of (FloxCatalog_Reconcile M N C k) w = evs" and f: "finished N k evs"
  shows "content N k s c"
proof -
  have known: "known k s c ev" if "ev \<in> set evs" for ev using p that by (simp add: in_pass_def)
  have "\<not> (\<exists>e. GetFloxCatalog k (Inl e) \<in> set evs \<and> IgnoreNotFound e = None)"
    by (fastforce simp: known_def dest: known)
  then obtain flake obj where read: "GetFloxCatalog k (Inr flake) \<in> set evs" "GetSource (source_key flake) (Inr obj) \<in> set evs"
      "artifact_url N obj \<noteq> []" "published N obj evs"
    using f unfolding finished_def by blast
  obtain base new flake' where pub: "PatchFloxCatalogStatus base new (Inr flake') \<in> set evs"
      "propagated (om_namespace (fc_meta flake')) (artifact_revision N obj) evs"
    using read(4) unfolding published_def by blast
  have src: "cg_sources s (source_key c) = Some obj"
    using known [OF read(1)] known [OF read(2)] by (simp add: known_def)
  have rev: "relock_of n = artifact_revision N obj" if patch: "PatchFloxEnv b n None \<in> set evs" for b n
  proof -
    obtain fl ob where "GetFloxCatalog k (Inr fl) \<in> set evs" "GetSource (source_key fl) (Inr ob) \<in> set evs"
        "relock_of n = artifact_revision N ob"
      using stamps_of_source [of M N C k w] patch unfolding evs by blast
    then show ?thesis using known [of "GetFloxCatalog k (Inr fl)"] known [of "GetSource (source_key fl) (Inr ob)"] src
      by (simp add: known_def)
  qed
  have ns: "om_namespace (fc_meta flake') = key_namespace k"
    using known [OF pub(1)] by (auto simp: known_def catalog_key_def)
  have "carries k s (artifact_revision N obj)" if some: "artifact_revision N obj \<noteq> []"
    unfolding carries_def
  proof (intro allI impI)
    fix ek e' assume e': "envs_on_server s ek = Some e'" "key_namespace ek = key_namespace k"
    obtain es where es: "ListFloxEnvs (Some (key_namespace k)) (Inr es) \<in> set evs"
        "\<forall>e \<in> set es. relock_of e \<noteq> artifact_revision N obj \<longrightarrow> PatchFloxEnv e (with_relock (artifact_revision N obj) e) None \<in> set evs"
      using pub(2) some unfolding propagated_def ns by blast
    have "listed k s evs es" using p es(1) unfolding in_pass_def by blast
    then obtain e where e: "e \<in> set es" "env_key e = ek"
        "relock_of e' = relock_of e \<or> (\<exists>b n. PatchFloxEnv b n None \<in> set evs \<and> relock_of e' = relock_of n)"
      using e' unfolding listed_def by blast
    show "relock_of e' = artifact_revision N obj"
    proof (cases "relock_of e = artifact_revision N obj")
      case False
      then have "known k s c (PatchFloxEnv e (with_relock (artifact_revision N obj) e) None)" using es(2) e(1) known by blast
      then show ?thesis using e(2) e' by (simp add: known_def)
    qed (use e(3) rev in auto)
  qed
  then show ?thesis using src read(3) unfolding content_def by blast
qed

lemma keeps_pass_ended:
  assumes inv: "catalog_inv N k s" and b: "cg_busy s = Some evs" "trace_of (FloxCatalog_Reconcile M N C k) w = evs"
  shows "catalog_inv N k (s\<lparr> cg_busy := None,
    cg_queued := cg_queued s \<or> snd (outcome_of (FloxCatalog_Reconcile M N C k) w) \<noteq> None \<rparr>)" (is "catalog_inv N k ?t")
proof (rule catalog_invI)
  note I = catalog_invD [OF inv]
  show "Some c' \<in> set (cg_catalog ?t # cg_catalog_events ?t) \<Longrightarrow> catalog_key c' = k" for c' using I(1) by simp
  show "cg_envs ?t ek = Some e \<Longrightarrow> env_key e = ek" for ek e using I(3) by simp
  show "(ek, Some e, own) \<in> set (cg_env_events ?t) \<Longrightarrow> env_key e = ek" for ek e own using I(4) by simp
  fix c assume c: "cg_catalog ?t = Some c" "\<not> wake_due k ?t c"
  then have "cg_catalog s = Some c" "\<not> wake_due k s c" "snd (outcome_of (FloxCatalog_Reconcile M N C k) w) = None"
    by (auto simp: wake_due_def)
  then have "in_pass k s c evs" "finished N k evs"
    using I(7) b emits_run [OF catalog_pass_finishes, of M N C k w] by auto
  then have "content N k s c" using finished_pass [OF _ b(2)] by blast
  then show "content N k ?t c" by (rule content_kept) (simp_all add: same_stamps_refl envs_on_server_def)
qed (use catalog_invD(2,5) [OF inv] in simp_all)

lemma server_key:
  assumes "catalog_inv N k s" "envs_on_server s ek = Some e"
  shows "env_key e = ek"
proof -
  have "env_key e = ek" if "deliver E evs ek = Some e" "\<And>ek e. E ek = Some e \<Longrightarrow> env_key e = ek"
      "\<And>ek e own. (ek, Some e, own) \<in> set evs \<Longrightarrow> env_key e = ek" for E evs
    using that
  proof (induction evs arbitrary: E)
    case (Cons ev evs)
    obtain k' v own where ev: "ev = (k', v, own)" by (cases ev)
    show ?case
    proof (rule Cons.IH [of "E(k' := v)"])
      show "deliver (E(k' := v)) evs ek = Some e" using Cons.prems(1) by (simp add: ev del: fun_upd_apply)
      show "env_key e = ek" if "(E(k' := v)) ek = Some e" for ek e
        using that Cons.prems(2) Cons.prems(3) [of k' e own] by (auto simp: ev split: if_splits)
      show "env_key e = ek" if "(ek, Some e, own') \<in> set evs" for ek e own'
        by (rule Cons.prems(3) [of _ _ own']) (use that ev in simp)
    qed
  qed simp
  from this [OF assms(2) [unfolded envs_on_server_def]] catalog_invD(3,4) [OF assms(1)] show ?thesis by blast
qed

text \<open>A request that is no stamp.\<close>

lemma in_pass_read:
  assumes inv: "catalog_inv N k s" and p: "in_pass k s c evs" and c: "cg_catalog s = Some c" and due: "\<not> wake_due k s c"
    and run: "trace_of (FloxCatalog_Reconcile M N C k) w = evs @ ev # rest" and a: "catalog_answers k s ev"
    and ev: "\<not> (\<exists>b n. ev = PatchFloxEnv b n None)"
  shows "in_pass k s c (evs @ [ev])"
proof -
  note I = catalog_invD [OF inv]
  have "known k s c ev"
  proof (cases "(k, s, ev)" rule: catalog_answers.cases)
    case (5 k s base new c')
    then obtain c0 where "catalog_on_server s = Some c0" "c' = c0\<lparr> fc_status := fc_status c' \<rparr>" using a by auto
    moreover have "catalog_key c0 = k" if "catalog_on_server s = Some c0" for c0
      using I(1) [of c0] that 5 last_in_set [of "cg_catalog s # cg_catalog_events s"] by (simp add: catalog_on_server_def)
    moreover have "catalog_key (c0\<lparr> fc_status := x \<rparr>) = catalog_key c0" for c0 x by (simp add: catalog_key_def)
    ultimately show ?thesis using 5 by (auto simp: known_def) metis
  qed (use a c ev in \<open>auto simp: known_def split: option.splits sum.splits\<close>)
  moreover have "listed k s (evs @ [ev]) es" if l: "ev = ListFloxEnvs (Some (key_namespace k)) (Inr es)" for es
  proof -
    have "\<not> stamp_event ev" by (simp add: l)
    then have "\<not> stamped_in evs" using no_stamp_before_a_read [OF run] by (simp add: stamped_in_def)
    then have own: "\<not> has_own (cg_env_events s)" using p by (auto simp: in_pass_def)
    have "\<exists>e \<in> set es. env_key e = ek \<and> relock_of e' = relock_of e"
      if e': "envs_on_server s ek = Some e'" "key_namespace ek = key_namespace k" for ek e'
    proof -
      have "\<not> arrivals (key_namespace k) (cg_envs s) (cg_env_events s)" using due by (simp add: wake_due_def)
      from steady_stands [OF I(5) own this e' [unfolded envs_on_server_def]] obtain e where
        e: "cg_envs s ek = Some e" "relock_of e' = relock_of e" by blast
      have "env_key e = ek" by (rule I(3) [OF e(1)])
      moreover have "set es = {e \<in> ran (cg_envs s). fe_namespace e = key_namespace k}" using a by (simp add: l)
      moreover have "e \<in> ran (cg_envs s)" using e(1) by (rule ranI)
      moreover have "fe_namespace e = key_namespace k" using \<open>env_key e = ek\<close> e'(2) unfolding env_key_def by (metis objkey.sel(1))
      ultimately show ?thesis using e(2) by blast
    qed
    then show ?thesis unfolding listed_def by blast
  qed
  moreover have "listed k s (evs @ [ev]) es" if "listed k s evs es" for es
    using that unfolding listed_def by fastforce
  ultimately show ?thesis
    using p unfolding in_pass_def stamped_in_def by (auto simp: ball_Un)
qed

text \<open>A stamp.\<close>

lemma relock_of_stored [simp]: "env_key (with_relock r e) = env_key e"
  by (simp add: with_relock_def env_key_def)

lemma in_pass_stamp:
  assumes p: "in_pass k s c evs"
    and run: "trace_of (FloxCatalog_Reconcile M N C k) w = evs @ PatchFloxEnv b n None # rest"
    and cur: "envs_on_server s (env_key b) = Some cur"
    and t: "envs_on_server t = (envs_on_server s)(env_key b \<mapsto> with_relock (relock_of n) cur)" "cg_sources t = cg_sources s"
  shows "in_pass k t c (evs @ [PatchFloxEnv b n None])"
proof -
  have known: "known k t c ev" if ev: "ev \<in> set evs" for ev
  proof (cases "\<exists>b' n'. ev = PatchFloxEnv b' n' None")
    case True
    then obtain b' n' where ev': "ev = PatchFloxEnv b' n' None" by blast
    have "relock_of n' = relock_of n"
      using stamps_of_one_revision [of b' n' None M N C k w b n None] ev by (simp add: run ev')
    moreover have "known k s c ev" using p ev by (simp add: in_pass_def)
    ultimately show ?thesis by (auto simp: known_def ev' t(1))
  next
    case False
    moreover have "known k s c ev" using p ev by (simp add: in_pass_def)
    ultimately show ?thesis by (auto simp: known_def t(2) split: event.splits sum.splits option.splits)
  qed
  moreover have "known k t c (PatchFloxEnv b n None)" by (simp add: known_def t(1))
  moreover have "listed k t (evs @ [PatchFloxEnv b n None]) es" if l: "listed k s evs es" for es
    unfolding listed_def
  proof (intro allI impI)
    fix ek e' assume e': "envs_on_server t ek = Some e'" "key_namespace ek = key_namespace k"
    obtain e0 where e0: "envs_on_server s ek = Some e0" using e'(1) cur by (cases "ek = env_key b") (auto simp: t(1))
    obtain e where e: "e \<in> set es" "env_key e = ek"
        "relock_of e0 = relock_of e \<or> (\<exists>b n. PatchFloxEnv b n None \<in> set evs \<and> relock_of e0 = relock_of n)"
      using l e0 e'(2) unfolding listed_def by blast
    have "relock_of e' = relock_of n \<or> e' = e0" using e'(1) e0 by (cases "ek = env_key b") (auto simp: t(1))
    then show "\<exists>e \<in> set es. env_key e = ek \<and> (relock_of e' = relock_of e \<or>
        (\<exists>b' n'. PatchFloxEnv b' n' None \<in> set (evs @ [PatchFloxEnv b n None]) \<and> relock_of e' = relock_of n'))"
      using e by (intro bexI [of _ e] conjI) auto
  qed
  ultimately show ?thesis using p unfolding in_pass_def stamped_in_def by (auto simp: ball_Un)
qed

lemma stamp_cases:
  obtains (stamp) b n where "ev = PatchFloxEnv b n None" "catalogs_stored ev = []"
  | (other) "\<And>E. stamps_stored E ev = []" "\<not> (\<exists>b n. ev = PatchFloxEnv b n None)"
proof (cases "\<exists>b n. ev = PatchFloxEnv b n None")
  case True
  then show thesis using stamp by auto
next
  case False
  then have "stamps_stored E ev = []" for E by (cases "(E, ev)" rule: stamps_stored.cases) auto
  with False show thesis using other by blast
qed

lemma keeps_pass_read:
  assumes inv: "catalog_inv N k s" and b: "cg_busy s = Some evs"
    and run: "trace_of (FloxCatalog_Reconcile M N C k) w = evs @ ev # rest" and a: "catalog_answers k s ev"
    and ev: "\<not> (\<exists>b n. ev = PatchFloxEnv b n None)"
  shows "catalog_inv N k (s\<lparr> cg_busy := Some (evs @ [ev]), cg_catalog_events := cg_catalog_events s @ catalogs_stored ev \<rparr>)"
    (is "catalog_inv N k ?t")
proof -
  note I = catalog_invD [OF inv]
  have stored: "catalog_key c = k \<and> versioned (catalog_on_server s) (Some c)" if st: "catalogs_stored ev = [Some c]" for c
  proof -
    obtain base new where "ev = PatchFloxCatalogStatus base new (Inr c)"
      using st by (cases ev rule: catalogs_stored.cases) auto
    then obtain c0 where c0: "catalog_on_server s = Some c0" "c = c0\<lparr> fc_status := fc_status c \<rparr>" using a by auto
    have "Some c0 \<in> set (cg_catalog s # cg_catalog_events s)"
      using c0(1) last_in_set [of "cg_catalog s # cg_catalog_events s"] by (simp add: catalog_on_server_def)
    then have "catalog_key c0 = k" by (rule I(1))
    moreover have "catalog_key c = catalog_key c0" "fc_spec c = fc_spec c0"
      by (subst c0(2), simp add: catalog_key_def)+
    ultimately show ?thesis by (simp add: versioned_def c0(1))
  qed
  have none: "catalogs_stored ev = [] \<or> (\<exists>c. catalogs_stored ev = [Some c])"
    by (cases ev rule: catalogs_stored.cases) simp_all
  show ?thesis
  proof (rule catalog_invI)
    show "catalog_key c' = k" if "Some c' \<in> set (cg_catalog ?t # cg_catalog_events ?t)" for c'
      using that none stored I(1) [of c'] by auto
    show "all_versioned (cg_catalog ?t) (cg_catalog_events ?t)"
      using none stored I(2) by (auto simp: catalog_on_server_def)
    show "cg_envs ?t ek = Some e \<Longrightarrow> env_key e = ek" for ek e using I(3) by simp
    show "(ek, Some e, own) \<in> set (cg_env_events ?t) \<Longrightarrow> env_key e = ek" for ek e own using I(4) by simp
    fix c evs' assume c: "cg_catalog ?t = Some c" "\<not> wake_due k ?t c" and b': "cg_busy ?t = Some evs'"
    have c': "cg_catalog s = Some c" "\<not> wake_due k s c" using c by (simp_all add: wake_due_def)
    have "in_pass k s c (evs @ [ev])" by (rule in_pass_read [OF inv I(7) [OF c' b] c' run a ev])
    moreover have "same_stamps k s ?t" by (rule same_stamps_refl) (simp add: envs_on_server_def)
    ultimately have "in_pass k ?t c (evs @ [ev])" by (rule in_pass_kept) simp_all
    then show "in_pass k ?t c evs'" using b' by simp
  qed (use I(5) in simp_all)
qed

lemma keeps_pass_stamp:
  assumes inv: "catalog_inv N k s" and b: "cg_busy s = Some evs"
    and run: "trace_of (FloxCatalog_Reconcile M N C k) w = evs @ PatchFloxEnv b n None # rest"
    and cur: "envs_on_server s (env_key b) = Some cur"
  shows "catalog_inv N k (s\<lparr> cg_busy := Some (evs @ [PatchFloxEnv b n None]),
    cg_env_events := cg_env_events s @ [(env_key b, Some (with_relock (relock_of n) cur), True)] \<rparr>)" (is "catalog_inv N k ?t")
proof (rule catalog_invI)
  note I = catalog_invD [OF inv]
  show "Some c' \<in> set (cg_catalog ?t # cg_catalog_events ?t) \<Longrightarrow> catalog_key c' = k" for c' using I(1) by simp
  show "cg_envs ?t ek = Some e \<Longrightarrow> env_key e = ek" for ek e using I(3) by simp
  show "env_key e = ek" if "(ek, Some e, own) \<in> set (cg_env_events ?t)" for ek e own
    using that I(4) [of ek e own] server_key [OF inv cur] by auto
  fix c evs' assume c: "cg_catalog ?t = Some c" "\<not> wake_due k ?t c" and b': "cg_busy ?t = Some evs'"
  have c': "cg_catalog s = Some c" "\<not> wake_due k s c" using c by (simp_all add: wake_due_def)
  have "in_pass k ?t c (evs @ [PatchFloxEnv b n None])"
    by (rule in_pass_stamp [OF I(7) [OF c' b] run cur]) (simp_all add: envs_on_server_def)
  then show "in_pass k ?t c evs'" using b' by simp
qed (use catalog_invD(2,5) [OF inv] in simp_all)

lemma catalog_step_inv:
  assumes step: "catalog_step M N P C k s t" and inv: "catalog_inv N k s" and P: "predicate_laws P"
  shows "catalog_inv N k t"
  using step
proof (cases rule: catalog_step.cases)
  case (catalog_written v)
  show ?thesis unfolding catalog_written(1) by (rule keeps_catalog_written [OF inv catalog_written(2,3)])
next
  case (catalog_seen v rest)
  show ?thesis unfolding catalog_seen(1) by (rule keeps_catalog_seen [OF inv P catalog_seen(2)])
next
  case (source_written sk obj)
  show ?thesis unfolding source_written by (rule keeps_source_written [OF inv])
next
  case (source_seen sk obj rest)
  show ?thesis unfolding source_seen(1) by (rule keeps_source_seen [OF inv source_seen(2)])
next
  case (source_mapped sk rest w cs)
  show ?thesis unfolding source_mapped(1) by (rule keeps_source_mapped [OF inv source_mapped(2-4)])
next
  case (env_written v ek)
  show ?thesis unfolding env_written(1) by (rule keeps_env_written [OF inv env_written(2,3)])
next
  case (env_seen ek v own rest)
  show ?thesis unfolding env_seen(1) by (rule CatalogLoop.catalog_keeps_env_seen [OF inv env_seen(2)])
next
  case (env_mapped e rest w cs)
  show ?thesis unfolding env_mapped(1) by (rule keeps_env_mapped_catalog [OF inv env_mapped(2-4)])
next
  case key_taken
  show ?thesis unfolding key_taken(1) by (rule keeps_key_taken [OF inv key_taken(4)])
next
  case (pass_moved evs w ev rest)
  show ?thesis
  proof (cases rule: stamp_cases [of ev])
    case (stamp b n)
    then obtain cur where "envs_on_server s (env_key b) = Some cur" using pass_moved(4) by auto
    then show ?thesis using keeps_pass_stamp [OF inv pass_moved(2)] pass_moved(1,3) stamp by simp
  next
    case other
    then show ?thesis using keeps_pass_read [OF inv pass_moved(2-4)] pass_moved(1) by simp
  qed
next
  case (pass_ended evs w)
  show ?thesis unfolding pass_ended(1) by (rule keeps_pass_ended [OF inv pass_ended(2,3)])
qed

lemma catalog_reaches_inv:
  assumes "catalog_reaches M N P C k s" "predicate_laws P"
  shows "catalog_inv N k s"
  using assms(1)
proof (induction rule: catalog_reaches.induct)
  case catalog_started
  show ?case by (rule catalog_invI) (simp_all add: catalog_idle_def)
next
  case (catalog_moved s t)
  then show ?case using catalog_step_inv assms(2) by blast
qed

text \<open>At rest the catalog is content.\<close>

lemma rest_content:
  assumes "catalog_reaches M N P C k s" "catalog_at_rest s" "cg_catalog s = Some c" "predicate_laws P"
  shows "\<exists>obj. cg_sources s (source_key c) = Some obj \<and> artifact_url N obj \<noteq> [] \<and>
    (artifact_revision N obj \<noteq> [] \<longrightarrow>
      (\<forall>ek e. cg_envs s ek = Some e \<longrightarrow> key_namespace ek = key_namespace k \<longrightarrow> relock_of e = artifact_revision N obj))"
proof -
  have "\<not> wake_due k s c" "cg_busy s = None" "envs_on_server s = cg_envs s"
    using assms(2) by (simp_all add: catalog_at_rest_def wake_due_def envs_on_server_def)
  then show ?thesis
    using catalog_invD(6) [OF catalog_reaches_inv [OF assms(1,4)] assms(3)] by (auto simp: content_def carries_def)
qed

subsection \<open>Runs of the loop\<close>

text \<open>
  Runs of the loop within larger ones: a set of states that is closed under the steps the loop takes
  without a new event of a FloxEnv.
\<close>

definition catalog_closed :: "meta_api \<Rightarrow> net_libs \<Rightarrow> predicates \<Rightarrow> 'w client \<Rightarrow> objkey \<Rightarrow> (catalog_loop \<Rightarrow> bool) \<Rightarrow> bool" where
  "catalog_closed M N P C k A \<longleftrightarrow>
     (\<forall>s t. A s \<longrightarrow> catalog_step M N P C k s t \<longrightarrow> length (cg_env_events t) \<le> length (cg_env_events s) \<longrightarrow> A t)"

lemma catalog_closedD:
  "catalog_closed M N P C k A \<Longrightarrow> A s \<Longrightarrow> catalog_step M N P C k s t \<Longrightarrow> length (cg_env_events t) \<le> length (cg_env_events s) \<Longrightarrow> A t"
  unfolding catalog_closed_def by blast

definition do_request :: "event \<Rightarrow> catalog_loop \<Rightarrow> catalog_loop" where
  "do_request ev s = s\<lparr> cg_busy := map_option (\<lambda>evs. evs @ [ev]) (cg_busy s),
     cg_catalog_events := cg_catalog_events s @ catalogs_stored ev \<rparr>"

fun all_read :: "objkey \<Rightarrow> catalog_loop \<Rightarrow> event list \<Rightarrow> bool" where
  "all_read k s [] \<longleftrightarrow> True"
| "all_read k s (ev # evs) \<longleftrightarrow> catalog_answers k s ev \<and> \<not> stamp_event ev \<and> all_read k (do_request ev s) evs"

lemma requests_go:
  assumes closed: "catalog_closed M N P C k A"
    and "A s" "cg_busy s = Some pre" "trace_of (FloxCatalog_Reconcile M N C k) w = pre @ evs @ rest" "all_read k s evs"
  shows "A (fold do_request evs s)"
  using assms(2-)
proof (induction evs arbitrary: s pre)
  case (Cons ev evs)
  have quiet: "stamps_stored E ev = []" for E using Cons.prems(4) by (cases "(E, ev)" rule: stamps_stored.cases) auto
  have "A (do_request ev s)"
    using catalog_closedD [OF closed Cons.prems(1) pass_moved [OF Cons.prems(2), of M N C k w ev "evs @ rest"]] Cons.prems
    by (simp add: do_request_def quiet)
  with Cons.IH [of "do_request ev s" "pre @ [ev]"] Cons.prems show ?case by (simp add: do_request_def)
qed simp

lemma pass_reads:
  assumes closed: "catalog_closed M N P C k A"
    and "A s" "cg_queued s" "cg_busy s = None" "\<not> has_own (cg_env_events s)"
    and "trace_of (FloxCatalog_Reconcile M N C k) w = evs @ rest" "all_read k (s\<lparr> cg_queued := False, cg_busy := Some [] \<rparr>) evs"
  shows "A (fold do_request evs (s\<lparr> cg_queued := False, cg_busy := Some [] \<rparr>))"
  using requests_go [OF closed catalog_closedD [OF closed assms(2) key_taken [OF assms(3-5)]] _ _ assms(7), of "[]" w rest] assms(6)
  by simp

end
