(* ===== verification/ClusterLoop.thy ===== *)
theory ClusterLoop
  imports AgentWork GateLoop CatalogLoop
begin

text \<open>
  The three controllers together: the gate, a catalog, and the agent of a node. Each runs the steps of
  its own loop; they meet in the API server only: a version of a FloxEnv that is stored, by whomever, is an
  event on its way to each of the others. The theorems are what the controllers promise a user between
  them.
\<close>

subsection \<open>The loops over one API server\<close>

record cluster =
  cl_gate :: gate_loop
  cl_catalog :: catalog_loop
  cl_agents :: "objkey \<Rightarrow> agent_loop"

definition cluster_start :: cluster where
  "cluster_start = \<lparr> cl_gate = gate_idle, cl_catalog = catalog_idle, cl_agents = (\<lambda>_. loop_start) \<rparr>"

text \<open>The versions a step of an agent's loop stores, and the env as the server has it.\<close>

definition stored_since :: "agent_loop \<Rightarrow> agent_loop \<Rightarrow> floxenv list" where
  "stored_since s t = drop (length (lo_versions s)) (lo_versions t)"

definition on_server :: "agent_loop \<Rightarrow> floxenv option" where
  "on_server s = (if lo_versions s = [] then None else Some (last (lo_versions s)))"

definition tell_gate :: "objkey \<Rightarrow> floxenv list \<Rightarrow> gate_loop \<Rightarrow> gate_loop" where
  "tell_gate k vs g = g\<lparr> gg_env_events := gg_env_events g @ map (\<lambda>v. (k, Some v)) vs \<rparr>"

definition tell_catalog :: "objkey \<Rightarrow> floxenv list \<Rightarrow> catalog_loop \<Rightarrow> catalog_loop" where
  "tell_catalog k vs s = s\<lparr> cg_env_events := cg_env_events s @ map (\<lambda>v. (k, Some v, False)) vs \<rparr>"

definition stamped_loop :: "floxenv \<Rightarrow> agent_loop \<Rightarrow> agent_loop" where
  "stamped_loop v a = a\<lparr> lo_versions := lo_versions a @ [v] \<rparr>"

text \<open>
  The loop of an env includes what others do to it (\<open>env_created\<close>, \<open>env_changed\<close>), so the loops of the gate
  and of the catalog take no event of a FloxEnv of their own: the events are the versions the agents' loops
  store, and the stamps of the catalog. Nobody else touches a stamp. As in \<open>agent_step\<close>, \<open>Q\<close> says what the
  changes others make to an env are like. No pass of an agent or of the catalog starts from a cache that is
  behind the writes of its own loop, and no listing of a map function fails.
\<close>

inductive cluster_step ::
  "libs \<Rightarrow> 'w env_reconciler \<Rightarrow> predicates \<Rightarrow> 'v client \<Rightarrow> net_libs \<Rightarrow> 'u client \<Rightarrow> objkey \<Rightarrow>
     (floxenv \<Rightarrow> floxenv \<Rightarrow> bool) \<Rightarrow> cluster \<Rightarrow> cluster \<Rightarrow> bool"
  for L R P C N D kc Q where
  gate_acts: "gate_step C False (cl_gate c) g \<Longrightarrow> length (gg_env_events g) \<le> length (gg_env_events (cl_gate c)) \<Longrightarrow>
    cluster_step L R P C N D kc Q c (c\<lparr> cl_gate := g \<rparr>)"
| catalog_acts: "catalog_step (lib_meta L) N P D kc (cl_catalog c) s \<Longrightarrow>
    length (cg_env_events s) \<le> length (cg_env_events (cl_catalog c)) \<Longrightarrow> cluster_step L R P C N D kc Q c (c\<lparr> cl_catalog := s \<rparr>)"
| catalog_stamps: "catalog_step (lib_meta L) N P D kc (cl_catalog c) s \<Longrightarrow>
    cg_env_events s = cg_env_events (cl_catalog c) @ [(k, Some v, True)] \<Longrightarrow>
    cluster_step L R P C N D kc Q c (c\<lparr> cl_catalog := s, cl_gate := tell_gate k [v] (cl_gate c),
      cl_agents := (cl_agents c)(k := stamped_loop v (cl_agents c k)) \<rparr>)"
| agent_acts: "agent_step L R P k Q True (cl_agents c k) t \<Longrightarrow>
    keeps_stamp (on_server (cl_agents c k)) (on_server t) \<Longrightarrow> (\<forall>v \<in> set (stored_since (cl_agents c k) t). env_key v = k) \<Longrightarrow>
    cluster_step L R P C N D kc Q c (c\<lparr> cl_agents := (cl_agents c)(k := t),
      cl_gate := tell_gate k (stored_since (cl_agents c k) t) (cl_gate c),
      cl_catalog := tell_catalog k (stored_since (cl_agents c k) t) (cl_catalog c) \<rparr>)"

inductive cluster_reaches ::
  "libs \<Rightarrow> 'w env_reconciler \<Rightarrow> predicates \<Rightarrow> 'v client \<Rightarrow> net_libs \<Rightarrow> 'u client \<Rightarrow> objkey \<Rightarrow>
     (floxenv \<Rightarrow> floxenv \<Rightarrow> bool) \<Rightarrow> cluster \<Rightarrow> bool"
  for L R P C N D kc Q where
  cluster_started: "cluster_reaches L R P C N D kc Q cluster_start"
| cluster_moved: "cluster_reaches L R P C N D kc Q c \<Longrightarrow> cluster_step L R P C N D kc Q c c' \<Longrightarrow> cluster_reaches L R P C N D kc Q c'"

subsection \<open>What is on its way is what the server has\<close>

definition arriving :: "gate_loop \<Rightarrow> objkey \<Rightarrow> floxenv option" where
  "arriving g = fold (\<lambda>(k, v) m. m(k := v)) (gg_env_events g) (gg_envs g)"

lemma arriving_gate_step:
  assumes "gate_step C lossy s t" "length (gg_env_events t) \<le> length (gg_env_events s)"
  shows "arriving t = arriving s"
  using assms by (cases rule: gate_step.cases) (simp_all add: arriving_def)

lemma arriving_told: "arriving (tell_gate k vs g) = (if vs = [] then arriving g else (arriving g)(k \<mapsto> last vs))"
proof -
  have "fold (\<lambda>(k, v) m. m(k := v)) (map (\<lambda>v. (k, Some v)) vs) m = (if vs = [] then m else m(k \<mapsto> last vs))"
    for m :: "objkey \<Rightarrow> floxenv option"
    by (induction vs arbitrary: m) (simp_all del: fun_upd_apply)
  then show ?thesis by (simp add: arriving_def tell_gate_def)
qed

lemma envs_on_server_step:
  assumes "catalog_step M N P D k s t" "length (cg_env_events t) \<le> length (cg_env_events s)"
  shows "envs_on_server t = envs_on_server s"
  using assms by (cases rule: catalog_step.cases) (simp_all add: envs_on_server_def)

lemma envs_on_server_told:
  "envs_on_server (tell_catalog k vs s) = (if vs = [] then envs_on_server s else (envs_on_server s)(k \<mapsto> last vs))"
proof -
  have "deliver E (evs @ map (\<lambda>v. (k, Some v, False)) vs) = (if vs = [] then deliver E evs else (deliver E evs)(k \<mapsto> last vs))"
    for E evs
    by (induction vs rule: rev_induct) (simp_all del: fun_upd_apply add: deliver_def)
  then show ?thesis by (simp add: envs_on_server_def tell_catalog_def)
qed

lemma stored_since_append:
  assumes "agent_step L R P k Q fresh s t"
  shows "lo_versions t = lo_versions s @ stored_since s t" "length (stored_since s t) \<le> 1"
proof -
  have short: "length (stored_by ev) \<le> Suc 0" for ev by (cases ev rule: stored_by.cases) simp_all
  have "lo_versions t = lo_versions s @ stored_since s t \<and> length (stored_since s t) \<le> 1"
    using assms by (cases rule: agent_step.cases) (simp_all add: stored_since_def short)
  then show "lo_versions t = lo_versions s @ stored_since s t" "length (stored_since s t) \<le> 1" by simp_all
qed

lemma on_server_step:
  assumes "agent_step L R P k Q fresh s t"
  shows "on_server t = (if stored_since s t = [] then on_server s else Some (last (stored_since s t)))"
  using stored_since_append(1) [OF assms] by (simp add: on_server_def)

lemma gate_told:
  assumes "gate_reaches C lossy g"
  shows "gate_reaches C lossy (tell_gate k vs g)"
proof (induction vs rule: rev_induct)
  case (snoc v vs)
  from gate_moved [OF this gate_step.env_written [where k = k and v = "Some v"]] show ?case by (simp add: tell_gate_def)
qed (use assms in \<open>simp add: tell_gate_def\<close>)

lemma catalog_told:
  assumes "catalog_reaches M N P D k s" "keeps_stamp (envs_on_server s ek) (Some v)" "env_key v = ek"
  shows "catalog_reaches M N P D k (tell_catalog ek [v] s)"
  using catalog_moved [OF assms(1) catalog_step.env_written [where ek = ek and v = "Some v"]] assms(2,3)
  by (simp add: tell_catalog_def)

text \<open>A stamp is a change the agent's loop has seen coming.\<close>

lemma stamp_of_server:
  assumes "catalog_step M N P D k s t" "cg_env_events t = cg_env_events s @ [(ek, Some v, True)]"
  obtains r cur where "envs_on_server s ek = Some cur" "v = with_relock r cur"
proof -
  have "\<exists>r cur. envs_on_server s ek = Some cur \<and> v = with_relock r cur"
    using assms
  proof (cases rule: catalog_step.cases)
    case (pass_moved evs w ev rest)
    then show ?thesis using assms(2) by (cases "(envs_on_server s, ev)" rule: stamps_stored.cases) auto
  qed auto
  then show thesis using that by blast
qed

lemma stamp_leaves_alone: "leaves_alone R e (with_relock r e)"
  by (rule annotated_leaves_alone) (auto simp: annotated_def with_relock_def)

lemma stamp_spares: "spares R sole e (with_relock r e)"
  using stamp_leaves_alone [of R e r] by (simp add: spares_def env_versioned_def with_relock_def env_key_def)

text \<open>A run of the cluster is a run of each loop, and what is on its way to the others is what the server has.\<close>

definition cluster_ok ::
  "libs \<Rightarrow> 'w env_reconciler \<Rightarrow> predicates \<Rightarrow> 'v client \<Rightarrow> net_libs \<Rightarrow> 'u client \<Rightarrow> objkey \<Rightarrow>
     (floxenv \<Rightarrow> floxenv \<Rightarrow> bool) \<Rightarrow> cluster \<Rightarrow> bool" where
  "cluster_ok L R P C N D kc Q c \<longleftrightarrow> gate_reaches C False (cl_gate c) \<and> catalog_reaches (lib_meta L) N P D kc (cl_catalog c) \<and>
     (\<forall>k. agent_reaches L R P k Q True (cl_agents c k)) \<and>
     (\<forall>k. arriving (cl_gate c) k = on_server (cl_agents c k)) \<and>
     (\<forall>k. envs_on_server (cl_catalog c) k = on_server (cl_agents c k))"

lemma agent_acts_ok:
  assumes ok: "cluster_ok L R P C N D kc Q c" and step: "agent_step L R P k Q True (cl_agents c k) t"
    and keeps: "keeps_stamp (on_server (cl_agents c k)) (on_server t)" "\<forall>v \<in> set (stored_since (cl_agents c k) t). env_key v = k"
  shows "cluster_ok L R P C N D kc Q (c\<lparr> cl_agents := (cl_agents c)(k := t),
    cl_gate := tell_gate k (stored_since (cl_agents c k) t) (cl_gate c),
    cl_catalog := tell_catalog k (stored_since (cl_agents c k) t) (cl_catalog c) \<rparr>)"
proof -
  let ?vs = "stored_since (cl_agents c k) t"
  have "catalog_reaches (lib_meta L) N P D kc (tell_catalog k ?vs (cl_catalog c))"
  proof (cases ?vs)
    case Nil
    then show ?thesis using ok by (simp add: cluster_ok_def tell_catalog_def)
  next
    case (Cons v vs)
    then have vs: "?vs = [v]" using stored_since_append(2) [OF step] by simp
    then have "keeps_stamp (envs_on_server (cl_catalog c) k) (Some v)"
      using keeps(1) on_server_step [OF step] ok by (simp add: cluster_ok_def)
    then show ?thesis using ok keeps(2) unfolding vs by (intro catalog_told) (simp_all add: cluster_ok_def)
  qed
  moreover have "agent_reaches L R P k Q True t"
    using ok agent_moved [OF _ step] by (simp add: cluster_ok_def)
  ultimately show ?thesis
    using ok on_server_step [OF step] by (auto simp: cluster_ok_def gate_told arriving_told envs_on_server_told)
qed

lemma catalog_stamps_ok:
  assumes ok: "cluster_ok L R P C N D kc Q c" and step: "catalog_step (lib_meta L) N P D kc (cl_catalog c) s"
    and ev: "cg_env_events s = cg_env_events (cl_catalog c) @ [(k, Some v, True)]" and stamps: "\<And>e r. Q e (with_relock r e)"
  shows "cluster_ok L R P C N D kc Q (c\<lparr> cl_catalog := s, cl_gate := tell_gate k [v] (cl_gate c),
    cl_agents := (cl_agents c)(k := stamped_loop v (cl_agents c k)) \<rparr>)"
proof -
  obtain r cur where v: "envs_on_server (cl_catalog c) k = Some cur" "v = with_relock r cur"
    by (rule stamp_of_server [OF step ev])
  then have vs: "lo_versions (cl_agents c k) \<noteq> []" "last (lo_versions (cl_agents c k)) = cur"
    using ok by (auto simp: cluster_ok_def on_server_def split: if_splits)
  have "agent_reaches L R P k Q True (stamped_loop v (cl_agents c k))"
    unfolding stamped_loop_def
    by (rule agent_moved [OF _ env_changed [OF vs(1)]]) (use ok stamps in \<open>simp_all add: cluster_ok_def vs(2) v(2)\<close>)
  moreover have "envs_on_server s = (envs_on_server (cl_catalog c))(k \<mapsto> v)"
  proof -
    have "cg_envs s = cg_envs (cl_catalog c)"
      using step ev by (cases rule: catalog_step.cases) auto
    then show ?thesis by (simp add: envs_on_server_def ev)
  qed
  moreover have "catalog_reaches (lib_meta L) N P D kc s" using ok catalog_moved [OF _ step] by (simp add: cluster_ok_def)
  moreover have "on_server (stamped_loop v (cl_agents c k)) = Some v" by (simp add: on_server_def stamped_loop_def)
  ultimately show ?thesis using ok by (simp add: cluster_ok_def gate_told arriving_told)
qed

lemma cluster_runs_ok:
  assumes "cluster_reaches L R P C N D kc Q c" "\<And>e r. Q e (with_relock r e)"
  shows "cluster_ok L R P C N D kc Q c"
  using assms(1)
proof (induction rule: cluster_reaches.induct)
  case cluster_started
  have "arriving gate_idle k = on_server loop_start" "envs_on_server catalog_idle k = on_server loop_start" for k
    by (simp_all add: arriving_def on_server_def gate_idle_def loop_start_def envs_on_server_def catalog_idle_def)
  then show ?case by (simp add: cluster_ok_def cluster_start_def gate_started catalog_started agent_started)
next
  case (cluster_moved c c')
  from cluster_moved.hyps(2) show ?case
  proof (cases rule: cluster_step.cases)
    case (gate_acts g)
    then show ?thesis
      using cluster_moved.IH arriving_gate_step [OF gate_acts(2,3)] gate_moved [OF _ gate_acts(2)] by (simp add: cluster_ok_def)
  next
    case (catalog_acts s)
    then show ?thesis
      using cluster_moved.IH envs_on_server_step [OF catalog_acts(2,3)] catalog_moved [OF _ catalog_acts(2)]
      by (simp add: cluster_ok_def)
  next
    case (catalog_stamps s k v)
    then show ?thesis using catalog_stamps_ok [OF cluster_moved.IH _ _ assms(2)] by simp
  next
    case (agent_acts k t)
    then show ?thesis using agent_acts_ok [OF cluster_moved.IH] by simp
  qed
qed

subsection \<open>The promises\<close>

lemma rest_cache:
  assumes "at_rest s"
  shows "lo_cache s = on_server s"
  using assms by (auto simp: at_rest_def lo_cache_def on_server_def last_conv_nth)

lemma settled_ready: "alreadyRealized R e \<Longrightarrow> realised_on (er_node_name R) e"
  by (auto simp: settled_iff realised_on_def own_entries_def list_ex_iff)

lemma cluster_settled:
  assumes "cluster_ok L R P C N D kc (leaves_alone R) c" "at_rest (cl_agents c k)" "on_server (cl_agents c k) = Some e"
    and "meta_laws (lib_meta L)" "predicate_laws P"
  shows "alreadyRealized R e"
proof -
  have "lo_cache (cl_agents c k) = Some e" using assms(2,3) by (simp add: rest_cache)
  then show ?thesis using rest_settled [OF _ assms(2) _ assms(4,5)] assms(1) by (auto simp: cluster_ok_def)
qed

text \<open>
  C5: A pod waits only for an env that does not exist. When gate and agent have come to rest, a pod that is
  still gated names an env of which the server has no FloxEnv; in other words, a pod whose envs all exist
  has been released. The loops of the gate, of a catalog and of a node's agent may interleave in any way
  and see the writes of the others and of everybody else as late as they like; assumed of the run is that
  others leave the entry of this node and honoured tokens alone (\<open>leaves_alone\<close>), that no pass starts from
  a cache that is behind its own loop's writes, and that no listing of a map function fails. Each of the
  three is needed: \<open>lost_entry_is_not_rebuilt\<close>, \<open>stale_read_is_final\<close>, \<open>failed_listing_forgets_pod\<close>.
\<close>

theorem pod_waits_only_for_missing_env:
  assumes "cluster_reaches L R P C N D kc (leaves_alone R) c" "nothing_left (cl_gate c)" "\<And>k. at_rest (cl_agents c k)"
    and "gg_pods (cl_gate c) k = Some p" "hasGate p"
    and "meta_laws (lib_meta L)" "predicate_laws P"
  shows "\<exists>ref \<in> set (RefsFromAnnotations (pd_annotations p)).
    \<forall>k' e. on_server (cl_agents c k') = Some e \<longrightarrow> \<not> matches_ref ref e"
proof -
  have ok: "cluster_ok L R P C N D kc (leaves_alone R) c" by (rule cluster_runs_ok [OF assms(1) stamp_leaves_alone])
  have seen: "gg_envs (cl_gate c) k' = on_server (cl_agents c k')" for k'
    using ok assms(2) by (simp add: cluster_ok_def arriving_def nothing_left_def)
  have "realised_on (er_node_name R) e" if "e \<in> ran (gg_envs (cl_gate c))" for e
    using that cluster_settled [OF ok assms(3) _ assms(6,7)] settled_ready by (auto simp: ran_def seen)
  moreover have "\<not> could_release (ran (gg_envs (cl_gate c))) p"
    using rest_waits [where C = C, OF _ assms(2,4)] ok by (simp add: cluster_ok_def)
  ultimately obtain ref where "ref \<in> set (RefsFromAnnotations (pd_annotations p))"
      "\<forall>e \<in> ran (gg_envs (cl_gate c)). \<not> matches_ref ref e"
    using assms(5) unfolding could_release_def surely_served_def pod_refs_def by blast
  then show ?thesis by (auto simp: ran_def seen)
qed

text \<open>A run of the cluster with the passes its agents have finished, by env.\<close>

inductive cluster_runs ::
  "libs \<Rightarrow> 'w env_reconciler \<Rightarrow> predicates \<Rightarrow> 'v client \<Rightarrow> net_libs \<Rightarrow> 'u client \<Rightarrow> objkey \<Rightarrow>
     (floxenv \<Rightarrow> floxenv \<Rightarrow> bool) \<Rightarrow> (objkey \<Rightarrow> event list list) \<Rightarrow> cluster \<Rightarrow> bool"
  for L R P C N D kc Q where
  cluster_runs_start: "cluster_runs L R P C N D kc Q (\<lambda>_. []) cluster_start"
| cluster_runs_on: "cluster_runs L R P C N D kc Q logs c \<Longrightarrow> cluster_step L R P C N D kc Q c c' \<Longrightarrow>
    cluster_runs L R P C N D kc Q (\<lambda>k. log_after (cl_agents c k) (cl_agents c' k) (logs k)) c'"

lemma cluster_runs_reaches: "cluster_runs L R P C N D kc Q logs c \<Longrightarrow> cluster_reaches L R P C N D kc Q c"
  by (induction rule: cluster_runs.induct) (auto intro: cluster_started cluster_moved)

lemma cluster_reaches_runs: "cluster_reaches L R P C N D kc Q c \<Longrightarrow> \<exists>logs. cluster_runs L R P C N D kc Q logs c"
  by (induction rule: cluster_reaches.induct) (blast intro: cluster_runs_start cluster_runs_on)+

lemma log_after_same [simp]: "lo_busy t = lo_busy s \<Longrightarrow> log_after s t log = log"
  by (simp add: log_after_def split: option.split)

lemma cluster_agent_runs:
  assumes "cluster_runs L R P C N D kc Q logs c" "\<And>e r. Q e (with_relock r e)"
  shows "agent_runs L R P k Q True (logs k) (cl_agents c k)"
  using assms(1)
proof (induction rule: cluster_runs.induct)
  case cluster_runs_start
  show ?case by (simp add: cluster_start_def runs_started)
next
  case (cluster_runs_on logs c c')
  have ok: "cluster_ok L R P C N D kc Q c"
    by (rule cluster_runs_ok [OF cluster_runs_reaches [OF cluster_runs_on.hyps(1)] assms(2)])
  from cluster_runs_on.hyps(2) show ?case
  proof (cases rule: cluster_step.cases)
    case (catalog_stamps s k' v)
    obtain r cur where v: "envs_on_server (cl_catalog c) k' = Some cur" "v = with_relock r cur"
      by (rule stamp_of_server [OF catalog_stamps(2,3)])
    then have vs: "lo_versions (cl_agents c k') \<noteq> []" "last (lo_versions (cl_agents c k')) = cur"
      using ok by (auto simp: cluster_ok_def on_server_def split: if_splits)
    have "agent_step L R P k' Q True (cl_agents c k') (stamped_loop v (cl_agents c k'))"
      unfolding stamped_loop_def by (rule env_changed [OF vs(1)]) (simp add: vs(2) v(2) assms(2))
    then show ?thesis
      using runs_moved [OF cluster_runs_on.IH, of "stamped_loop v (cl_agents c k)"] cluster_runs_on.IH
      by (cases "k = k'") (simp_all add: catalog_stamps(1) stamped_loop_def)
  next
    case (agent_acts k' t)
    then show ?thesis
      using runs_moved [OF cluster_runs_on.IH, of t] cluster_runs_on.IH by (cases "k = k'") simp_all
  qed (use cluster_runs_on.IH in simp_all)
qed

lemma cluster_built:
  assumes run: "cluster_runs L R P C N D kc (spares R True) logs c" and rest: "at_rest (cl_agents c k)"
    and e: "on_server (cl_agents c k) = Some e" and born: "own_entries R (hd (lo_versions (cl_agents c k))) = []"
    and M: "meta_laws (lib_meta L)" "predicate_laws P"
  shows "alreadyRealized R e \<and> (\<exists>e0 evs. evs \<in> set (logs k) \<and> built_from L R k e0 e evs \<and> relock_of e0 = relock_of e \<and>
    (unraced e0 evs \<longrightarrow> fe_spec e0 = fe_spec e))"
proof -
  have "lo_cache (cl_agents c k) = Some e" using rest e by (simp add: rest_cache)
  from rest_built [OF cluster_agent_runs [OF run stamp_spares] rest this born M] show ?thesis by blast
qed

text \<open>
  C6: An advance is realised. When catalog and agent have come to rest, the source of the catalog has an
  artifact, and if that has a revision every FloxEnv of the namespace is settled under it: a pass of the run
  read the env stamped with the revision, asked the node to realise what it read, succeeded, and its
  result is the entry of the node; and what it read is the env's current spec, unless the spec was edited
  between that read and the Realizing write of the pass. Assumed of the run: the namespace has one catalog
  and nobody else sets the stamp; no other agent writes the entry of this node or honours a stamp of these
  envs (\<open>spares R True\<close>); the envs were created without an entry of the node; no pass starts from a cache
  that is behind its own loop's writes; and no listing of a map function fails.
\<close>

theorem advance_is_honoured:
  assumes "cluster_runs L R P C N D kc (spares R True) logs c" "catalog_at_rest (cl_catalog c)" "\<And>k. at_rest (cl_agents c k)"
    and "cg_catalog (cl_catalog c) = Some fc"
    and "\<And>k. on_server (cl_agents c k) \<noteq> None \<Longrightarrow>
      filter (\<lambda>nr. nr_node nr = er_node_name R) (st_realized (fe_status (hd (lo_versions (cl_agents c k))))) = []"
    and "meta_laws (lib_meta L)" "predicate_laws P"
  shows "\<exists>obj. cg_sources (cl_catalog c) (source_key fc) = Some obj \<and>
    NestedString N obj [''status'', ''artifact'', ''url''] \<noteq> [] \<and>
    (NestedString N obj [''status'', ''artifact'', ''revision''] \<noteq> [] \<longrightarrow>
      (\<forall>k e. on_server (cl_agents c k) = Some e \<and> key_namespace k = key_namespace kc \<longrightarrow> alreadyRealized R e \<and>
         (\<exists>e0 evs. evs \<in> set (logs k) \<and> built_from L R k e0 e evs \<and>
            map_get (fe_annotations e0) relockAnnotation = NestedString N obj [''status'', ''artifact'', ''revision''] \<and>
            (unraced e0 evs \<longrightarrow> fe_spec e0 = fe_spec e))))"
proof -
  have ok: "cluster_ok L R P C N D kc (spares R True) c"
    by (rule cluster_runs_ok [OF cluster_runs_reaches [OF assms(1)] stamp_spares])
  have seen: "cg_envs (cl_catalog c) k = on_server (cl_agents c k)" for k
    using ok assms(2) by (simp add: cluster_ok_def envs_on_server_def catalog_at_rest_def)
  have "catalog_reaches (lib_meta L) N P D kc (cl_catalog c)" using ok by (simp add: cluster_ok_def)
  from rest_content [OF this assms(2,4,7)] obtain obj where obj: "cg_sources (cl_catalog c) (source_key fc) = Some obj"
      "artifact_url N obj \<noteq> []" "artifact_revision N obj \<noteq> [] \<longrightarrow> (\<forall>k e. on_server (cl_agents c k) = Some e \<longrightarrow>
        key_namespace k = key_namespace kc \<longrightarrow> relock_of e = artifact_revision N obj)"
    by (auto simp: seen)
  have "alreadyRealized R e \<and> (\<exists>e0 evs. evs \<in> set (logs k) \<and> built_from L R k e0 e evs \<and>
      relock_of e0 = artifact_revision N obj \<and> (unraced e0 evs \<longrightarrow> fe_spec e0 = fe_spec e))"
    if "artifact_revision N obj \<noteq> []" "on_server (cl_agents c k) = Some e \<and> key_namespace k = key_namespace kc" for k e
  proof -
    have "own_entries R (hd (lo_versions (cl_agents c k))) = []" using that(2) assms(5) [of k] by (simp add: own_entries_def)
    moreover have "relock_of e = artifact_revision N obj" using obj(3) that by blast
    ultimately show ?thesis using cluster_built [OF assms(1) assms(3) _ _ assms(6,7), of k e] that(2) by simp
  qed
  with obj(1,2) show ?thesis unfolding artifact_url_def artifact_revision_def relock_of_def by blast
qed

subsection \<open>Runs of the cluster\<close>

text \<open>What the loops can do alone they can do in the cluster.\<close>

lemma cluster_gate_closed:
  assumes "\<And>g. c' g = c\<lparr> cl_gate := g \<rparr>"
  shows "gate_closed C False (\<lambda>g. cluster_reaches L R P C N D kc Q (c' g))"
  unfolding gate_closed_def assms
  using cluster_moved [OF _ gate_acts [where c = "c\<lparr> cl_gate := _ \<rparr>"]] by fastforce

lemma cluster_catalog_closed: "catalog_closed (lib_meta L) N P D kc (\<lambda>s. cluster_reaches L R P C N D kc Q (c\<lparr> cl_catalog := s \<rparr>))"
  unfolding catalog_closed_def
  using cluster_moved [OF _ catalog_acts [where c = "c\<lparr> cl_catalog := _ \<rparr>"]] by fastforce

definition with_agent :: "cluster \<Rightarrow> objkey \<Rightarrow> agent_loop \<Rightarrow> floxenv list \<Rightarrow> cluster" where
  "with_agent c k t vs = c\<lparr> cl_agents := (cl_agents c)(k := t), cl_gate := tell_gate k vs (cl_gate c),
     cl_catalog := tell_catalog k vs (cl_catalog c) \<rparr>"

definition plain_versions :: "objkey \<Rightarrow> string \<Rightarrow> floxenv list \<Rightarrow> bool" where
  "plain_versions k r vs \<longleftrightarrow> (\<forall>v \<in> set vs. env_key v = k \<and> relock_of v = r)"

definition agent_part :: "(cluster \<Rightarrow> bool) \<Rightarrow> cluster \<Rightarrow> objkey \<Rightarrow> string \<Rightarrow> agent_loop \<Rightarrow> bool" where
  "agent_part reach c k r t \<longleftrightarrow> (\<exists>vs. lo_versions t = lo_versions (cl_agents c k) @ vs \<and>
     (plain_versions k r vs \<longrightarrow> reach (with_agent c k t vs)))"

lemma agent_part_start:
  assumes "reach c"
  shows "agent_part reach c k r (cl_agents c k)"
proof -
  have "with_agent c k (cl_agents c k) [] = c" by (simp add: with_agent_def tell_gate_def tell_catalog_def)
  then show ?thesis using assms by (simp add: agent_part_def plain_versions_def)
qed

lemma cluster_agent_closed:
  assumes base: "lo_versions (cl_agents c k) \<noteq> [] \<Longrightarrow> relock_of (last (lo_versions (cl_agents c k))) = r"
  shows "agent_closed L R P k Q True (agent_part (cluster_reaches L R P C N D kc Q) c k r)"
  unfolding agent_closed_def
proof (intro allI impI)
  fix s t assume A: "agent_part (cluster_reaches L R P C N D kc Q) c k r s" and step: "agent_step L R P k Q True s t"
  obtain vs where vs: "lo_versions s = lo_versions (cl_agents c k) @ vs"
      "plain_versions k r vs \<Longrightarrow> cluster_reaches L R P C N D kc Q (with_agent c k s vs)"
    using A by (auto simp: agent_part_def)
  let ?new = "stored_since s t"
  have "cluster_reaches L R P C N D kc Q (with_agent c k t (vs @ ?new))" if plain: "plain_versions k r (vs @ ?new)"
  proof -
    have "keeps_stamp (on_server s) (on_server t)"
      using base plain vs(1) on_server_step [OF step]
      by (cases "?new = []"; cases "vs = []") (auto simp: keeps_stamp_def on_server_def plain_versions_def)
    moreover have "\<forall>v \<in> set ?new. env_key v = k" using plain by (simp add: plain_versions_def)
    moreover have "cluster_reaches L R P C N D kc Q (with_agent c k s vs)" by (rule vs(2)) (use plain in \<open>simp add: plain_versions_def\<close>)
    moreover have "cl_agents (with_agent c k s vs) k = s" by (simp add: with_agent_def)
    ultimately have "cluster_reaches L R P C N D kc Q ((with_agent c k s vs)\<lparr> cl_agents := (cl_agents (with_agent c k s vs))(k := t),
        cl_gate := tell_gate k ?new (cl_gate (with_agent c k s vs)),
        cl_catalog := tell_catalog k ?new (cl_catalog (with_agent c k s vs)) \<rparr>)"
      using cluster_moved [OF _ agent_acts [of L R P k Q "with_agent c k s vs" t]] step by simp
    then show ?thesis by (simp add: with_agent_def tell_gate_def tell_catalog_def del: fun_upd_apply)
  qed
  moreover have "lo_versions t = lo_versions (cl_agents c k) @ vs @ ?new" using vs(1) stored_since_append(1) [OF step] by simp
  ultimately show "agent_part (cluster_reaches L R P C N D kc Q) c k r t" unfolding agent_part_def by blast
qed

lemma agent_partD:
  "agent_part reach c k r t \<Longrightarrow> lo_versions t = lo_versions (cl_agents c k) @ vs \<Longrightarrow> plain_versions k r vs \<Longrightarrow> reach (with_agent c k t vs)"
  by (auto simp: agent_part_def)

text \<open>The first life of the env \<open>web\<close> in the cluster.\<close>

lemma web_versions:
  "plain_versions web [] [pinned_env ''web'', marked_web, realized_web]" "plain_versions web ''r2'' [marked_again, realized_again]"
  by (auto simp: plain_versions_def web_defs again_defs go_defs relock_of_def with_relock_def relockAnnotation_def)

lemma web_lives:
  assumes "cl_agents c web = loop_start" "cluster_reaches store_libs agent update_predicates C N D kc Q c"
  shows "cluster_reaches store_libs agent update_predicates C N D kc Q
    (with_agent c web settled_loop [pinned_env ''web'', marked_web, realized_web])"
proof (rule agent_partD [OF settled_loop_reached])
  show "agent_closed store_libs agent update_predicates web Q True
      (agent_part (cluster_reaches store_libs agent update_predicates C N D kc Q) c web [])"
    by (rule cluster_agent_closed) (simp add: assms(1) loop_start_def)
  show "agent_part (cluster_reaches store_libs agent update_predicates C N D kc Q) c web [] loop_start"
    unfolding assms(1) [symmetric] by (rule agent_part_start) (rule assms(2))
  show "outcome_of (FloxEnv_Reconcile store_libs agent web) (store_of [pinned_env ''web'']) = (done_result, None)"
    by (simp add: outcome_of_def pinned_run)
qed (simp_all add: update_predicate_laws assms(1) loop_start_def settled_loop_def web_versions)

text \<open>The gate sees what has happened, when no pod is there yet.\<close>

lemma gate_sees_all:
  assumes closed: "gate_closed C lossy Q"
    and "Q (gate_idle\<lparr> gg_envs := E, gg_env_events := map (\<lambda>v. (k, Some v)) vs, gg_changed := ch \<rparr>)"
  shows "\<exists>ch. Q (gate_idle\<lparr> gg_envs := (if vs = [] then E else E(k \<mapsto> last vs)), gg_changed := ch \<rparr>)"
  using assms(2)
proof (induction vs arbitrary: E ch)
  case Nil
  then show ?case by (auto simp: gate_idle_def)
next
  case (Cons v vs)
  from gate_closedD [OF closed Cons.prems gate_step.env_seen [of _ k "Some v"]]
  have "Q (gate_idle\<lparr> gg_envs := E(k \<mapsto> v), gg_env_events := map (\<lambda>v. (k, Some v)) vs,
      gg_changed := ch @ event_objects (E k) (Some v) \<rparr>)"
    by (simp add: gate_idle_def)
  from Cons.IH [OF this] show ?case by (cases "vs = []") auto
qed

lemma gate_maps_all:
  assumes closed: "gate_closed store_client lossy Q"
    and "Q (gate_idle\<lparr> gg_envs := E, gg_changed := ch \<rparr>)"
  shows "Q (gate_idle\<lparr> gg_envs := E \<rparr>)"
  using assms(2)
proof (induction ch)
  case Nil
  then show ?case by (simp add: gate_idle_def)
next
  case (Cons e ch)
  have "trace_of (gatedPodsForEnv store_client e) (store_of []) = [ListPods (Inr [])]"
      "outcome_of (gatedPodsForEnv store_client e) (store_of []) = []"
    by (simp_all add: gatedPodsForEnv_def go_defs)
  with gate_closedD [OF closed Cons.prems gate_step.env_mapped [of _ e ch store_client "store_of []" "[]"]]
  have "Q (gate_idle\<lparr> gg_envs := E, gg_changed := ch \<rparr>)" by (simp add: gate_idle_def)
  then show ?case by (rule Cons.IH)
qed

text \<open>A pod that uses the env \<open>web\<close>, which is realised, and an env nobody has made.\<close>

definition hopeful_pod :: pod where
  "hopeful_pod = gated_pod\<lparr> pd_meta := (pd_meta gated_pod)\<lparr> om_annotations :=
     [(''flox.seedmatic.io/environment.app'', ''ns/web''), (''flox.seedmatic.io/environment.side'', ''ns/nowhere'')] \<rparr> \<rparr>"

definition hopeful_store :: store where
  "hopeful_store = \<lparr> so_envs = [realized_web], so_catalogs = [], so_workloads = [], so_pods = [hopeful_pod] \<rparr>"

definition hopeful_cluster :: cluster where
  "hopeful_cluster = (with_agent cluster_start web settled_loop [pinned_env ''web'', marked_web, realized_web])\<lparr> cl_gate :=
     gate_idle\<lparr> gg_envs := (\<lambda>_. None)(web \<mapsto> realized_web), gg_pods := (\<lambda>_. None)(pod_p := Some hopeful_pod) \<rparr> \<rparr>"

lemma hopeful_pod_facts: "hasGate hopeful_pod" "pod_key hopeful_pod = pod_p"
  using gated_pod_facts by (simp_all add: hopeful_pod_def hasGate_def pod_key_def)

lemma hopeful_refs:
  "RefsFromAnnotations (pd_annotations hopeful_pod) = [EnvRef ''ns'' ''nowhere'', EnvRef ''ns'' ''web'']"
  by (simp add: hopeful_pod_def RefsFromAnnotations_def AnnotationPrefix_def HasPrefix_def ref_of_value_def
      less_eq_env_ref_def less_env_ref_def)

lemma nowhere_unmatched: "\<not> matches_ref (EnvRef ''ns'' ''nowhere'') realized_web"
  by (simp add: matches_ref_def web_defs go_defs)

lemma hopeful_run:
  "trace_of (PodGate_Reconcile store_client pod_p) hopeful_store =
     [GetPod pod_p (Inr hopeful_pod), ListFloxEnvs None (Inr [realized_web])] \<and>
   outcome_of (PodGate_Reconcile store_client pod_p) hopeful_store = (done_result, None)"
  using hopeful_pod_facts nowhere_unmatched
  by (simp add: PodGate_Reconcile_def go_defs hopeful_store_def hopeful_refs resolveFloxEnv_def pod_key_def)

abbreviation sample_reaches :: "(floxenv \<Rightarrow> floxenv \<Rightarrow> bool) \<Rightarrow> cluster \<Rightarrow> bool" where
  "sample_reaches \<equiv> cluster_reaches store_libs agent update_predicates store_client sample_net sourced_client tools"

lemma hopeful_cluster_reached: "sample_reaches Q hopeful_cluster"
proof -
  let ?vs = "[pinned_env ''web'', marked_web, realized_web]"
  let ?c = "with_agent cluster_start web settled_loop ?vs" and ?E = "(\<lambda>_. None)(web \<mapsto> realized_web)"
  define G where "G g = sample_reaches Q (?c\<lparr> cl_gate := g \<rparr>)" for g
  have step: "gate_closed store_client False G" unfolding G_def by (rule cluster_gate_closed) (rule refl)
  have "sample_reaches Q ?c" by (rule web_lives [OF _ cluster_started]) (simp add: cluster_start_def)
  then have "G (gate_idle\<lparr> gg_envs := \<lambda>_. None, gg_env_events := map (\<lambda>v. (web, Some v)) ?vs, gg_changed := [] \<rparr>)"
    by (simp add: G_def gate_idle_def with_agent_def cluster_start_def tell_gate_def del: fun_upd_apply)
  from gate_sees_all [OF step this] obtain ch where "G (gate_idle\<lparr> gg_envs := ?E, gg_changed := ch \<rparr>)" by auto
  from gate_maps_all [OF step this] have "G (gate_idle\<lparr> gg_envs := ?E \<rparr>)" .
  moreover have "set [realized_web] = ran ?E" by simp
  ultimately have "G (gate_idle\<lparr> gg_envs := ?E, gg_pods := (\<lambda>_. None)(pod_p := Some hopeful_pod) \<rparr>)"
    by (rule pod_comes_and_waits [OF step _ hopeful_pod_facts _ hopeful_run [THEN conjunct1] hopeful_run [THEN conjunct2]])
  then show ?thesis unfolding G_def hopeful_cluster_def .
qed

theorem pod_waits_only_for_missing_env_witness:
  "\<exists>ref \<in> {EnvRef ''ns'' ''nowhere'', EnvRef ''ns'' ''web''}.
    \<forall>k e. on_server (cl_agents hopeful_cluster k) = Some e \<longrightarrow> \<not> matches_ref ref e"
proof -
  have "nothing_left (cl_gate hopeful_cluster)" by (simp add: hopeful_cluster_def nothing_left_def gate_idle_def)
  moreover have "at_rest (cl_agents hopeful_cluster k)" for k
    by (simp add: hopeful_cluster_def with_agent_def cluster_start_def at_rest_def settled_loop_def loop_start_def)
  moreover have "gg_pods (cl_gate hopeful_cluster) pod_p = Some hopeful_pod" by (simp add: hopeful_cluster_def)
  ultimately have "\<exists>ref \<in> set (RefsFromAnnotations (pd_annotations hopeful_pod)).
      \<forall>k e. on_server (cl_agents hopeful_cluster k) = Some e \<longrightarrow> \<not> matches_ref ref e"
    by (intro pod_waits_only_for_missing_env [OF hopeful_cluster_reached _ _ _ _ store_meta_laws update_predicate_laws])
      (simp_all add: hopeful_pod_facts)
  then show ?thesis by (simp only: hopeful_refs list.set)
qed

text \<open>
  An advance. The env \<open>web\<close> is realised; then a catalog appears, resolves its source at \<open>r2\<close> and stamps the
  env; the agent realises it anew; the catalog is woken by the env's readiness and finds its work done.
\<close>

definition src_key :: objkey where "src_key = ObjKey ''ns'' ''src''"

definition web_catalog :: "floxcatalog \<Rightarrow> floxenv \<Rightarrow> floxcatalog" where
  "web_catalog cat e = resolved_catalog list_meta cat ''r2'' ''http://src:9090/a.tgz'' ''tarball+http://10.0.0.1:9090/a.tgz''
     (rollup_of list_meta (Inr [e]))"

definition web_requests :: "floxcatalog \<Rightarrow> floxenv \<Rightarrow> event list" where
  "web_requests cat e = [GetFloxCatalog tools (Inr cat), GetSource src_key (Inr r2_source),
     LookupHost ''src'' (Inr [''10.0.0.1'']), ListFloxEnvs (Some ''ns'') (Inr [e]),
     PatchFloxCatalogStatus cat (web_catalog cat e) (Inr (web_catalog cat e)), ListFloxEnvs (Some ''ns'') (Inr [e])]"

definition world_of :: "floxcatalog \<Rightarrow> floxenv \<Rightarrow> store" where
  "world_of cat e = \<lparr> so_envs = [e], so_catalogs = [cat], so_workloads = [], so_pods = [] \<rparr>"

lemma resolved_catalog_fields:
  "fc_meta (resolved_catalog M c r u f x) = fc_meta c" "fc_spec (resolved_catalog M c r u f x) = fc_spec c"
  "(resolved_catalog M c r u f x)\<lparr> fc_status := y \<rparr> = c\<lparr> fc_status := y \<rparr>"
  by (simp_all add: resolved_catalog_def catalog_ready_def)

lemma web_catalog_run:
  assumes "fc_meta cat = fc_meta tools_catalog" "fc_spec cat = fc_spec tools_catalog" "fe_namespace e = ''ns''"
  shows "trace_of (FloxCatalog_Reconcile list_meta sample_net sourced_client tools) (world_of cat e) =
      web_requests cat e @ (if relock_of e = ''r2'' then [] else [PatchFloxEnv e (with_relock ''r2'' e) None])"
    "outcome_of (FloxCatalog_Reconcile list_meta sample_net sourced_client tools) (world_of cat e) = (done_result, None)"
  using assms
  by (simp_all add: FloxCatalog_Reconcile_def notReady_def nodeReachableURL_def envsRollup_def propagateRelock_def source_key_def
      flake_ref_of_def Hostname_def Port_def splitHostPort_def validOptionalPort_def is_digit_def reach_host_def JoinHostPort_def
      HasPrefix_def HasSuffix_def sample_net_def r2_source_def sourced_client_def world_of_def web_requests_def web_catalog_def
      rollup_of_def src_key_def relock_of_def resolved_catalog_fields go_defs del: rollup_loop.simps)

text \<open>The catalog's loop between its passes.\<close>

definition calm :: "floxcatalog \<Rightarrow> floxenv \<Rightarrow> catalog_loop" where
  "calm cat e = catalog_idle\<lparr> cg_catalog := Some cat, cg_sources := (\<lambda>_. None)(src_key \<mapsto> r2_source),
     cg_envs := (\<lambda>_. None)(web \<mapsto> e) \<rparr>"

lemma catalog_sees_all:
  assumes closed: "catalog_closed M N P C k A"
    and "A (s\<lparr> cg_env_events := map (\<lambda>v. (ek, Some v, False)) vs, cg_changed_envs := ch \<rparr>)"
    and "\<forall>e \<in> set ch. fe_namespace e = ns" "\<forall>v \<in> set vs. fe_namespace v = ns"
    and "\<And>e. cg_envs s ek = Some e \<Longrightarrow> fe_namespace e = ns"
  shows "\<exists>ch. (\<forall>e \<in> set ch. fe_namespace e = ns) \<and>
    A (s\<lparr> cg_envs := (if vs = [] then cg_envs s else (cg_envs s)(ek \<mapsto> last vs)), cg_env_events := [], cg_changed_envs := ch \<rparr>)"
  using assms(2-)
proof (induction vs arbitrary: s ch)
  case Nil
  then show ?case by auto
next
  case (Cons v vs)
  let ?ch = "ch @ readiness_objects M (cg_envs s ek) (Some v)"
  let ?s = "s\<lparr> cg_envs := (cg_envs s)(ek \<mapsto> v) \<rparr>"
  have "A (?s\<lparr> cg_env_events := map (\<lambda>v. (ek, Some v, False)) vs, cg_changed_envs := ?ch \<rparr>)"
    using catalog_closedD [OF closed Cons.prems(1) catalog_step.env_seen [of _ ek "Some v" False]] by simp
  moreover have "\<forall>e \<in> set ?ch. fe_namespace e = ns"
    using Cons.prems(2-4) by (cases "cg_envs s ek") (auto simp: readiness_objects_def)
  ultimately obtain ch' where "\<forall>e \<in> set ch'. fe_namespace e = ns"
      "A (?s\<lparr> cg_envs := (if vs = [] then cg_envs ?s else (cg_envs ?s)(ek \<mapsto> last vs)), cg_env_events := [], cg_changed_envs := ch' \<rparr>)"
    using Cons.IH [where s = ?s and ch = ?ch] Cons.prems(3) by auto
  then show ?case by (cases "vs = []") (auto simp del: fun_upd_apply intro!: exI [of _ ch'])
qed

lemma catalog_maps_all:
  assumes closed: "catalog_closed M N P sourced_client tools A"
    and "A (s\<lparr> cg_changed_envs := ch, cg_queued := q \<rparr>)" "\<forall>e \<in> set ch. fe_namespace e = ''ns''"
    and "\<And>c. cg_catalog s = Some c \<Longrightarrow> catalog_key c = tools"
  shows "\<exists>q'. A (s\<lparr> cg_changed_envs := [], cg_queued := q' \<rparr>) \<and> (cg_catalog s = None \<longrightarrow> q' = q)"
  using assms(2-)
proof (induction ch arbitrary: q)
  case Nil
  then show ?case by auto
next
  case (Cons e ch)
  let ?cs = "case cg_catalog s of None \<Rightarrow> [] | Some c \<Rightarrow> [c]"
  let ?w = "\<lparr> so_envs = [], so_catalogs = ?cs, so_workloads = [], so_pods = [] \<rparr>"
  have ns: "in_namespace (Some ''ns'') (om_namespace (fc_meta c))" if "cg_catalog s = Some c" for c
    using Cons.prems(3) [OF that] by (simp add: catalog_key_def in_namespace_def)
  have run: "trace_of (catalogsForEnv sourced_client e) ?w = [ListFloxCatalogs (Some (fe_namespace e)) (Inr ?cs)]"
      "outcome_of (catalogsForEnv sourced_client e) ?w = map catalog_key ?cs"
    using Cons.prems(2) ns
    by (cases "cg_catalog s"; simp add: catalogsForEnv_def list_catalogs_def sourced_client_def store_client_def run_of_defs)+
  have "A (s\<lparr> cg_changed_envs := ch, cg_queued := q \<or> tools \<in> set (map catalog_key ?cs) \<rparr>)"
    using catalog_closedD [OF closed Cons.prems(1) catalog_step.env_mapped [of _ e ch sourced_client ?w ?cs tools]]
      run Cons.prems by (auto split: option.splits)
  from Cons.IH [OF this] Cons.prems show ?case by auto
qed

text \<open>A pass of the catalog over a calm loop, up to the stamps.\<close>

definition asked :: "floxcatalog \<Rightarrow> floxenv \<Rightarrow> catalog_loop" where
  "asked cat e = (calm cat e)\<lparr> cg_catalog_events := [Some (web_catalog cat e)], cg_busy := Some (web_requests cat e) \<rparr>"

lemma catalog_asks:
  assumes closed: "catalog_closed list_meta sample_net P sourced_client tools A"
    and "A ((calm cat e)\<lparr> cg_queued := True \<rparr>)"
    and cat: "fc_meta cat = fc_meta tools_catalog" "fc_spec cat = fc_spec tools_catalog" "fe_namespace e = ''ns''"
  shows "A (asked cat e)"
proof -
  have stored: "\<exists>c0. Some cat = Some c0 \<and> web_catalog cat e = c0\<lparr> fc_status := fc_status (web_catalog cat e) \<rparr>"
    by (simp add: web_catalog_def resolved_catalog_def catalog_ready_def)
  have reads: "all_read tools ((calm cat e)\<lparr> cg_queued := False, cg_busy := Some [] \<rparr>) (web_requests cat e)"
    using cat(3) stored
    by (auto simp: web_requests_def do_request_def calm_def catalog_idle_def catalog_on_server_def)
  have "A (fold do_request (web_requests cat e) ((calm cat e)\<lparr> cg_queued := True, cg_queued := False, cg_busy := Some [] \<rparr>))"
    by (rule pass_reads [OF closed assms(2) _ _ _ web_catalog_run(1) [OF cat]]) (use reads in \<open>simp_all add: calm_def catalog_idle_def\<close>)
  then show ?thesis
    by (simp add: web_requests_def do_request_def calm_def catalog_idle_def asked_def)
qed

text \<open>After a pass that stamped nothing.\<close>

lemma catalog_settles:
  assumes closed: "catalog_closed list_meta sample_net P sourced_client tools A" and P: "predicate_laws P"
    and "A (asked cat e)"
    and cat: "fc_meta cat = fc_meta tools_catalog" "fc_spec cat = fc_spec tools_catalog" "fe_namespace e = ''ns''" "relock_of e = ''r2''"
  shows "A (calm (web_catalog cat e) e)"
proof -
  have "A ((asked cat e)\<lparr> cg_busy := None \<rparr>)"
    using catalog_closedD [OF closed assms(3) catalog_step.pass_ended [of _ "web_requests cat e" list_meta sample_net sourced_client tools "world_of cat e"]]
      web_catalog_run [OF cat(1-3)] cat(4) by (simp add: asked_def calm_def catalog_idle_def)
  from catalog_closedD [OF closed this catalog_step.catalog_seen [of _ "Some (web_catalog cat e)" "[]"]]
  show ?thesis
    by (simp add: asked_def calm_def catalog_idle_def catalog_woken_iff [OF P] web_catalog_def resolved_catalog_fields)
qed

text \<open>The catalog and its source appear.\<close>

lemma catalog_appears:
  assumes closed: "catalog_closed M N P sourced_client tools A" and P: "predicate_laws P"
    and "A (catalog_idle\<lparr> cg_envs := (\<lambda>_. None)(web \<mapsto> e) \<rparr>)"
  shows "A ((calm tools_catalog e)\<lparr> cg_queued := True \<rparr>)"
proof -
  let ?s = "catalog_idle\<lparr> cg_envs := (\<lambda>_. None)(web \<mapsto> e) \<rparr>" and ?cat = "Some tools_catalog" and ?src = "(\<lambda>_. None)(src_key \<mapsto> r2_source)"
  have key: "catalog_key tools_catalog = tools" "source_key tools_catalog = src_key"
    by (simp_all add: catalog_key_def source_key_def src_key_def object_defs)
  have "trace_of (catalogsForSource sourced_client src_key) (world_of tools_catalog e) = [ListFloxCatalogs None (Inr [tools_catalog])]"
      "outcome_of (catalogsForSource sourced_client src_key) (world_of tools_catalog e) = [tools]"
    by (simp_all add: catalogsForSource_def list_catalogs_def sourced_client_def store_client_def run_of_defs world_of_def
        in_namespace_def key)
  note mapped = catalog_step.source_mapped [OF _ this(1), of _ "[]" tools] this(2)
  from catalog_closedD [OF closed assms(3) catalog_step.catalog_written [of ?cat]]
  have "A (?s\<lparr> cg_catalog_events := [?cat] \<rparr>)"
    by (simp add: key catalog_idle_def versioned_def catalog_on_server_def)
  from catalog_closedD [OF closed this catalog_step.catalog_seen [of _ ?cat "[]"]]
  have "A (?s\<lparr> cg_catalog := ?cat, cg_queued := True \<rparr>)" by (simp add: catalog_idle_def catalog_woken_iff [OF P])
  from catalog_closedD [OF closed this catalog_step.source_written [of _ _ _ _ _ _ src_key "Some r2_source"]]
  have "A (?s\<lparr> cg_catalog := ?cat, cg_queued := True, cg_source_events := [(src_key, Some r2_source)] \<rparr>)"
    by (simp add: catalog_idle_def)
  from catalog_closedD [OF closed this catalog_step.source_seen [of _ src_key "Some r2_source" "[]"]]
  have seen: "A (?s\<lparr> cg_catalog := ?cat, cg_queued := True, cg_sources := ?src, cg_changed_sources := [src_key] \<rparr>)"
    by (simp add: catalog_idle_def source_objects_def)
  have "(c = tools_catalog \<and> catalog_key c = tools) = (tools_catalog = c)" for c using key(1) by auto
  with catalog_closedD [OF closed seen mapped(1)] show ?thesis by (simp add: catalog_idle_def calm_def key mapped(2))
qed

lemma stamped_run:
  "trace_of (FloxEnv_Reconcile store_libs agent web) (store_of [stamped_web]) =
     [GetFloxEnv web (Inr stamped_web), AcquireSlot None, PatchFloxEnvStatus stamped_web marked_again (Inr marked_again),
      Realize (30 * minute) (web_request\<lparr> rr_lock := [] \<rparr>) (Inr store_result),
      PatchFloxEnvStatus marked_again realized_again (Inr realized_again), ReleaseSlot] \<and>
   outcome_of (FloxEnv_Reconcile store_libs agent web) (store_of [stamped_web]) = (done_result, None)"
  by (simp add: go_defs web_defs again_defs with_relock_def realize_timeout_def defaultRealizeTimeout_def relockAnnotation_def)

definition second_life :: agent_loop where
  "second_life = \<lparr> lo_versions = lo_versions settled_loop @ [stamped_web, marked_again, realized_again], lo_seen = 6,
     lo_written = 6, lo_queued = False, lo_busy = None \<rparr>"

lemma stamped_life:
  assumes closed: "agent_closed store_libs agent update_predicates web Q True A"
    and "A (stamped_loop stamped_web settled_loop)"
  shows "A second_life"
proof -
  let ?vs = "[pinned_env ''web'', marked_web, realized_web, stamped_web]"
  have merges: "merge_env stamped_web marked_again stamped_web = marked_again"
      "merge_env marked_again realized_again marked_again = realized_again"
    by (simp_all add: go_defs web_defs again_defs with_relock_def)
  have same: "\<not> same_ask realized_web stamped_web" "same_ask stamped_web marked_again" "same_ask marked_again realized_again"
    using again_asks by (simp_all add: same_ask_def again_defs record_realized_fields)
  from seen_next [OF closed assms(2) update_predicate_laws]
  have "A \<lparr> lo_versions = ?vs, lo_seen = 4, lo_written = 3, lo_queued = True, lo_busy = None \<rparr>"
    by (simp add: stamped_loop_def settled_loop_def same numeral_nat)
  from agent_closedD [OF closed this agent_step.key_taken]
  have "A \<lparr> lo_versions = ?vs, lo_seen = 4, lo_written = 3, lo_queued = False, lo_busy = Some [] \<rparr>" by simp
  from pass_ends [OF closed this _ _ _ stamped_run [THEN conjunct2], of "[]" "trace_of (FloxEnv_Reconcile store_libs agent web) (store_of [stamped_web])"]
  have "A \<lparr> lo_versions = ?vs @ [marked_again, realized_again], lo_seen = 4, lo_written = 6, lo_queued = False, lo_busy = None \<rparr>"
    by (simp add: stamped_run do_event_def lo_cache_def merges numeral_nat)
  from seen_next [OF closed this update_predicate_laws]
  have "A \<lparr> lo_versions = ?vs @ [marked_again, realized_again], lo_seen = 5, lo_written = 6, lo_queued = False, lo_busy = None \<rparr>"
    by (simp add: same numeral_nat)
  from seen_next [OF closed this update_predicate_laws] show ?thesis
    by (simp add: same second_life_def settled_loop_def numeral_nat)
qed

text \<open>The catalog resolves its source and stamps the env.\<close>

abbreviation sample_cluster :: cluster where
  "sample_cluster \<equiv> with_agent cluster_start web settled_loop [pinned_env ''web'', marked_web, realized_web]"

definition stamped_cluster :: cluster where
  "stamped_cluster = sample_cluster\<lparr> cl_gate := tell_gate web [stamped_web] (cl_gate sample_cluster),
     cl_agents := (cl_agents sample_cluster)(web := stamped_loop stamped_web settled_loop) \<rparr>"

definition in_sample :: "cluster \<Rightarrow> catalog_loop \<Rightarrow> bool" where
  "in_sample c s \<longleftrightarrow> sample_reaches (spares agent True) (c\<lparr> cl_catalog := s \<rparr>)"

lemma store_libs_meta [simp]: "lib_meta store_libs = list_meta"
  by (simp add: store_libs_def)

lemma in_sample_closed: "catalog_closed list_meta sample_net update_predicates sourced_client tools (in_sample c)"
  using cluster_catalog_closed [of store_libs] unfolding in_sample_def store_libs_meta .

lemma web_namespaces:
  "fe_namespace realized_web = ''ns''" "fe_namespace stamped_web = ''ns''" "fe_namespace realized_again = ''ns''"
  "\<forall>v \<in> set [pinned_env ''web'', marked_web, realized_web]. fe_namespace v = ''ns''"
  "\<forall>v \<in> set [marked_again, realized_again]. fe_namespace v = ''ns''"
  by (simp_all add: web_defs again_defs go_defs with_relock_def)

lemma web_stamps: "relock_of realized_web \<noteq> ''r2''" "relock_of stamped_web = ''r2''" "relock_of realized_again = ''r2''"
  using web_versions by (simp_all add: plain_versions_def stamped_web_def)

lemma advance_asks: "in_sample sample_cluster (asked tools_catalog realized_web)"
proof -
  note closed = in_sample_closed [of sample_cluster]
  let ?vs = "[pinned_env ''web'', marked_web, realized_web]" and ?s = "catalog_idle\<lparr> cg_envs := (\<lambda>_. None)(web \<mapsto> realized_web) \<rparr>"
  have "sample_reaches (spares agent True) sample_cluster" by (rule web_lives [OF _ cluster_started]) (simp add: cluster_start_def)
  then have "in_sample sample_cluster (catalog_idle\<lparr> cg_env_events := map (\<lambda>v. (web, Some v, False)) ?vs, cg_changed_envs := [] \<rparr>)"
    by (simp add: in_sample_def with_agent_def cluster_start_def tell_catalog_def catalog_idle_def)
  from catalog_sees_all [OF closed this, of "''ns''"] web_namespaces(4) obtain ch where
    "\<forall>e \<in> set ch. fe_namespace e = ''ns''" "in_sample sample_cluster (?s\<lparr> cg_changed_envs := ch \<rparr>)"
    by (auto simp: catalog_idle_def)
  then have "in_sample sample_cluster ?s"
    using catalog_maps_all [OF closed, where s = ?s and ch = ch and q = False] by (fastforce simp: catalog_idle_def)
  from catalog_appears [OF closed update_predicate_laws this] show ?thesis
    by (rule catalog_asks [OF closed _ refl refl web_namespaces(1)])
qed

lemma advance_stamps: "in_sample stamped_cluster (calm (web_catalog tools_catalog realized_web) stamped_web)"
proof -
  note closed = in_sample_closed [of stamped_cluster]
  let ?asked = "asked tools_catalog realized_web" and ?cat = "web_catalog tools_catalog realized_web"
  let ?stamp = "PatchFloxEnv realized_web stamped_web None" and ?w = "world_of tools_catalog realized_web"
  let ?s = "?asked\<lparr> cg_busy := Some (web_requests tools_catalog realized_web @ [?stamp]), cg_env_events := [(web, Some stamped_web, True)] \<rparr>"
  note run = web_catalog_run [of tools_catalog realized_web, OF refl refl web_namespaces(1)]
  have trace: "trace_of (FloxCatalog_Reconcile list_meta sample_net sourced_client tools) ?w = web_requests tools_catalog realized_web @ [?stamp]"
    using run(1) web_stamps(1) by (simp add: stamped_web_def)
  have key: "env_key realized_web = web" using web_versions(1) by (simp add: plain_versions_def)
  have "catalog_step list_meta sample_net update_predicates sourced_client tools ?asked ?s"
    using catalog_step.pass_moved [of ?asked "web_requests tools_catalog realized_web" list_meta sample_net sourced_client tools ?w ?stamp "[]"]
      trace web_stamps(2)
    by (simp add: asked_def calm_def catalog_idle_def envs_on_server_def key stamped_web_def)
  then have "cluster_step store_libs agent update_predicates store_client sample_net sourced_client tools (spares agent True)
      (sample_cluster\<lparr> cl_catalog := ?asked \<rparr>) (stamped_cluster\<lparr> cl_catalog := ?s \<rparr>)"
    using catalog_stamps [of store_libs sample_net update_predicates sourced_client tools "sample_cluster\<lparr> cl_catalog := ?asked \<rparr>" ?s web stamped_web]
    by (simp add: stamped_cluster_def with_agent_def cluster_start_def asked_def calm_def catalog_idle_def)
  with advance_asks have "in_sample stamped_cluster ?s" unfolding in_sample_def by (rule cluster_moved)
  from catalog_closedD [OF closed this catalog_step.pass_ended [of _ "web_requests tools_catalog realized_web @ [?stamp]" _ _ _ _ ?w]]
  have "in_sample stamped_cluster (?s\<lparr> cg_busy := None \<rparr>)"
    using trace run(2) by (simp add: asked_def calm_def catalog_idle_def)
  from catalog_closedD [OF closed this catalog_step.catalog_seen [of _ "Some ?cat" "[]"]]
  have "in_sample stamped_cluster ((calm ?cat realized_web)\<lparr> cg_env_events := [(web, Some stamped_web, True)] \<rparr>)"
    by (simp add: asked_def calm_def catalog_idle_def catalog_woken_iff [OF update_predicate_laws] web_catalog_def resolved_catalog_fields)
  from catalog_closedD [OF closed this catalog_step.env_seen [of _ web "Some stamped_web" True "[]"]]
  have "in_sample stamped_cluster ((calm ?cat stamped_web)\<lparr> cg_changed_envs := readiness_objects list_meta (Some realized_web) (Some stamped_web) \<rparr>)"
    by (simp add: calm_def catalog_idle_def)
  moreover have "readiness_objects list_meta (Some realized_web) (Some stamped_web) = []"
    using readiness_of_conditions [of stamped_web realized_web list_meta]
    by (simp add: readiness_objects_def envReadinessChange_def stamped_web_def with_relock_def)
  ultimately show ?thesis by (simp add: calm_def catalog_idle_def)
qed

text \<open>The agent honours the stamp, and the catalog finds its work done.\<close>

definition honoured_cluster :: cluster where
  "honoured_cluster = with_agent stamped_cluster web second_life [marked_again, realized_again]"

lemma advance_runs: "\<exists>cat. in_sample honoured_cluster (calm cat realized_again)"
proof -
  note closed = in_sample_closed [of honoured_cluster]
  let ?cat = "web_catalog tools_catalog realized_web" and ?new = "[marked_again, realized_again]"
  let ?c = "stamped_cluster\<lparr> cl_catalog := calm ?cat stamped_web \<rparr>" and ?s = "calm ?cat stamped_web"
  have loop: "cl_agents stamped_cluster web = stamped_loop stamped_web settled_loop"
    by (simp add: stamped_cluster_def with_agent_def)
  have "agent_part (sample_reaches (spares agent True)) ?c web ''r2'' (stamped_loop stamped_web settled_loop)"
    using agent_part_start [of "sample_reaches (spares agent True)" ?c web "''r2''"] advance_stamps by (simp add: loop in_sample_def)
  then have "agent_part (sample_reaches (spares agent True)) ?c web ''r2'' second_life"
    by (rule stamped_life [OF cluster_agent_closed, rotated]) (simp add: loop stamped_loop_def web_stamps)
  then have "sample_reaches (spares agent True) (with_agent ?c web second_life ?new)"
    by (rule agent_partD) (simp_all add: loop web_versions second_life_def stamped_loop_def)
  then have "in_sample honoured_cluster (?s\<lparr> cg_env_events := map (\<lambda>v. (web, Some v, False)) ?new, cg_changed_envs := [] \<rparr>)"
    by (simp add: in_sample_def honoured_cluster_def with_agent_def tell_catalog_def calm_def catalog_idle_def)
  from catalog_sees_all [OF closed this, of "''ns''"] web_namespaces(2,5) obtain ch where
    "\<forall>e \<in> set ch. fe_namespace e = ''ns''" "in_sample honoured_cluster ((calm ?cat realized_again)\<lparr> cg_changed_envs := ch \<rparr>)"
    by (auto simp: calm_def catalog_idle_def)
  moreover have "catalog_key ?cat = tools" by (simp add: catalog_key_def web_catalog_def resolved_catalog_fields object_defs)
  ultimately obtain q where q: "in_sample honoured_cluster ((calm ?cat realized_again)\<lparr> cg_queued := q \<rparr>)"
    using catalog_maps_all [OF closed, where s = "calm ?cat realized_again" and ch = ch and q = False]
    by (fastforce simp: calm_def catalog_idle_def)
  have cat: "fc_meta ?cat = fc_meta tools_catalog" "fc_spec ?cat = fc_spec tools_catalog"
    by (simp_all add: web_catalog_def resolved_catalog_fields)
  show ?thesis
  proof (cases q)
    case True
    with q have "in_sample honoured_cluster (asked ?cat realized_again)"
      by (intro catalog_asks [OF closed _ cat web_namespaces(3)]) simp
    from catalog_settles [OF closed update_predicate_laws this cat web_namespaces(3) web_stamps(3)] show ?thesis by blast
  next
    case False
    with q show ?thesis by (intro exI [of _ ?cat]) (simp add: calm_def catalog_idle_def)
  qed
qed

lemma honoured_rest:
  "catalog_at_rest (calm cat realized_again)" "at_rest (cl_agents honoured_cluster k)"
  "on_server (cl_agents honoured_cluster web) = Some realized_again"
  "on_server (cl_agents honoured_cluster k) \<noteq> None \<Longrightarrow>
    filter (\<lambda>nr. nr_node nr = er_node_name agent) (st_realized (fe_status (hd (lo_versions (cl_agents honoured_cluster k))))) = []"
  by (auto simp: catalog_at_rest_def calm_def catalog_idle_def honoured_cluster_def stamped_cluster_def with_agent_def
      cluster_start_def at_rest_def second_life_def settled_loop_def loop_start_def on_server_def object_defs split: if_splits)

theorem advance_is_honoured_witness:
  "\<exists>logs cat. cluster_runs store_libs agent update_predicates store_client sample_net sourced_client tools (spares agent True) logs
      (honoured_cluster\<lparr> cl_catalog := calm cat realized_again \<rparr>) \<and> alreadyRealized agent realized_again \<and>
     (\<exists>e0 evs. evs \<in> set (logs web) \<and> built_from store_libs agent web e0 realized_again evs \<and>
        map_get (fe_annotations e0) relockAnnotation = ''r2'')"
proof -
  obtain cat where "in_sample honoured_cluster (calm cat realized_again)" using advance_runs by blast
  then obtain logs where run: "cluster_runs store_libs agent update_predicates store_client sample_net sourced_client tools
      (spares agent True) logs (honoured_cluster\<lparr> cl_catalog := calm cat realized_again \<rparr>)" (is "cluster_runs _ _ _ _ _ _ _ _ _ ?c")
    unfolding in_sample_def using cluster_reaches_runs by blast
  have c: "cl_catalog ?c = calm cat realized_again" "cl_agents ?c = cl_agents honoured_cluster" by simp_all
  have "cg_catalog (cl_catalog ?c) = Some cat" by (simp add: calm_def)
  with advance_is_honoured [OF run _ _ this _ _ update_predicate_laws] honoured_rest
  obtain obj where obj: "cg_sources (cl_catalog ?c) (source_key cat) = Some obj"
      "NestedString sample_net obj [''status'', ''artifact'', ''revision''] \<noteq> [] \<longrightarrow>
        (\<forall>k e. on_server (cl_agents ?c k) = Some e \<and> key_namespace k = key_namespace tools \<longrightarrow> alreadyRealized agent e \<and>
         (\<exists>e0 evs. evs \<in> set (logs k) \<and> built_from store_libs agent k e0 e evs \<and>
            map_get (fe_annotations e0) relockAnnotation = NestedString sample_net obj [''status'', ''artifact'', ''revision''] \<and>
            (unraced e0 evs \<longrightarrow> fe_spec e0 = fe_spec e)))"
    unfolding c store_libs_meta using meta_laws_list by blast
  have "obj = r2_source" using obj(1) by (simp add: calm_def split: if_splits)
  then have "NestedString sample_net obj [''status'', ''artifact'', ''revision''] = ''r2''" by (simp add: sample_net_def r2_source_def)
  moreover have "key_namespace web = key_namespace tools" by simp
  ultimately have "alreadyRealized agent realized_again \<and> (\<exists>e0 evs. evs \<in> set (logs web) \<and>
      built_from store_libs agent web e0 realized_again evs \<and> map_get (fe_annotations e0) relockAnnotation = ''r2'')"
    using obj(2) [rule_format, of web realized_again] honoured_rest(3) unfolding c by auto
  with run show ?thesis by blast
qed

end
