(* ===== verification/RelockLoop.thy ===== *)
theory RelockLoop
  imports CatalogProperties FloxEnvProperties Watches
begin

text \<open>
  Catalogs and node agents in a circle. A catalog stamps its revision on every FloxEnv of its namespace, a
  stamp makes the agents realise, a realise moves the env's readiness, and a change of readiness wakes
  every catalog of the namespace. With one catalog the circle closes after one turn: the env carries
  the revision already. With two catalogs of different revisions it never does.
\<close>

subsection \<open>Two catalogs cannot both be content\<close>

lemma quiet_propagation:
  assumes "trace_of (propagateRelock C ns revision) w = [ListFloxEnvs (Some ns) (Inr envs)]" "revision \<noteq> []"
  shows "stale_envs revision envs = []"
proof -
  have "emits (propagateRelock C ns revision) (\<lambda>out evs. \<forall>es. evs = [ListFloxEnvs (Some ns) (Inr es)] \<longrightarrow> stale_envs revision es = [])"
    unfolding propagateRelock_def list_envs_def
    by (intro emits_intros emits_mono [OF relock_each_emits])
      (auto simp: assms(2) relock_run_def split: option.splits)
  from emits_run [OF this, of w] assms(1) show ?thesis by simp
qed

text \<open>
  In a namespace with an env, of two catalogs that resolved different revisions at least one stamps
  whenever both are reconciled.
\<close>

theorem catalogs_not_both_content:
  assumes "trace_of (propagateRelock C ns r1) w1 = [ListFloxEnvs (Some ns) (Inr envs)]"
    and "trace_of (propagateRelock C ns r2) w2 = [ListFloxEnvs (Some ns) (Inr envs)]"
    and "r1 \<noteq> []" "r2 \<noteq> []" "r1 \<noteq> r2"
  shows "envs = []"
  using quiet_propagation [OF assms(1,3)] quiet_propagation [OF assms(2,4)] assms(5)
  by (cases envs) (auto simp: stale_envs_def split: if_splits)

subsection \<open>The circle\<close>

definition libs_catalog :: floxcatalog where
  "libs_catalog = tools_catalog\<lparr> fc_meta := plain_meta ''libs'',
     fc_spec := \<lparr> cs_source_ref = \<lparr> sr_kind = ''GitRepository'', sr_name = ''libs-src'', sr_namespace = [] \<rparr>, cs_dir = [] \<rparr> \<rparr>"

definition circle_client :: "store client" where
  "circle_client = store_client\<lparr> cl_get_source := \<lambda>k w. (Inr [(''url'', JString ''http://src:9090/a.tgz''),
     (''revision'', JString (if key_name k = ''src'' then ''r1'' else ''r2''))], w) \<rparr>"

definition circle_store :: "floxenv \<Rightarrow> store" where
  "circle_store e = \<lparr> so_envs = [e], so_catalogs = [tools_catalog, libs_catalog], so_workloads = [sample_workload], so_pods = [] \<rparr>"

definition circle_agent :: "store env_reconciler" where
  "circle_agent = agent\<lparr> er_client := circle_client \<rparr>"

text \<open>The env, realised under a revision, and on its way there.\<close>

definition honoured :: "string \<Rightarrow> floxenv" where
  "honoured r = (with_relock r realized_web)\<lparr> fe_status := (fe_status realized_web)\<lparr> st_relock_token := r \<rparr> \<rparr>"

definition in_progress :: "string \<Rightarrow> string \<Rightarrow> floxenv" where
  "in_progress old r = with_ready store_libs (with_relock r (honoured old)) ConditionFalse ''Realizing'' ''realising the env closure on n1''"

lemmas circle_defs = circle_client_def circle_store_def circle_agent_def libs_catalog_def honoured_def in_progress_def
  with_relock_def

lemma show_one: "show_nat 1 = ''1''"
  by code_simp

abbreviation catalog_pass :: "string \<Rightarrow> (store st, outcome) state" where
  "catalog_pass name \<equiv> FloxCatalog_Reconcile list_meta sample_net circle_client (ObjKey ''ns'' name)"

abbreviation agent_pass :: "(store st, outcome) state" where
  "agent_pass \<equiv> FloxEnv_Reconcile store_libs circle_agent web"

lemma catalogs_stamp:
  "world_after (catalog_pass ''tools'') (circle_store (honoured ''r2'')) = circle_store (with_relock ''r1'' (honoured ''r2''))"
  "world_after (catalog_pass ''libs'') (circle_store (honoured ''r1'')) = circle_store (with_relock ''r2'' (honoured ''r1''))"
  by (simp_all add: circle_defs catalog_run_defs go_defs web_defs relockAnnotation_def show_one)

definition circle_request :: realize_request where
  "circle_request = web_request\<lparr> rr_lock := [] \<rparr>"

lemma agent_run:
  assumes "(old, r) \<in> {(''r1'', ''r2''), (''r2'', ''r1'')}"
  shows "run_state agent_pass (start (circle_store (with_relock r (honoured old)))) =
     ((done_result, None),
      \<lparr> world = circle_store (honoured r),
        trace = [GetFloxEnv web (Inr (with_relock r (honoured old))), AcquireSlot None,
          PatchFloxEnvStatus (with_relock r (honoured old)) (in_progress old r) (Inr (in_progress old r)),
          Realize (30 * minute) circle_request (Inr store_result),
          PatchFloxEnvStatus (in_progress old r) (honoured r) (Inr (honoured r)), ReleaseSlot] \<rparr>)"
proof -
  have "r \<noteq> old" "r \<noteq> []" "old \<noteq> []" using assms by auto
  then show ?thesis
    by (simp add: circle_defs circle_request_def go_defs web_defs relockAnnotation_def realize_timeout_def defaultRealizeTimeout_def)
qed

lemma agent_realises:
  assumes "(old, r) \<in> {(''r1'', ''r2''), (''r2'', ''r1'')}"
  shows "trace_of agent_pass (circle_store (with_relock r (honoured old))) =
      [GetFloxEnv web (Inr (with_relock r (honoured old))), AcquireSlot None,
       PatchFloxEnvStatus (with_relock r (honoured old)) (in_progress old r) (Inr (in_progress old r)),
       Realize (30 * minute) circle_request (Inr store_result),
       PatchFloxEnvStatus (in_progress old r) (honoured r) (Inr (honoured r)), ReleaseSlot]"
    "world_after agent_pass (circle_store (with_relock r (honoured old))) = circle_store (honoured r)"
  by (simp_all add: trace_of_def world_after_def agent_run [OF assms])

lemma circle_wakes:
  assumes "(old, r) \<in> {(''r1'', ''r2''), (''r2'', ''r1'')}"
  shows "env_agent_wakes update_predicates (Updated (honoured old) (with_relock r (honoured old))) = [web]"
    "set (outcome_of (env_wakes_catalogs list_meta circle_client (Updated (in_progress old r) (honoured r))) (circle_store (honoured r))) =
      {ObjKey ''ns'' ''tools'', ObjKey ''ns'' ''libs''}"
proof -
  show "env_agent_wakes update_predicates (Updated (honoured old) (with_relock r (honoured old))) = [web]"
    using assms by (auto simp: env_watch [OF update_predicate_laws] circle_defs web_defs go_defs relockAnnotation_def
        dest!: fun_cong [where x = "''flox.seedmatic.io/relock''"])
  show "set (outcome_of (env_wakes_catalogs list_meta circle_client (Updated (in_progress old r) (honoured r))) (circle_store (honoured r))) =
      {ObjKey ''ns'' ''tools'', ObjKey ''ns'' ''libs''}"
    using assms by (auto simp: env_wakes_catalogs_def envReadinessChange_def readiness_def catalogsForEnv_def catalog_key_def
        circle_defs web_defs go_defs)
qed

text \<open>
  The circle: from an env realised under the revision of the one catalog, the other catalog stamps its
  own, which wakes the agent; the agent realises the env anew; its last write wakes both catalogs; and
  the same happens with the catalogs exchanged, which leads back to where it began.
\<close>

theorem two_catalogs_never_settle:
  assumes "(name, old, r) \<in> {(''tools'', ''r2'', ''r1''), (''libs'', ''r1'', ''r2'')}"
  shows "world_after (catalog_pass name) (circle_store (honoured old)) = circle_store (with_relock r (honoured old)) \<and>
     env_agent_wakes update_predicates (Updated (honoured old) (with_relock r (honoured old))) = [web] \<and>
     (\<exists>t q. Realize t q (Inr store_result) \<in> set (trace_of agent_pass (circle_store (with_relock r (honoured old))))) \<and>
     world_after agent_pass (circle_store (with_relock r (honoured old))) = circle_store (honoured r) \<and>
     (\<exists>base. PatchFloxEnvStatus base (honoured r) (Inr (honoured r)) \<in> set (trace_of agent_pass (circle_store (with_relock r (honoured old)))) \<and>
       set (outcome_of (env_wakes_catalogs list_meta circle_client (Updated base (honoured r))) (circle_store (honoured r))) =
         {ObjKey ''ns'' ''tools'', ObjKey ''ns'' ''libs''})"
proof -
  have p: "(old, r) \<in> {(''r1'', ''r2''), (''r2'', ''r1'')}" using assms by blast
  have "world_after (catalog_pass name) (circle_store (honoured old)) = circle_store (with_relock r (honoured old))"
    using assms catalogs_stamp by blast
  moreover note run = agent_realises(1) [OF p]
  have "Realize (30 * minute) circle_request (Inr store_result) \<in> set (trace_of agent_pass (circle_store (with_relock r (honoured old))))"
      "PatchFloxEnvStatus (in_progress old r) (honoured r) (Inr (honoured r)) \<in> set (trace_of agent_pass (circle_store (with_relock r (honoured old))))"
    unfolding run by simp_all
  ultimately show ?thesis using circle_wakes [OF p] agent_realises(2) [OF p] by blast
qed

end
