(* ===== verification/Spec2Isabelle.thy ===== *)
theory Spec2Isabelle
  imports Slots FloxEnvRaces ManifestProperties RestartProperties PodGateProperties PodFloxProperties
    PodValidity CatalogProperties Carrier NodeAgent EnvHistory Watches Registration PatchBases
    AgentLoop GateLoop ClusterLoop RelockLoop
begin

text \<open>
  \<^bold>\<open>flox-controller\<close> runs on every node of a Kubernetes cluster. It realises FloxEnv objects into the
  node's nix store, resolves FloxCatalog objects from Flux sources, holds pods back until the envs they
  use are on a node, and injects what a container needs to activate its env.

  \<^bold>\<open>Parts and theories.\<close> Each part is a theory of definitions translated from one source file, and a
  theory of its properties.

  \<^item> \<open>Api\<close> (\<open>api/v1alpha1\<close>): the objects as records with the fields of the Go structs; the parts of pods,
    workloads and claims the code touches. Metadata that no code reads is left out.
  \<^item> \<open>Kube\<close>: the outside world. A record \<open>client\<close> has one function per request the code sends, over an
    arbitrary state of everything outside the process; every call is recorded with its answer in a
    trace. \<open>emits\<close> is the logic for what a program can add to the trace.
  \<^item> \<open>FloxEnvController\<close>, \<open>Manifest\<close> (\<open>internal/controller/floxenv_controller.go\<close>): \<open>Reconcile\<close>, cut where
    the source has its early returns: \<open>FloxEnv_Reconcile\<close> up to the manifest, \<open>realize_when_deps_ready\<close>
    the dependency check and the choice of the lock, \<open>with_slot\<close> the channel of realise slots,
    \<open>realize_in_slot\<close> the realise, the roll and the success write. \<open>Slots\<close> interleaves the
    reconciles of the workers and gives the channel operations in their traces the channel that \<open>slot()\<close> makes.
  \<^item> \<open>Restart\<close>, \<open>Sha256\<close> (\<open>floxenv_restart.go\<close>): the roll of the consumers and the digest of a lock, with
    SHA-256 on 32-bit words as the standard library has it.
  \<^item> \<open>PodGate\<close> (\<open>podgate_controller.go\<close>), \<open>Catalog\<close> (\<open>floxcatalog_controller.go\<close>), \<open>Carrier\<close>
    (\<open>internal/carrier\<close>), \<open>PodFlox\<close> (\<open>internal/webhook/podflox.go\<close>), \<open>Floxenv\<close> (\<open>internal/floxenv\<close>).
  \<^item> \<open>HostFS\<close>, \<open>ExecProvisioner\<close> (\<open>internal/provisioner/exec.go\<close>): the node's files, each call of which may
    fail for a reason of its own, and \<open>Exec_Realize\<close> with all its helpers over them.
  \<^item> \<open>Wiring\<close> (\<open>cmd/flox-controller/main.go\<close>): the flags, what a process registers with its manager, when
    it exits, and the predicates of the watches. \<open>Watches\<close> (the \<open>SetupWithManager\<close> methods): which change
    wakes which keys. \<open>Registration\<close> (\<open>groupversion_info.go\<close> and the \<open>init\<close> functions): the scheme.
  \<^item> \<open>GoHeap\<close>, \<open>GoCopy\<close>, \<open>DeepCopy\<close> (\<open>api/v1alpha1/zz_generated.deepcopy.go\<close>): Go memory, with backing arrays,
    maps and pointers as cells, and the generated copying functions over it. Elsewhere an object is a
    value. \<open>PatchBases\<close> justifies that: each edit the controllers make before a patch, over the heap, is
    the update of the model, and leaves the base of the patch alone.
  \<^item> \<open>Prelude\<close> (strings, maps and errors as Go has them), \<open>Keyed_Lists\<close> (lists used as maps, with the
    contracts of \<open>upsert\<close> and of insert-if-absent as locales), \<open>Examples\<close> (a small cluster the
    concrete runs use).

  \<^bold>\<open>How they interact.\<close> The controllers share nothing but the API server: the agent writes
  \<open>status.realized\<close>, the gate reads it (\<open>success_makes_eligible\<close>); the catalog stamps the relock
  annotation, the agent compares it (\<open>advance_forces_realise\<close>); the webhook adds the gate, the gate
  reconciler removes it; the agent calls the provisioner through \<open>Provisioner\<close>.
  \<open>NodeAgent\<close> states what a provisioner promises its agent as the locale \<open>provisioner_contract\<close>, proves
  there what a Ready env means on the node, and interprets it on \<open>Exec_Realize\<close>.

  Five theories follow the controllers through their event loops, where changes arrive late and anything
  may happen between two requests of a pass.

  \<^item> \<open>AgentLoop\<close>: one FloxEnv and its node agent. At rest the status counts the env as realised on the node
    (\<open>rest_settled\<close>), provided other agents leave its entry alone and the cache is not behind the agent's own
    writes; for each proviso a run without it shows that it is needed. \<open>AgentWork\<close> keeps the log of the
    passes and finds the realise the entry is the result of, and what it was asked to build
    (\<open>loop_realises\<close>).
  \<^item> \<open>GateLoop\<close>: the gate. At rest no pod could be released (\<open>no_pod_is_forgotten\<close>), unless a listing of the
    map function fails.
  \<^item> \<open>CatalogLoop\<close>: one FloxCatalog. At rest its source has an artifact and every FloxEnv of the namespace
    carries the artifact's revision (\<open>rest_content\<close>), provided the listings of the map functions succeed,
    nobody else touches the stamps, and no pass starts behind the loop's own stamps.
  \<^item> \<open>ClusterLoop\<close>: the three loops over one API server, each version of an env that one of them stores being
    an event on its way to the others. At rest a gated pod names an env that does not exist
    (\<open>pod_waits_only_for_missing_env\<close>), and the envs were realised under the revision of the source
    (\<open>advance_is_honoured\<close>); what is assumed of the other writers is in the hypotheses and the texts. The server moves an env's generation with its spec, and no FloxEnv is deleted.
  \<^item> \<open>RelockLoop\<close>: two catalogs of one namespace, which keep the circle of stamps and realises turning.

  \<^bold>\<open>Lemma groups.\<close> \<open>FloxEnvTraces\<close> and \<open>FloxEnvPasses\<close> describe every trace of the agent's reconcile, as
  a quiet pass or a pass around one realise; the properties of \<open>FloxEnvProperties\<close> follow from that
  description. \<open>NodeRuns\<close> has the same for the provisioner (\<open>ends\<close>, and the locale \<open>node_relation\<close> for
  what every run keeps). \<open>FloxEnvRaces\<close> shows five behaviours the comments of the code rule out.

  \<open>EnvHistory\<close> is the life of one FloxEnv object under edits and the status writes of many agents, each
  of which may work from a stale version, and what every version satisfies.

  \<^bold>\<open>Parameters.\<close> JSON and YAML decoding, TOML encoding, \<open>%q\<close>, \<open>net/url\<close>, name resolution, the condition
  helpers of apimachinery (their documented laws are \<open>meta_laws\<close>; over the heap \<open>edit_laws\<close>), the copying
  of the library's structs (\<open>copy_laws\<close>), the update predicates of
  controller-runtime (\<open>predicate_laws\<close>) and the tools on the node are
  arguments of the definitions. A property over traces holds whatever they and the API server answer.

  \<^bold>\<open>Bounds.\<close> No definition uses fuel: every loop of the code ranges over a list. Times are in
  nanoseconds and generations in unbounded integers.

  \<^bold>\<open>Limits.\<close> A Go map is an association list whose order is the order of iteration; the order is
  arbitrary since the list is; only \<open>readyNodesForEnv\<close> and \<open>intersect\<close> list nodes in a fixed order where Go's is
  random. A call on the node that fails leaves the files as they were, paths are
  not followed through a symbolic link in their middle, and a read or write of a file that is itself a link
  is answered with an error where \<open>os\<close> follows the link (so a token file that is a link counts as
  unreadable), and trimming knows ASCII space only. The size of a claim is passed on as the string it
  is configured as, where \<open>resource.MustParse\<close> panics on one that is no quantity. Logging
  and the deadline of a context have no effect in the model, except that a wait for a slot may be cancelled.

  \<^bold>\<open>Not modelled.\<close> The parsing of the command line and logging. Of controller-runtime, client-go and
  apimachinery only what the code relies on: a work queue that holds a key once and gives it to one
  worker at a time, watches that deliver every change in order, and no resynchronisation; deletions of a
  FloxEnv end the story of \<open>AgentLoop\<close> and are left out of \<open>ClusterLoop\<close>. The removal of envs from a node,
  which the code does not do yet (\<open>Prune\<close> is empty).
\<close>

section \<open>Across the components\<close>

lemma env_trace_stops:
  assumes "env_trace L R env out rest" "\<not> alreadyRealized R env"
  shows "rest \<noteq> []"
  using assms by (auto simp: env_trace_def early_stop_def realise_trace_def deps_trace_def slot_trace_def
    pending_trace_def failed_write_def requeue_write_def split: if_splits)

lemma relock_pending:
  "st_relock_token (fe_status env) \<noteq> revision \<Longrightarrow> \<not> alreadyRealized R (with_relock revision env)"
  "st_relock_token (fe_status env) \<noteq> revision \<Longrightarrow> lock_to_use (with_relock revision env) = []"
  by (simp_all add: alreadyRealized_def lock_to_use_def relock_of_def with_relock_def map_get_def AList.update_conv')

text \<open>
  C15: An advance of a catalog reaches the node. A reconcile that reads an env as the catalog's
  controller stamped it, with a revision the env's status has not honoured, does not stop at reading
  it, and whatever it realises is realised without the pinned lock. The nodes the gate counts as
  holding the env are the same as before: a stamp alone holds no pod back.
\<close>

theorem advance_forces_realise:
  assumes "trace_of (FloxEnv_Reconcile L R req) w = GetFloxEnv req (Inr (with_relock revision env)) # rest"
    and "st_relock_token (fe_status env) \<noteq> revision"
  shows "rest \<noteq> [] \<and> (\<forall>t q answer. Realize t q answer \<in> set rest \<longrightarrow> rr_lock q = []) \<and>
    readyNodesForEnv (with_relock revision env) = readyNodesForEnv env"
proof (intro conjI allI impI)
  have "env_trace L R (with_relock revision env) (outcome_of (FloxEnv_Reconcile L R req) w) rest"
    using reconcile_run [of L R req w] unfolding reconcile_trace_def assms(1) by auto
  then show "rest \<noteq> []" by (rule env_trace_stops) (rule relock_pending(1) [OF assms(2)])
next
  fix t q answer
  assume "Realize t q answer \<in> set rest"
  then have "Realize t q answer \<in> set (trace_of (FloxEnv_Reconcile L R req) w)" by (simp add: assms(1))
  then obtain env' reads where
    "realise_pass L R req env' reads t q answer (outcome_of (FloxEnv_Reconcile L R req) w)
       (trace_of (FloxEnv_Reconcile L R req) w)" by (rule realise_pass_of_event)
  then have "env' = with_relock revision env" "rr_lock q = lock_to_use env'"
    unfolding realise_pass_def assms(1) by auto
  then show "rr_lock q = []" by (simp add: relock_pending(2) [OF assms(2)])
next
  show "readyNodesForEnv (with_relock revision env) = readyNodesForEnv env"
    by (simp add: readyNodesForEnv_def with_relock_def)
qed

theorem advance_forces_realise_witness:
  "\<exists>rest. trace_of (FloxEnv_Reconcile store_libs agent web) (store_of [with_relock ''r2'' (pinned_env ''web'')]) =
      GetFloxEnv web (Inr (with_relock ''r2'' (pinned_env ''web''))) # rest \<and> rest \<noteq> []"
proof -
  have "hd (trace_of (FloxEnv_Reconcile store_libs agent web) (store_of [with_relock ''r2'' (pinned_env ''web'')])) =
      GetFloxEnv web (Inr (with_relock ''r2'' (pinned_env ''web'')))"
    by (simp add: go_defs with_relock_def)
  then obtain rest where run:
    "trace_of (FloxEnv_Reconcile store_libs agent web) (store_of [with_relock ''r2'' (pinned_env ''web'')]) =
      GetFloxEnv web (Inr (with_relock ''r2'' (pinned_env ''web''))) # rest"
    using reconcile_run [of store_libs agent web "store_of [with_relock ''r2'' (pinned_env ''web'')]"]
    by (auto simp: reconcile_trace_def)
  have "st_relock_token (fe_status (pinned_env ''web'')) \<noteq> ''r2''" by (simp add: go_defs)
  with advance_forces_realise [OF run] run show ?thesis by blast
qed

text \<open>
  A node that declares an env Ready is a node the gate lets the env's pods onto, as soon as the
  gate reads what the node wrote.
\<close>

theorem success_makes_eligible:
  assumes "meta_laws (lib_meta L)"
    and "PatchFloxEnvStatus base new r \<in> set (trace_of (FloxEnv_Reconcile L R req) w)"
    and "IsStatusConditionTrue (lib_meta L) (fe_conditions new) ''Ready''"
  shows "er_node_name R \<in> set (readyNodesForEnv new)"
proof -
  have "success_at L R req base new r (trace_of (FloxEnv_Reconcile L R req) w)"
    using reconcile_writes [OF assms(2)] not_ready_not_true [OF assms(1)] assms(3) by blast
  then obtain res relock where new: "new = record_realized L R relock res base" unfolding success_at_def by blast
  have "node_entry R base res \<in> set (st_realized (fe_status new))"
    unfolding new record_realized_fields by (rule realized.ups_member)
  moreover have "fe_generation new = fe_generation base" by (simp add: new record_realized_fields)
  ultimately show ?thesis
    by (auto simp: set_readyNodesForEnv realised_on_def list_ex_iff node_entry_def intro!: bexI [of _ "node_entry R base res"])
qed

theorem success_makes_eligible_witness: "''n1'' \<in> set (readyNodesForEnv realized_web)"
proof -
  have "er_node_name agent \<in> set (readyNodesForEnv realized_web)"
  proof (rule success_makes_eligible [OF store_meta_laws])
    show "PatchFloxEnvStatus marked_web realized_web (Inr realized_web)
        \<in> set (trace_of (FloxEnv_Reconcile store_libs agent web) (store_of [pinned_env ''web'']))"
      by (simp add: pinned_trace)
    show "IsStatusConditionTrue (lib_meta store_libs) (fe_conditions realized_web) ''Ready''"
      by (simp add: web_defs go_defs)
  qed
  then show ?thesis by (simp add: go_defs)
qed

text \<open>
  What wakes a node agent is what asks for a realise: a change of the spec, and a stamp of a
  revision the env does not carry. No status write, of whichever agent and from whichever version,
  does; so a pass never re-enqueues itself or its siblings on other nodes.
\<close>

theorem watch_passes_requests_only:
  assumes "predicate_laws P"
  shows "\<not> realisationChange P env (merge_env base new env) \<and>
    realisationChange P env (env\<lparr> fe_spec := spec, fe_meta := (fe_meta env)\<lparr> om_generation := fe_generation env + 1 \<rparr> \<rparr>) \<and>
    realisationChange P env (with_relock revision env) =
      (map_of (fe_annotations env) relockAnnotation \<noteq> Some revision)"
proof -
  show ?thesis
    using assms map_of_update_neq [of "fe_annotations env" relockAnnotation revision]
    by (auto simp: realisationChange_def predicate_laws_def merge_env_def with_relock_def)
qed

theorem watch_passes_requests_only_witness:
  "\<not> realisationChange update_predicates marked_web (merge_env marked_web realized_web marked_web) \<and>
   realisationChange update_predicates marked_web (with_relock ''r2'' marked_web)"
proof -
  have "map_of (fe_annotations marked_web) relockAnnotation = None" by (simp add: web_defs go_defs)
  then show ?thesis
    using watch_passes_requests_only [OF update_predicate_laws, of marked_web marked_web realized_web "fe_spec marked_web" "''r2''"]
    by simp
qed

end
